(* ===== verification/Prelude.thy ===== *)
theory Prelude
  imports Main "HOL-Library.Word"
begin

unbundle bit_operations_syntax

text \<open>
  Shared vocabulary of the development.  Machine integers are words of the width the
  C declaration has; buffer sizes and offsets, which stay far below \<open>2 ^ 31\<close>
  in the modelled code, are \<^typ>\<open>int\<close>.  A C object in memory is a list of
  bytes of the object's size, and every access is checked: leaving the object is the
  value \<open>Inl OutOfBounds\<close>, following a null pointer is \<open>Inl NullDeref\<close>, and the
  engine's own fatal exits (\<open>Sys_Error\<close>, \<open>Host_EndGame\<close>) are values as well.
  An operation that C leaves undefined (a shift by the width of the operand, a division
  by zero) is \<open>Inl Undefined\<close>; a recursion of the code with no bound of its own is run
  with fuel, and \<open>Inl OutOfFuel\<close> says that the fuel was not enough.
\<close>

section \<open>Types\<close>

type_synonym u8 = "8 word"
type_synonym u16 = "16 word"
type_synonym u32 = "32 word"
type_synonym u64 = "64 word"

text \<open>The ways in which a modelled operation can fail to return.\<close>

datatype fault =
    Sys_Error string
  | Host_EndGame
  | OutOfBounds
  | NullDeref
  | Undefined
  | OutOfFuel

type_synonym 'a res = "fault + 'a"

section \<open>Sequencing fallible operations\<close>

definition rbind :: "'a res \<Rightarrow> ('a \<Rightarrow> 'b res) \<Rightarrow> 'b res" where
  "rbind m f = (case m of Inl e \<Rightarrow> Inl e | Inr x \<Rightarrow> f x)"

named_theorems res_simps \<open>evaluation of fallible operations\<close>

lemma rbind_Inl [simp, res_simps]: "rbind (Inl e) f = Inl e"
  by (simp add: rbind_def)

lemma rbind_Inr [simp, res_simps]: "rbind (Inr x) f = f x"
  by (simp add: rbind_def)

lemma rbind_eq_Inr: "rbind m f = Inr y \<longleftrightarrow> (\<exists>x. m = Inr x \<and> f x = Inr y)"
  by (cases m) auto

lemma rbind_InrE:
  assumes "rbind m f = Inr y"
  obtains x where "m = Inr x" "f x = Inr y"
  using assms by (auto simp: rbind_eq_Inr)

lemma rbind_assoc: "rbind (rbind m f) g = rbind m (\<lambda>x. rbind (f x) g)"
  by (cases m) auto

lemma rbind_cong [fundef_cong]:
  "m = m' \<Longrightarrow> (\<And>x. m' = Inr x \<Longrightarrow> f x = f' x) \<Longrightarrow> rbind m f = rbind m' f'"
  by (cases m') auto

section \<open>Byte memory\<close>

text \<open>
  One C object of \<open>length m\<close> bytes: reading one byte, reading a run (\<open>memcpy\<close> out of
  it), writing a run (\<open>memcpy\<close> into it).
\<close>

definition peek :: "u8 list \<Rightarrow> int \<Rightarrow> u8 res" where
  "peek m i = (if 0 \<le> i \<and> i < int (length m) then Inr (m ! nat i) else Inl OutOfBounds)"

definition slice :: "u8 list \<Rightarrow> int \<Rightarrow> int \<Rightarrow> u8 list res" where
  "slice m i n = (if 0 \<le> i \<and> 0 \<le> n \<and> i + n \<le> int (length m)
     then Inr (take (nat n) (drop (nat i) m)) else Inl OutOfBounds)"

definition poke :: "u8 list \<Rightarrow> int \<Rightarrow> u8 list \<Rightarrow> u8 list res" where
  "poke m i bs = (if 0 \<le> i \<and> i + int (length bs) \<le> int (length m)
     then Inr (take (nat i) m @ bs @ drop (nat i + length bs) m) else Inl OutOfBounds)"

lemma poke_ok:
  "0 \<le> i \<Longrightarrow> i + int (length bs) \<le> int (length m) \<Longrightarrow>
   poke m i bs = Inr (take (nat i) m @ bs @ drop (nat i + length bs) m)"
  by (simp add: poke_def)

lemma poke_length: "poke m i bs = Inr m' \<Longrightarrow> length m' = length m"
  by (auto simp: poke_def split: if_splits)

lemma poke_take:
  "poke m i bs = Inr m' \<Longrightarrow> take (nat i) m' = take (nat i) m"
  by (auto simp: poke_def split: if_splits)

lemma poke_take_append:
  "poke m i bs = Inr m' \<Longrightarrow> take (nat i + length bs) m' = take (nat i) m @ bs"
  by (auto simp: poke_def split: if_splits)

lemma slice_poke:
  "poke m i bs = Inr m' \<Longrightarrow> slice m' i (int (length bs)) = Inr bs"
  by (auto simp: poke_def slice_def split: if_splits)

lemma peek_ok: "0 \<le> i \<Longrightarrow> i < int (length m) \<Longrightarrow> peek m i = Inr (m ! nat i)"
  by (simp add: peek_def)

lemma peek_nat [simp]: "n < length m \<Longrightarrow> peek m (int n) = Inr (m ! n)"
  by (simp add: peek_def)

section \<open>C integer conversions\<close>

text \<open>
  \<open>c >> n\<close> of a signed \<open>int\<close> keeps the sign (as every compiler the engine is built
  with does); the bytes that the code cuts out of it do not depend on that.
\<close>

abbreviation (input) sar :: "u32 \<Rightarrow> nat \<Rightarrow> u32" where
  "sar w n \<equiv> signed_drop_bit n w"

definition byte_of :: "'a::len word \<Rightarrow> u8" where
  "byte_of c = ucast (c AND 0xff)"

section \<open>Words and their bytes\<close>

lemma xor_cancel_left: "(z :: 'a::len word) XOR x = z XOR y \<longleftrightarrow> x = y"
proof
  assume "z XOR x = z XOR y"
  then have "z XOR (z XOR x) = z XOR (z XOR y)" by simp
  then show "x = y" by (simp add: xor.assoc [symmetric])
qed simp

lemma xor_cancel_right: "(x :: 'a::len word) XOR z = y XOR z \<longleftrightarrow> x = y"
  by (simp only: xor.commute [of _ z] xor_cancel_left)

lemma xor_eq_0: "(x :: 'a::len word) XOR y = 0 \<longleftrightarrow> x = y"
  using xor_cancel_left [of y x y] by (simp add: xor.commute)

lemma add_or_disjoint: "(a::'a::len word) AND b = 0 \<Longrightarrow> a + b = a OR b"
  by (metis disjunctive_add bit_and_iff bit_0_eq bot_apply bot_bool_def)

lemma plus_shift_or_16:
  "(ucast (a :: u8) :: u32) + push_bit 8 (ucast (b :: u8)) = ucast a OR push_bit 8 (ucast b)"
  by (rule add_or_disjoint, rule bit_word_eqI) (auto simp: bit_simps dest: bit_imp_le_length)

lemma plus_shift_or_32:
  "(ucast (a :: u8) :: u32) + push_bit 8 (ucast (b :: u8)) + push_bit 16 (ucast (c :: u8))
     + push_bit 24 (ucast (d :: u8))
   = ucast a OR push_bit 8 (ucast b) OR push_bit 16 (ucast c) OR push_bit 24 (ucast d)"
proof -
  have c: "(ucast a OR push_bit 8 (ucast b) :: u32) + push_bit 16 (ucast c)
      = (ucast a OR push_bit 8 (ucast b)) OR push_bit 16 (ucast c)"
    by (rule add_or_disjoint, rule bit_word_eqI) (auto simp: bit_simps dest: bit_imp_le_length)
  have d: "((ucast a OR push_bit 8 (ucast b)) OR push_bit 16 (ucast c) :: u32)
      + push_bit 24 (ucast d)
      = ((ucast a OR push_bit 8 (ucast b)) OR push_bit 16 (ucast c)) OR push_bit 24 (ucast d)"
    by (rule add_or_disjoint, rule bit_word_eqI) (auto simp: bit_simps dest: bit_imp_le_length)
  show ?thesis unfolding plus_shift_or_16 c d by (simp add: ac_simps)
qed

lemma ucast_and_255: "(ucast ((w :: 'a::len word) AND 0xff) :: u8) = ucast w"
proof -
  have "(0xff :: 'a word) = mask 8" by (simp add: mask_eq_exp_minus_1)
  show ?thesis unfolding \<open>(0xff :: 'a word) = mask 8\<close>
    by (rule bit_word_eqI) (auto simp: bit_simps dest: bit_imp_le_length)
qed

lemma byte_of_ucast [simp]: "byte_of c = ucast c"
  by (simp add: byte_of_def ucast_and_255)

lemma ucast_sar: "n \<le> 24 \<Longrightarrow> (ucast (sar w n) :: u8) = ucast (drop_bit n w)"
  by (rule bit_word_eqI) (auto simp: bit_simps min_def)

lemma bit_bound: "bit (w :: 'a::len word) n \<Longrightarrow> unat w < 2 ^ k \<Longrightarrow> n < k"
proof (rule ccontr)
  assume bit: "bit w n" and less: "unat w < 2 ^ k" and "\<not> n < k"
  then have "bit (drop_bit k w) (n - k)" by (simp add: bit_drop_bit_eq)
  moreover have "unat (drop_bit k w) = 0"
    using less by (simp only: unat_drop_bit_eq [of k w] drop_bit_eq_div [of k "unat w"] div_less)
  ultimately show False by (simp add: unat_eq_zero)
qed

text \<open>The four little-endian bytes of a 32-bit value and the value of four bytes.\<close>

definition le32 :: "u32 \<Rightarrow> u8 list" where
  "le32 w = [ucast w, ucast (drop_bit 8 w), ucast (drop_bit 16 w), ucast (drop_bit 24 w)]"

definition of_le32 :: "u8 \<Rightarrow> u8 \<Rightarrow> u8 \<Rightarrow> u8 \<Rightarrow> u32" where
  "of_le32 a b c d = ucast a OR push_bit 8 (ucast b) OR push_bit 16 (ucast c)
     OR push_bit 24 (ucast d)"

lemma length_le32 [simp]: "length (le32 w) = 4"
  by (simp add: le32_def)

lemma of_le32_bytes [simp]:
  "of_le32 (ucast w) (ucast (drop_bit 8 w)) (ucast (drop_bit 16 w)) (ucast (drop_bit 24 w)) = w"
  unfolding of_le32_def
  apply (rule bit_word_eqI)
  subgoal for n
    by (cases "n < 8"; cases "n < 16"; cases "n < 24") (auto simp: bit_simps)
  done

definition of_le32_list :: "u8 list \<Rightarrow> u32" where
  "of_le32_list bs = of_le32 (bs ! 0) (bs ! 1) (bs ! 2) (bs ! 3)"

lemma of_le32_list_le32 [simp]: "of_le32_list (le32 w) = w"
  by (simp add: of_le32_list_def le32_def numeral_2_eq_2 numeral_3_eq_3)

lemma le32_inj: "le32 v = le32 w \<longleftrightarrow> v = w"
  by (metis of_le32_list_le32)

end
