(* ===== verification/Crc.thy ===== *)
theory Crc
  imports Prelude
begin

text \<open>
  The 16-bit checksum of \<open>engine/common/crc.c\<close>: the table-driven update over a run of
  bytes, the lower-casing variant used for case-insensitive hashing, and the digest.
  The table is proved to be the one that the polynomial \<open>0x1021\<close> generates, so the
  update is the bit-serial division that the file's comment promises.
\<close>

section \<open>The checksum\<close>

definition QCRC_INIT_VALUE :: u16 where "QCRC_INIT_VALUE = 0xffff"
definition QCRC_XOR_VALUE :: u16 where "QCRC_XOR_VALUE = 0x0000"

definition crctable :: "u16 list" where
  "crctable = [
    0x0000, 0x1021, 0x2042, 0x3063, 0x4084, 0x50a5, 0x60c6, 0x70e7,
    0x8108, 0x9129, 0xa14a, 0xb16b, 0xc18c, 0xd1ad, 0xe1ce, 0xf1ef,
    0x1231, 0x0210, 0x3273, 0x2252, 0x52b5, 0x4294, 0x72f7, 0x62d6,
    0x9339, 0x8318, 0xb37b, 0xa35a, 0xd3bd, 0xc39c, 0xf3ff, 0xe3de,
    0x2462, 0x3443, 0x0420, 0x1401, 0x64e6, 0x74c7, 0x44a4, 0x5485,
    0xa56a, 0xb54b, 0x8528, 0x9509, 0xe5ee, 0xf5cf, 0xc5ac, 0xd58d,
    0x3653, 0x2672, 0x1611, 0x0630, 0x76d7, 0x66f6, 0x5695, 0x46b4,
    0xb75b, 0xa77a, 0x9719, 0x8738, 0xf7df, 0xe7fe, 0xd79d, 0xc7bc,
    0x48c4, 0x58e5, 0x6886, 0x78a7, 0x0840, 0x1861, 0x2802, 0x3823,
    0xc9cc, 0xd9ed, 0xe98e, 0xf9af, 0x8948, 0x9969, 0xa90a, 0xb92b,
    0x5af5, 0x4ad4, 0x7ab7, 0x6a96, 0x1a71, 0x0a50, 0x3a33, 0x2a12,
    0xdbfd, 0xcbdc, 0xfbbf, 0xeb9e, 0x9b79, 0x8b58, 0xbb3b, 0xab1a,
    0x6ca6, 0x7c87, 0x4ce4, 0x5cc5, 0x2c22, 0x3c03, 0x0c60, 0x1c41,
    0xedae, 0xfd8f, 0xcdec, 0xddcd, 0xad2a, 0xbd0b, 0x8d68, 0x9d49,
    0x7e97, 0x6eb6, 0x5ed5, 0x4ef4, 0x3e13, 0x2e32, 0x1e51, 0x0e70,
    0xff9f, 0xefbe, 0xdfdd, 0xcffc, 0xbf1b, 0xaf3a, 0x9f59, 0x8f78,
    0x9188, 0x81a9, 0xb1ca, 0xa1eb, 0xd10c, 0xc12d, 0xf14e, 0xe16f,
    0x1080, 0x00a1, 0x30c2, 0x20e3, 0x5004, 0x4025, 0x7046, 0x6067,
    0x83b9, 0x9398, 0xa3fb, 0xb3da, 0xc33d, 0xd31c, 0xe37f, 0xf35e,
    0x02b1, 0x1290, 0x22f3, 0x32d2, 0x4235, 0x5214, 0x6277, 0x7256,
    0xb5ea, 0xa5cb, 0x95a8, 0x8589, 0xf56e, 0xe54f, 0xd52c, 0xc50d,
    0x34e2, 0x24c3, 0x14a0, 0x0481, 0x7466, 0x6447, 0x5424, 0x4405,
    0xa7db, 0xb7fa, 0x8799, 0x97b8, 0xe75f, 0xf77e, 0xc71d, 0xd73c,
    0x26d3, 0x36f2, 0x0691, 0x16b0, 0x6657, 0x7676, 0x4615, 0x5634,
    0xd94c, 0xc96d, 0xf90e, 0xe92f, 0x99c8, 0x89e9, 0xb98a, 0xa9ab,
    0x5844, 0x4865, 0x7806, 0x6827, 0x18c0, 0x08e1, 0x3882, 0x28a3,
    0xcb7d, 0xdb5c, 0xeb3f, 0xfb1e, 0x8bf9, 0x9bd8, 0xabbb, 0xbb9a,
    0x4a75, 0x5a54, 0x6a37, 0x7a16, 0x0af1, 0x1ad0, 0x2ab3, 0x3a92,
    0xfd2e, 0xed0f, 0xdd6c, 0xcd4d, 0xbdaa, 0xad8b, 0x9de8, 0x8dc9,
    0x7c26, 0x6c07, 0x5c64, 0x4c45, 0x3ca2, 0x2c83, 0x1ce0, 0x0cc1,
    0xef1f, 0xff3e, 0xcf5d, 0xdf7c, 0xaf9b, 0xbfba, 0x8fd9, 0x9ff8,
    0x6e17, 0x7e36, 0x4e55, 0x5e74, 0x2e93, 0x3eb2, 0x0ed1, 0x1ef0]"

definition CRC16_Init :: u16 where
  "CRC16_Init = QCRC_INIT_VALUE"

text \<open>One iteration of the loop: \<open>crc\<close> is promoted, shifted and cut back to 16 bits.\<close>

definition crc_index :: "u16 \<Rightarrow> u8 \<Rightarrow> nat" where
  "crc_index crc b = unat (drop_bit 8 crc XOR ucast b)"

definition crc_step :: "u16 \<Rightarrow> u8 \<Rightarrow> u16" where
  "crc_step crc b = (push_bit 8 crc AND 0xffff) XOR crctable ! crc_index crc b"

fun CRC16_Update :: "u16 \<Rightarrow> u8 list \<Rightarrow> u16" where
  "CRC16_Update crc [] = crc"
| "CRC16_Update crc (b # bs) = CRC16_Update (crc_step crc b) bs"

definition CRC16_Finish :: "u16 \<Rightarrow> u8 list" where
  "CRC16_Finish ctx = (let crc = ctx XOR QCRC_XOR_VALUE in
     [ucast (drop_bit 0 crc AND 0xff), ucast (drop_bit 8 crc AND 0xff)])"

text \<open>\<open>tolower\<close> of the C library in the C locale.\<close>

definition c_tolower :: "u8 \<Rightarrow> u8" where
  "c_tolower c = (if 65 \<le> c \<and> c \<le> 90 then c + 32 else c)"

fun CRC16_Update_Lower :: "u16 \<Rightarrow> u8 list \<Rightarrow> u16" where
  "CRC16_Update_Lower crc [] = crc"
| "CRC16_Update_Lower crc (b # bs) = CRC16_Update_Lower (crc_step crc (c_tolower b)) bs"

section \<open>The reference: polynomial division, one bit at a time\<close>

definition crc_bit :: "u16 \<Rightarrow> u16" where
  "crc_bit r = (if bit r 15 then push_bit 1 r XOR 0x1021 else push_bit 1 r)"

definition crc_byte_ref :: "u16 \<Rightarrow> u8 \<Rightarrow> u16" where
  "crc_byte_ref r b = (crc_bit ^^ 8) (r XOR push_bit 8 (ucast b))"

definition crc_ref :: "u16 \<Rightarrow> u8 list \<Rightarrow> u16" where
  "crc_ref r bs = foldl crc_byte_ref r bs"

section \<open>The table is the one of the polynomial\<close>

definition crc_table_entry :: "nat \<Rightarrow> u16" where
  "crc_table_entry i = (crc_bit ^^ 8) (push_bit 8 (word_of_nat i))"

lemma crc_table_entry_unfold:
  "crc_table_entry i = crc_bit (crc_bit (crc_bit (crc_bit (crc_bit (crc_bit (crc_bit (crc_bit
     (push_bit 8 (word_of_nat i)))))))))"
  by (simp add: crc_table_entry_def numeral_eq_Suc)

lemma upt_256: "[0..<256] = 0 # 1 # [2..<256]"
  by (simp add: upt_conv_Cons numeral_2_eq_2)

lemma crctable_generated: "map crc_table_entry [0..<256] = crctable"
  unfolding upt_256
  by (simp add: upt_rec_numeral crc_table_entry_unfold crc_bit_def crctable_def)

lemma length_crctable [simp]: "length crctable = 256"
  by (metis crctable_generated diff_zero length_map length_upt)

lemma crctable_nth: "i < 256 \<Longrightarrow> crctable ! i = crc_table_entry i"
  by (subst crctable_generated [symmetric]) simp

section \<open>Linearity and injectivity of the division\<close>

lemma crc_bit_xor: "crc_bit (x XOR y) = crc_bit x XOR crc_bit y"
  by (simp add: crc_bit_def push_bit_xor bit_xor_iff xor.assoc xor.left_commute xor.commute)

lemma crc_bits_xor: "(crc_bit ^^ n) (x XOR y) = (crc_bit ^^ n) x XOR (crc_bit ^^ n) y"
  by (induction n) (simp_all add: crc_bit_xor)

lemma crc_bit_zero [simp]: "crc_bit 0 = 0"
  by (simp add: crc_bit_def)

lemma crc_bits_zero [simp]: "(crc_bit ^^ n) 0 = 0"
  by (induction n) simp_all

lemma crc_bit_odd: "bit (push_bit 1 r XOR 0x1021 :: u16) 0"
  unfolding bit_xor_iff bit_push_bit_iff by simp

lemma crc_bit_eq_0D:
  assumes "crc_bit r = 0"
  shows "r = 0"
proof (cases "bit r 15")
  case True
  with assms have "push_bit 1 r XOR 0x1021 = 0"
    by (simp add: crc_bit_def)
  with crc_bit_odd [of r] show ?thesis by simp
next
  case False
  with assms have shifted: "push_bit 1 r = 0"
    by (simp add: crc_bit_def)
  show ?thesis
  proof (rule bit_word_eqI)
    fix n
    assume "n < LENGTH(16)"
    show "bit r n = bit (0 :: u16) n"
    proof (cases "n = 15")
      case True
      with False show ?thesis by simp
    next
      case False
      with \<open>n < LENGTH(16)\<close> have "bit r n = bit (push_bit 1 r) (Suc n)"
        unfolding bit_push_bit_iff by simp
      with shifted show ?thesis by simp
    qed
  qed
qed

lemma crc_bit_inj: "crc_bit x = crc_bit y \<longleftrightarrow> x = y"
  by (metis crc_bit_eq_0D crc_bit_xor xor_eq_0)

lemma crc_bits_inj: "(crc_bit ^^ n) x = (crc_bit ^^ n) y \<longleftrightarrow> x = y"
  by (induction n) (simp_all add: crc_bit_inj)

section \<open>The table step is eight bit steps\<close>

lemma crc_bits_low:
  assumes "n \<le> 8" "\<And>k. 8 \<le> k \<Longrightarrow> \<not> bit (x :: u16) k"
  shows "(crc_bit ^^ n) x = push_bit n x"
  using assms(1)
proof (induction n)
  case (Suc n)
  then have "\<not> bit (push_bit n x) 15"
    using assms(2) [of "15 - n"] by (simp add: bit_push_bit_iff)
  with Suc show ?case by (simp add: crc_bit_def push_bit_push_bit)
qed simp

lemma crc_split:
  "(crc :: u16) XOR push_bit 8 (ucast (b :: u8))
     = (crc AND 0xff) XOR push_bit 8 (drop_bit 8 crc XOR ucast b)"
  apply (rule bit_word_eqI)
  subgoal for n
    using bit_mask_iff [of 8 n, where ?'a = u16]
    by (cases "n < 8") (auto simp: bit_simps mask_eq_exp_minus_1)
  done

lemma crc_index_lt: "crc_index crc b < 256"
proof -
  have "drop_bit 8 crc XOR ucast b = take_bit 8 (drop_bit 8 crc XOR ucast b :: u16)"
    by (rule bit_word_eqI) (auto simp: bit_simps dest: bit_imp_le_length)
  then have "unat (drop_bit 8 crc XOR ucast b :: u16) < 2 ^ 8"
    by (metis take_bit_nat_less_exp unsigned_take_bit_eq)
  then show ?thesis by (simp add: crc_index_def)
qed

lemma crc_step_ref: "crc_step crc b = crc_byte_ref crc b"
proof -
  have low: "(crc_bit ^^ 8) (crc AND 0xff) = push_bit 8 crc"
  proof -
    have clear: "\<not> bit (crc AND 0xff) k" if "8 \<le> k" for k
      using that bit_mask_iff [of 8 k, where ?'a = u16]
      by (auto simp: bit_simps mask_eq_exp_minus_1)
    have "(crc_bit ^^ 8) (crc AND 0xff) = push_bit 8 (crc AND 0xff)"
      using clear by (rule crc_bits_low [OF order_refl])
    also have "\<dots> = push_bit 8 crc"
      apply (rule bit_word_eqI)
      subgoal for n
        using bit_mask_iff [of 8 "n - 8", where ?'a = u16]
        unfolding bit_push_bit_iff bit_and_iff by (auto simp: mask_eq_exp_minus_1)
      done
    finally show ?thesis .
  qed
  have "crctable ! crc_index crc b = (crc_bit ^^ 8) (push_bit 8 (drop_bit 8 crc XOR ucast b))"
    using crctable_nth [OF crc_index_lt, of crc b]
    by (simp add: crc_table_entry_def crc_index_def)
  moreover have "push_bit 8 crc AND 0xffff = push_bit 8 crc"
  proof -
    have "(0xffff :: u16) = -1" by simp
    then show ?thesis by (metis and.right_neutral)
  qed
  ultimately show ?thesis
    by (simp add: crc_step_def crc_byte_ref_def crc_split [of crc b] crc_bits_xor low)
qed

lemma CRC16_Update_append:
  "CRC16_Update crc (xs @ ys) = CRC16_Update (CRC16_Update crc xs) ys"
  by (induction xs arbitrary: crc) simp_all

lemma crc_step_inj_crc: "crc_step r b = crc_step s b \<longleftrightarrow> r = s"
proof -
  show ?thesis by (simp add: crc_step_ref crc_byte_ref_def crc_bits_inj xor_cancel_right)
qed

lemma ucast_high_byte: "(ucast (drop_bit 8 (push_bit 8 (ucast (c :: u8) :: u16))) :: u8) = c"
  by (rule bit_word_eqI) (simp add: bit_simps)

lemma crc_step_inj_byte: "crc_step r a = crc_step r b \<longleftrightarrow> a = b"
proof -
  have "r XOR push_bit 8 (ucast a) = r XOR push_bit 8 (ucast b)
      \<longleftrightarrow> push_bit 8 (ucast a :: u16) = push_bit 8 (ucast b)"
    by (rule xor_cancel_left)
  also have "\<dots> \<longleftrightarrow> a = b"
    by (metis ucast_high_byte)
  finally show ?thesis by (simp add: crc_step_ref crc_byte_ref_def crc_bits_inj)
qed

lemma CRC16_Update_inj: "CRC16_Update r bs = CRC16_Update s bs \<longleftrightarrow> r = s"
  by (induction bs arbitrary: r s) (simp_all add: crc_step_inj_crc)

section \<open>Properties\<close>

text \<open>C1. The table-driven update of \<open>CRC16_Update\<close> computes, for every start value and
  every run of bytes, the bit-serial division by the polynomial 0x1021 that the file's
  comment names (CCITT, non-reflected).\<close>

theorem crc16_update_is_division: "CRC16_Update crc bs = crc_ref crc bs"
  by (induction bs arbitrary: crc) (simp_all add: crc_ref_def crc_step_ref)

text \<open>C2. Corrupting any single byte of a message, to any other value, always changes the
  checksum (the digest included).\<close>

theorem crc16_detects_byte_change:
  "a \<noteq> b \<Longrightarrow> CRC16_Finish (CRC16_Update crc (xs @ a # ys))
     \<noteq> CRC16_Finish (CRC16_Update crc (xs @ b # ys))"
proof -
  assume "a \<noteq> b"
  then have ne: "CRC16_Update crc (xs @ a # ys) \<noteq> CRC16_Update crc (xs @ b # ys)"
    by (simp add: CRC16_Update_append CRC16_Update_inj crc_step_inj_byte)
  have "CRC16_Finish u \<noteq> CRC16_Finish v" if "u \<noteq> v" for u v
  proof
    assume "CRC16_Finish u = CRC16_Finish v"
    then have lo: "(ucast u :: u8) = ucast v"
      and hi: "(ucast (drop_bit 8 u) :: u8) = ucast (drop_bit 8 v)"
      by (simp_all add: CRC16_Finish_def QCRC_XOR_VALUE_def ucast_and_255)
    have "u = v"
    proof (rule bit_word_eqI)
      fix n
      assume n: "n < LENGTH(16)"
      have "bit (ucast u :: u8) n = bit (ucast v :: u8) n"
        "bit (ucast (drop_bit 8 u) :: u8) (n - 8) = bit (ucast (drop_bit 8 v) :: u8) (n - 8)"
        using lo hi by simp_all
      with n show "bit u n = bit v n"
        by (cases "n < 8") (auto simp: bit_simps)
    qed
    with that show False by simp
  qed
  with ne show ?thesis by blast
qed

theorem crc16_detects_byte_change_witness:
  "(1 :: u8) \<noteq> 2 \<and> CRC16_Finish (CRC16_Update CRC16_Init ([9] @ 1 # [7]))
     \<noteq> CRC16_Finish (CRC16_Update CRC16_Init ([9] @ 2 # [7]))"
  using crc16_detects_byte_change [of 1 2 CRC16_Init "[9]" "[7]"] by simp

end
