(* ===== verification/Sizebuf.thy ===== *)
theory Sizebuf
  imports Prelude
begin

text \<open>
  Message buffers, the writing half of the message I/O functions of
  \<open>engine/common/common.c\<close>: \<open>SZ_*\<close> and \<open>MSG_Write*\<close> over the \<open>sizebuf_t\<close> of
  \<open>engine/common/common.h\<close>.  Floats are passed as their bit patterns; the unsized
  coordinate and angle writers, whose argument is rounded in floating point, are not
  modelled.
\<close>

section \<open>State\<close>

record netprim =
  coordtype :: u8
  anglesize :: u8
  primflags :: u8

datatype sbpacking = SZ_BAD | SZ_RAWBYTES | SZ_RAWBITS | SZ_HUFFMAN

text \<open>\<open>data\<close> is the storage the pointer of the same name points at, all of it.\<close>

record sizebuf =
  allowoverflow :: bool
  overflowed :: bool
  data :: "u8 list"
  maxsize :: int
  cursize :: int
  packing :: sbpacking
  currentbit :: nat
  prim :: netprim

definition MAX_QWMSGLEN :: int where "MAX_QWMSGLEN = 1450"
definition MAX_OVERALLMSGLEN :: int where "MAX_OVERALLMSGLEN = 65536"
definition MAX_EDICTS :: u32 where "MAX_EDICTS = 0x3fffff"
definition ES_SOLID_BSP :: u32 where "ES_SOLID_BSP = 31"

section \<open>Reserving and filling space\<close>

definition SZ_Clear :: "sizebuf \<Rightarrow> sizebuf" where
  "SZ_Clear buf = buf\<lparr>cursize := 0, overflowed := False\<rparr>"

text \<open>The result is the offset of the reserved space in \<open>data\<close>.\<close>

definition SZ_GetSpace :: "sizebuf \<Rightarrow> int \<Rightarrow> (int \<times> sizebuf) res" where
  "SZ_GetSpace buf len =
     (if cursize buf + len > maxsize buf then
        (if \<not> allowoverflow buf then Inl (Sys_Error ''SZ_GetSpace'')
         else let buf1 = (SZ_Clear buf)\<lparr>overflowed := True\<rparr>
              in Inr (cursize buf1, buf1\<lparr>cursize := cursize buf1 + len\<rparr>))
      else Inr (cursize buf, buf\<lparr>cursize := cursize buf + len\<rparr>))"

text \<open>Storing bytes through a pointer into \<open>data\<close>.\<close>

definition sz_store :: "sizebuf \<Rightarrow> int \<Rightarrow> u8 list \<Rightarrow> sizebuf res" where
  "sz_store buf p bs = rbind (poke (data buf) p bs) (\<lambda>d. Inr (buf\<lparr>data := d\<rparr>))"

definition SZ_Write :: "sizebuf \<Rightarrow> u8 list \<Rightarrow> sizebuf res" where
  "SZ_Write buf bs =
     rbind (SZ_GetSpace buf (int (length bs))) (\<lambda>(p, buf1). sz_store buf1 p bs)"

text \<open>\<open>s\<close> is the text of a C string, without its terminator.\<close>

definition SZ_Print :: "sizebuf \<Rightarrow> u8 list \<Rightarrow> sizebuf res" where
  "SZ_Print buf s =
     (let len = int (length s) + 1 in
      rbind (if cursize buf = 0 then Inr True
             else rbind (peek (data buf) (cursize buf - 1)) (\<lambda>b. Inr (b \<noteq> 0)))
        (\<lambda>noterm.
          if noterm then rbind (SZ_GetSpace buf len) (\<lambda>(p, buf1). sz_store buf1 p (s @ [0]))
          else rbind (SZ_GetSpace buf (len - 1)) (\<lambda>(msg, buf1).
            let msg1 = (if msg = 0 then msg + 1 else msg)
            in sz_store buf1 (msg1 - 1) (s @ [0]))))"

section \<open>Writing values\<close>

definition MSG_WriteChar :: "sizebuf \<Rightarrow> u32 \<Rightarrow> sizebuf res" where
  "MSG_WriteChar sb c = rbind (SZ_GetSpace sb 1) (\<lambda>(buf, sb1). sz_store sb1 buf [ucast c])"

definition MSG_WriteByte :: "sizebuf \<Rightarrow> u32 \<Rightarrow> sizebuf res" where
  "MSG_WriteByte sb c = rbind (SZ_GetSpace sb 1) (\<lambda>(buf, sb1). sz_store sb1 buf [byte_of c])"

definition MSG_WriteShort :: "sizebuf \<Rightarrow> u32 \<Rightarrow> sizebuf res" where
  "MSG_WriteShort sb c = rbind (SZ_GetSpace sb 2)
     (\<lambda>(buf, sb1). sz_store sb1 buf [byte_of c, byte_of (sar c 8)])"

definition MSG_WriteLong :: "sizebuf \<Rightarrow> u32 \<Rightarrow> sizebuf res" where
  "MSG_WriteLong sb c = rbind (SZ_GetSpace sb 4)
     (\<lambda>(buf, sb1). sz_store sb1 buf
        [byte_of c, byte_of (sar c 8), byte_of (sar c 16), byte_of (sar c 24)])"

lemma drop_bit_7_less: "c \<noteq> 0 \<Longrightarrow> unat (drop_bit 7 (c :: u64)) < unat c"
proof -
  assume "c \<noteq> 0"
  then have "0 < unat c" by (simp add: unat_gt_0)
  then have "unat c div 128 < unat c" by simp
  then show ?thesis by (simp add: unsigned_drop_bit_eq drop_bit_eq_div unat_div)
qed

function MSG_WriteULEB128 :: "sizebuf \<Rightarrow> u64 \<Rightarrow> sizebuf res" where
  "MSG_WriteULEB128 sb c =
     (let b = ucast (c AND 0x7f) :: u8; c1 = drop_bit 7 c in
      if c1 = 0 then MSG_WriteByte sb (ucast b)
      else rbind (MSG_WriteByte sb (ucast (b OR 0x80))) (\<lambda>sb1. MSG_WriteULEB128 sb1 c1))"
  by pat_completeness auto
termination
proof (relation "measure (\<lambda>(sb, c). unat c)", goal_cases)
  case (2 sb c b c1 sb1)
  then have "c \<noteq> 0" by auto
  with 2 show ?case by (simp add: drop_bit_7_less)
qed simp

declare MSG_WriteULEB128.simps [simp del]

text \<open>\<open>(quint64_t)(-1-c)<<1)|1\<close> and \<open>c<<1\<close>: the sign moved into the low bit.\<close>

definition zigzag :: "u64 \<Rightarrow> u64" where
  "zigzag c = (if sint c < 0 then push_bit 1 (- 1 - c) OR 1 else push_bit 1 c)"

definition MSG_WriteSignedQEX :: "sizebuf \<Rightarrow> u64 \<Rightarrow> sizebuf res" where
  "MSG_WriteSignedQEX sb c = MSG_WriteULEB128 sb (zigzag c)"

text \<open>
  The loop of \<open>MSG_WriteUInt64\<close> that counts the extra bytes: \<open>l\<close> wraps at 64 bits and
  the loop stops at the latest when it has become 0.
\<close>

definition shifts_to_zero :: "u64 \<Rightarrow> nat" where
  "shifts_to_zero l = (LEAST n. push_bit (7 * n) l = 0)"

lemma shifts_to_zero_ex: "push_bit (7 * 10) (l :: u64) = 0"
  by (rule bit_word_eqI) (simp add: bit_push_bit_iff)

lemma shifts_to_zero_less:
  assumes "l \<noteq> 0"
  shows "shifts_to_zero (push_bit 7 l) < shifts_to_zero l"
proof -
  define n where "n = shifts_to_zero l"
  have n: "push_bit (7 * n) l = 0"
    unfolding n_def shifts_to_zero_def by (rule LeastI [of _ 10]) (rule shifts_to_zero_ex)
  with assms obtain m where m: "n = Suc m" by (cases n) auto
  then have "push_bit (7 * m) (push_bit 7 l) = 0"
    using n by (simp add: push_bit_push_bit add.commute)
  then have "shifts_to_zero (push_bit 7 l) \<le> m"
    unfolding shifts_to_zero_def by (rule Least_le)
  with m show ?thesis by (simp add: n_def)
qed

function uint64_extra :: "u64 \<Rightarrow> nat \<Rightarrow> u64 \<Rightarrow> nat" where
  "uint64_extra c b l = (if c > l - 1 then uint64_extra c (b + 1) (push_bit 7 l) else b)"
  by pat_completeness auto
termination
proof (relation "measure (\<lambda>(c, b, l). shifts_to_zero l)", goal_cases)
  case (2 c b l)
  have "l \<noteq> 0"
  proof
    assume "l = 0"
    with 2 have "(- 1 :: u64) < c" by simp
    then show False using word_not_simps(2) by auto
  qed
  then show ?case by (simp add: shifts_to_zero_less)
qed simp

declare uint64_extra.simps [simp del]

text \<open>
  The header byte is \<open>0xffu<<(8-b) | (c >> (b*8))\<close>.  From \<open>b = 8\<close> on the right shift is
  by at least the width of \<open>c\<close>, which C leaves undefined.
\<close>

fun uint64_tail :: "u64 \<Rightarrow> nat \<Rightarrow> u8 list" where
  "uint64_tail c 0 = []"
| "uint64_tail c (Suc b) = byte_of (drop_bit (b * 8) c) # uint64_tail c b"

definition MSG_WriteUInt64 :: "sizebuf \<Rightarrow> u64 \<Rightarrow> sizebuf res" where
  "MSG_WriteUInt64 sb c =
     (let b = uint64_extra c 0 128 in
      rbind (SZ_GetSpace sb (1 + int b)) (\<lambda>(buf, sb1).
        if b \<ge> 8 then Inl Undefined
        else sz_store sb1 buf
          ((ucast (ucast (push_bit (8 - b) (0xff :: u32)) OR drop_bit (b * 8) c) :: u8)
            # uint64_tail c b)))"

definition MSG_WriteInt64 :: "sizebuf \<Rightarrow> u64 \<Rightarrow> sizebuf res" where
  "MSG_WriteInt64 sb c = MSG_WriteUInt64 sb (zigzag c)"

text \<open>\<open>f\<close> is the float's bit pattern; the hosts modelled are little-endian.\<close>

definition MSG_WriteFloat :: "sizebuf \<Rightarrow> u32 \<Rightarrow> sizebuf res" where
  "MSG_WriteFloat sb f = SZ_Write sb (le32 f)"

definition MSG_WriteDouble :: "sizebuf \<Rightarrow> u64 \<Rightarrow> sizebuf res" where
  "MSG_WriteDouble sb c = rbind (SZ_GetSpace sb 8)
     (\<lambda>(buf, sb1). sz_store sb1 buf
        [byte_of (drop_bit 0 c), byte_of (drop_bit 8 c), byte_of (drop_bit 16 c),
         byte_of (drop_bit 24 c), byte_of (drop_bit 32 c), byte_of (drop_bit 40 c),
         byte_of (drop_bit 48 c), byte_of (drop_bit 56 c)])"

definition MSG_WriteString :: "sizebuf \<Rightarrow> u8 list option \<Rightarrow> sizebuf res" where
  "MSG_WriteString sb s =
     (case s of None \<Rightarrow> SZ_Write sb [0] | Some s \<Rightarrow> SZ_Write sb (s @ [0]))"

definition MSG_WriteSize16 :: "sizebuf \<Rightarrow> u32 \<Rightarrow> sizebuf res" where
  "MSG_WriteSize16 sb sz =
     (if sz = ES_SOLID_BSP then MSG_WriteShort sb ES_SOLID_BSP
      else if sz \<noteq> 0 then
        (let x = sz AND 255;
             zd = sar sz 8 AND 255;
             zu = (sar sz 16 AND 65535) - 32768
         in MSG_WriteShort sb
              (push_bit 0 (sar x 3) OR push_bit 5 (sar zd 3)
                OR push_bit 10 (sar (zu + 32) 3)))
      else MSG_WriteShort sb 0)"

definition MSG_WriteEntity :: "sizebuf \<Rightarrow> u32 \<Rightarrow> sizebuf res" where
  "MSG_WriteEntity sb entnum =
     (if entnum > MAX_EDICTS then Inl Host_EndGame
      else if entnum \<ge> 0x8000 then
        rbind (MSG_WriteShort sb (drop_bit 8 entnum OR 0x8000))
          (\<lambda>sb1. MSG_WriteByte sb1 (entnum AND 0xff))
      else MSG_WriteShort sb entnum)"

end
