(* ===== verification/Huff.thy ===== *)
theory Huff
  imports Sizebuf
begin

text \<open>
  The adaptive Huffman coder of \<open>engine/common/huff.c\<close>.  The C structure is an array of
  nodes and an array of node pointers with an intrusive free list through it; pointers
  into them are indices, so the pointer manipulation (tree swaps, the doubly linked rank
  list, the shared block leaders) is modelled step by step.
\<close>

section \<open>State\<close>

definition HMAX :: nat where "HMAX = 256"
definition NYT :: nat where "NYT = 256"
definition INTERNAL_NODE :: nat where "INTERNAL_NODE = 257"

text \<open>\<open>node_t\<close>; \<open>head\<close> points into \<open>nodePtrs\<close>, the other pointers into \<open>nodeList\<close>.\<close>

record node =
  left :: "nat option"
  right :: "nat option"
  parent :: "nat option"
  nextn :: "nat option"
  prevn :: "nat option"
  head :: "nat option"
  weight :: nat
  symbol :: nat

text \<open>
  An entry of \<open>nodePtrs\<close> is a node pointer while it is in use and a link of the free
  list (cast to a node pointer) after it has been freed.
\<close>

datatype slot = NullSlot | ToNode nat | ToSlot nat

record huff =
  blocNode :: nat
  blocPtrs :: nat
  tree :: "nat option"
  lhead :: "nat option"
  ltail :: "nat option"
  loc :: "nat option list"
  freelist :: "nat option"
  nodeList :: "node list"
  nodePtrs :: "slot list"

definition node0 :: node where
  "node0 = \<lparr>left = None, right = None, parent = None, nextn = None, prevn = None, head = None,
     weight = 0, symbol = 0\<rparr>"

text \<open>\<open>memset(&huff, 0, sizeof(huff_t))\<close>.\<close>

definition huff_zero :: huff where
  "huff_zero = \<lparr>blocNode = 0, blocPtrs = 0, tree = None, lhead = None, ltail = None,
     loc = replicate (HMAX + 1) None, freelist = None, nodeList = replicate 768 node0,
     nodePtrs = replicate 768 NullSlot\<rparr>"

section \<open>Pointer access\<close>

definition deref :: "huff \<Rightarrow> nat option \<Rightarrow> node res" where
  "deref h p = (case p of None \<Rightarrow> Inl NullDeref
     | Some i \<Rightarrow> if i < length (nodeList h) then Inr (nodeList h ! i) else Inl OutOfBounds)"

definition modify :: "huff \<Rightarrow> nat option \<Rightarrow> (node \<Rightarrow> node) \<Rightarrow> huff res" where
  "modify h p f = rbind (deref h p) (\<lambda>n. Inr (h\<lparr>nodeList := (nodeList h)[the p := f n]\<rparr>))"

definition get_slot :: "huff \<Rightarrow> nat option \<Rightarrow> slot res" where
  "get_slot h s = (case s of None \<Rightarrow> Inl NullDeref
     | Some i \<Rightarrow> if i < length (nodePtrs h) then Inr (nodePtrs h ! i) else Inl OutOfBounds)"

definition set_slot :: "huff \<Rightarrow> nat option \<Rightarrow> slot \<Rightarrow> huff res" where
  "set_slot h s v = rbind (get_slot h s) (\<lambda>_. Inr (h\<lparr>nodePtrs := (nodePtrs h)[the s := v]\<rparr>))"

text \<open>A slot read as a node pointer: a free-list link in its place is not one.\<close>

definition slot_node :: "slot \<Rightarrow> nat option res" where
  "slot_node v = (case v of NullSlot \<Rightarrow> Inr None | ToNode i \<Rightarrow> Inr (Some i)
     | ToSlot _ \<Rightarrow> Inl OutOfBounds)"

definition node_slot :: "nat option \<Rightarrow> slot" where
  "node_slot p = (case p of None \<Rightarrow> NullSlot | Some i \<Rightarrow> ToNode i)"

section \<open>Bit input and output\<close>

text \<open>The static \<open>bloc\<close> is passed along with the buffer.\<close>

definition huff_add_bit :: "bool \<Rightarrow> u8 list \<times> nat \<Rightarrow> (u8 list \<times> nat) res" where
  "huff_add_bit b io = (case io of (fout, bloc) \<Rightarrow>
     rbind (if bloc mod 8 = 0 then poke fout (int (bloc div 8)) [0] else Inr fout) (\<lambda>fout1.
     rbind (peek fout1 (int (bloc div 8))) (\<lambda>old.
     rbind (poke fout1 (int (bloc div 8)) [old OR push_bit (bloc mod 8) (of_bool b)]) (\<lambda>fout2.
     Inr (fout2, bloc + 1)))))"

definition huff_get_bit :: "u8 list \<Rightarrow> nat \<Rightarrow> (bool \<times> nat) res" where
  "huff_get_bit fin bloc = rbind (peek fin (int (bloc div 8))) (\<lambda>v.
     Inr (bit v (bloc mod 8), bloc + 1))"

section \<open>Slots of block leaders\<close>

definition huff_get_ppnode :: "huff \<Rightarrow> (nat \<times> huff) res" where
  "huff_get_ppnode h =
     (case freelist h of
        None \<Rightarrow> Inr (blocPtrs h, h\<lparr>blocPtrs := blocPtrs h + 1\<rparr>)
      | Some s \<Rightarrow> rbind (get_slot h (Some s)) (\<lambda>v.
          case v of NullSlot \<Rightarrow> Inr (s, h\<lparr>freelist := None\<rparr>)
          | ToSlot s' \<Rightarrow> Inr (s, h\<lparr>freelist := Some s'\<rparr>)
          | ToNode _ \<Rightarrow> Inl OutOfBounds))"

definition huff_free_ppnode :: "huff \<Rightarrow> nat option \<Rightarrow> huff res" where
  "huff_free_ppnode h ppnode =
     rbind (set_slot h ppnode (case freelist h of None \<Rightarrow> NullSlot | Some s \<Rightarrow> ToSlot s))
       (\<lambda>h1. Inr (h1\<lparr>freelist := ppnode\<rparr>))"

section \<open>Swapping\<close>

text \<open>Replace \<open>old\<close> by \<open>new\<close> below the parent \<open>par\<close>, or at the root.\<close>

definition huff_relink :: "huff \<Rightarrow> nat option \<Rightarrow> nat option \<Rightarrow> nat option \<Rightarrow> huff res" where
  "huff_relink h par old new =
     (if par \<noteq> None then
        rbind (deref h par) (\<lambda>pn.
          if left pn = old then modify h par (\<lambda>n. n\<lparr>left := new\<rparr>)
          else modify h par (\<lambda>n. n\<lparr>right := new\<rparr>))
      else Inr (h\<lparr>tree := new\<rparr>))"

definition huff_swap :: "huff \<Rightarrow> nat option \<Rightarrow> nat option \<Rightarrow> huff res" where
  "huff_swap h node1 node2 =
     rbind (deref h node1) (\<lambda>n1. rbind (deref h node2) (\<lambda>n2.
     let par1 = parent n1; par2 = parent n2 in
     rbind (huff_relink h par1 node1 node2) (\<lambda>h1.
     rbind (huff_relink h1 par2 node2 node1) (\<lambda>h2.
     rbind (modify h2 node1 (\<lambda>n. n\<lparr>parent := par2\<rparr>)) (\<lambda>h3.
     modify h3 node2 (\<lambda>n. n\<lparr>parent := par1\<rparr>))))))"

text \<open>One \<open>if (p->f) p->f->g = p;\<close> of the list surgery.\<close>

definition link_back :: "huff \<Rightarrow> nat option \<Rightarrow> (node \<Rightarrow> nat option)
    \<Rightarrow> (nat option \<Rightarrow> node \<Rightarrow> node) \<Rightarrow> huff res" where
  "link_back h p f setg = rbind (deref h p) (\<lambda>n.
     if f n \<noteq> None then modify h (f n) (setg p) else Inr h)"

definition huff_swaplist :: "huff \<Rightarrow> nat option \<Rightarrow> nat option \<Rightarrow> huff res" where
  "huff_swaplist h node1 node2 =
     rbind (deref h node1) (\<lambda>n1. rbind (deref h node2) (\<lambda>n2.
     rbind (modify h node1 (\<lambda>n. n\<lparr>nextn := nextn n2\<rparr>)) (\<lambda>h.
     rbind (modify h node2 (\<lambda>n. n\<lparr>nextn := nextn n1\<rparr>)) (\<lambda>h.
     rbind (deref h node1) (\<lambda>n1. rbind (deref h node2) (\<lambda>n2.
     rbind (modify h node1 (\<lambda>n. n\<lparr>prevn := prevn n2\<rparr>)) (\<lambda>h.
     rbind (modify h node2 (\<lambda>n. n\<lparr>prevn := prevn n1\<rparr>)) (\<lambda>h.
     rbind (deref h node1) (\<lambda>m1.
     rbind (if nextn m1 = node1 then modify h node1 (\<lambda>n. n\<lparr>nextn := node2\<rparr>) else Inr h) (\<lambda>h.
     rbind (deref h node2) (\<lambda>m2.
     rbind (if nextn m2 = node2 then modify h node2 (\<lambda>n. n\<lparr>nextn := node1\<rparr>) else Inr h) (\<lambda>h.
     rbind (link_back h node1 nextn (\<lambda>p n. n\<lparr>prevn := p\<rparr>)) (\<lambda>h.
     rbind (link_back h node2 nextn (\<lambda>p n. n\<lparr>prevn := p\<rparr>)) (\<lambda>h.
     rbind (link_back h node1 prevn (\<lambda>p n. n\<lparr>nextn := p\<rparr>)) (\<lambda>h.
     link_back h node2 prevn (\<lambda>p n. n\<lparr>nextn := p\<rparr>))))))))))))))))"

section \<open>Counting a symbol\<close>

text \<open>
  The four parts of \<open>huff_increment\<close> before and after its recursive call on the parent.
\<close>

definition incr_promote :: "huff \<Rightarrow> nat option \<Rightarrow> huff res" where
  "incr_promote h node =
     rbind (deref h node) (\<lambda>n.
     rbind (if nextn n = None then Inr False
            else rbind (deref h (nextn n)) (\<lambda>nx. Inr (weight nx = weight n))) (\<lambda>same.
     if same then
       rbind (get_slot h (head n)) (\<lambda>v. rbind (slot_node v) (\<lambda>lnode.
       rbind (if lnode \<noteq> parent n then huff_swap h lnode node else Inr h) (\<lambda>h1.
       huff_swaplist h1 lnode node)))
     else Inr h))"

definition incr_leave_block :: "huff \<Rightarrow> nat option \<Rightarrow> huff res" where
  "incr_leave_block h node =
     rbind (deref h node) (\<lambda>n.
     rbind (if prevn n = None then Inr False
            else rbind (deref h (prevn n)) (\<lambda>pv. Inr (weight pv = weight n))) (\<lambda>same.
     if same then set_slot h (head n) (node_slot (prevn n))
     else rbind (set_slot h (head n) NullSlot) (\<lambda>h1. huff_free_ppnode h1 (head n))))"

definition incr_join_block :: "huff \<Rightarrow> nat option \<Rightarrow> huff res" where
  "incr_join_block h node =
     rbind (modify h node (\<lambda>n. n\<lparr>weight := weight n + 1\<rparr>)) (\<lambda>h.
     rbind (deref h node) (\<lambda>n.
     rbind (if nextn n = None then Inr None
            else rbind (deref h (nextn n)) (\<lambda>nx.
              Inr (if weight nx = weight n then Some (head nx) else None))) (\<lambda>hd.
     case hd of
       Some hp \<Rightarrow> modify h node (\<lambda>n. n\<lparr>head := hp\<rparr>)
     | None \<Rightarrow> rbind (huff_get_ppnode h) (\<lambda>(s, h1).
         rbind (modify h1 node (\<lambda>n. n\<lparr>head := Some s\<rparr>)) (\<lambda>h2.
         set_slot h2 (Some s) (node_slot node))))))"

definition incr_after_parent :: "huff \<Rightarrow> nat option \<Rightarrow> huff res" where
  "incr_after_parent h node =
     rbind (deref h node) (\<lambda>n.
     if prevn n = parent n then
       rbind (huff_swaplist h node (parent n)) (\<lambda>h1.
       rbind (deref h1 node) (\<lambda>n1.
       rbind (get_slot h1 (head n1)) (\<lambda>v.
       if v = node_slot node then set_slot h1 (head n1) (node_slot (parent n1)) else Inr h1)))
     else Inr h)"

text \<open>The recursion climbs the parent pointers; the fuel bounds the climb.\<close>

fun huff_increment :: "nat \<Rightarrow> huff \<Rightarrow> nat option \<Rightarrow> huff res" where
  "huff_increment fuel h None = Inr h"
| "huff_increment 0 h (Some i) = Inl OutOfFuel"
| "huff_increment (Suc fuel) h (Some i) =
     rbind (incr_promote h (Some i)) (\<lambda>h.
     rbind (incr_leave_block h (Some i)) (\<lambda>h.
     rbind (incr_join_block h (Some i)) (\<lambda>h.
     rbind (deref h (Some i)) (\<lambda>n.
     if parent n \<noteq> None then
       rbind (huff_increment fuel h (parent n)) (\<lambda>h. incr_after_parent h (Some i))
     else Inr h))))"

text \<open>
  \<open>Huff_addRef\<close>, first transmission: two nodes are taken from the array, linked behind
  \<open>lhead\<close> in the rank list (\<open>add_rank\<close>, once for each) and put in the place of the NYT
  node in the tree.
\<close>

definition add_rank :: "huff \<Rightarrow> nat option \<Rightarrow> nat option \<Rightarrow> huff res" where
  "add_rank h new leader =
     rbind (deref h (lhead h)) (\<lambda>lh.
     rbind (modify h new (\<lambda>n. n\<lparr>nextn := nextn lh\<rparr>)) (\<lambda>h.
     rbind (if nextn lh \<noteq> None then
         rbind (modify h (nextn lh) (\<lambda>n. n\<lparr>prevn := new\<rparr>)) (\<lambda>h.
         rbind (deref h (nextn lh)) (\<lambda>nx.
         if weight nx = 1 then modify h new (\<lambda>n. n\<lparr>head := head nx\<rparr>)
         else rbind (huff_get_ppnode h) (\<lambda>(s, h).
           rbind (modify h new (\<lambda>n. n\<lparr>head := Some s\<rparr>)) (\<lambda>h.
           set_slot h (Some s) (node_slot leader)))))
       else rbind (huff_get_ppnode h) (\<lambda>(s, h).
         rbind (modify h new (\<lambda>n. n\<lparr>head := Some s\<rparr>)) (\<lambda>h.
         set_slot h (Some s) (node_slot new)))) (\<lambda>h.
     rbind (modify h (lhead h) (\<lambda>n. n\<lparr>nextn := new\<rparr>)) (\<lambda>h.
     modify h new (\<lambda>n. n\<lparr>prevn := lhead h\<rparr>)))))"

definition Huff_addRef_new :: "nat \<Rightarrow> huff \<Rightarrow> nat \<Rightarrow> huff res" where
  "Huff_addRef_new fuel h ch =
     (let tnode = Some (blocNode h); tnode2 = Some (blocNode h + 1) in
      rbind (Inr (h\<lparr>blocNode := blocNode h + 2\<rparr>)) (\<lambda>h.
      rbind (modify h tnode2 (\<lambda>n. n\<lparr>symbol := INTERNAL_NODE, weight := 1\<rparr>)) (\<lambda>h.
      rbind (add_rank h tnode2 tnode2) (\<lambda>h.
      rbind (modify h tnode (\<lambda>n. n\<lparr>symbol := ch, weight := 1\<rparr>)) (\<lambda>h.
      rbind (add_rank h tnode tnode2) (\<lambda>h.
      rbind (modify h tnode (\<lambda>n. n\<lparr>left := None, right := None\<rparr>)) (\<lambda>h.
      rbind (deref h (lhead h)) (\<lambda>lh.
      rbind (huff_relink h (parent lh) (lhead h) tnode2) (\<lambda>h.
      rbind (modify h tnode2 (\<lambda>n. n\<lparr>right := tnode, left := lhead h\<rparr>)) (\<lambda>h.
      rbind (deref h (lhead h)) (\<lambda>lh.
      rbind (modify h tnode2 (\<lambda>n. n\<lparr>parent := parent lh\<rparr>)) (\<lambda>h.
      rbind (modify h tnode (\<lambda>n. n\<lparr>parent := tnode2\<rparr>)) (\<lambda>h.
      rbind (modify h (lhead h) (\<lambda>n. n\<lparr>parent := tnode2\<rparr>)) (\<lambda>h.
      rbind (if ch < length (loc h) then Inr (h\<lparr>loc := (loc h)[ch := tnode]\<rparr>)
             else Inl OutOfBounds) (\<lambda>h.
      rbind (deref h tnode2) (\<lambda>n2.
      huff_increment fuel h (parent n2)))))))))))))))))"

definition get_loc :: "huff \<Rightarrow> nat \<Rightarrow> nat option res" where
  "get_loc h ch = (if ch < length (loc h) then Inr (loc h ! ch) else Inl OutOfBounds)"

definition Huff_addRef :: "huff \<Rightarrow> nat \<Rightarrow> huff res" where
  "Huff_addRef h ch = rbind (get_loc h ch) (\<lambda>p.
     if p = None then Huff_addRef_new (length (nodeList h)) h ch
     else huff_increment (length (nodeList h)) h p)"

section \<open>Receiving a symbol\<close>

text \<open>
  The loop shared by \<open>Huff_Receive\<close> and \<open>Huff_offsetReceive\<close>.  Each turn consumes a bit of
  the input object, so it ends at the latest with the object.
\<close>

lemma huff_get_bit_less:
  "huff_get_bit fin bloc = Inr (b, bloc') \<Longrightarrow>
     bloc' = Suc bloc \<and> bloc < 8 * length fin"
  by (auto simp: huff_get_bit_def peek_def rbind_eq_Inr split: if_splits)

function huff_walk :: "huff \<Rightarrow> nat option \<Rightarrow> u8 list \<Rightarrow> nat \<Rightarrow> (nat option \<times> nat) res" where
  "huff_walk h node fin bloc =
     (case node of
        None \<Rightarrow> Inr (None, bloc)
      | Some i \<Rightarrow> rbind (deref h (Some i)) (\<lambda>n.
          if symbol n = INTERNAL_NODE then
            rbind (huff_get_bit fin bloc) (\<lambda>x.
              huff_walk h (if fst x then right n else left n) fin (snd x))
          else Inr (Some (symbol n), bloc)))"
  by pat_completeness auto
termination
proof (relation "measure (\<lambda>(h, node, fin, bloc). 8 * length fin - bloc)", goal_cases)
  case (2 h node fin bloc i n x)
  then obtain b bloc' where "huff_get_bit fin bloc = Inr (b, bloc')" and "x = (b, bloc')"
    by (metis prod.exhaust)
  with huff_get_bit_less show ?case by fastforce
qed simp

declare huff_walk.simps [simp del]

text \<open>\<open>Huff_Receive\<close>: without a node the caller's \<open>ch\<close> keeps its value.\<close>

definition Huff_Receive :: "huff \<Rightarrow> nat option \<Rightarrow> nat \<Rightarrow> u8 list \<Rightarrow> nat \<Rightarrow> (nat \<times> nat) res" where
  "Huff_Receive h node ch fin bloc =
     rbind (huff_walk h node fin bloc) (\<lambda>(s, bloc1).
       Inr (case s of None \<Rightarrow> ch | Some c \<Rightarrow> c, bloc1))"

definition Huff_offsetReceive ::
    "huff \<Rightarrow> nat option \<Rightarrow> u8 list \<Rightarrow> nat \<Rightarrow> (nat \<times> nat) res" where
  "Huff_offsetReceive h node fin offset =
     rbind (huff_walk h node fin offset) (\<lambda>(s, bloc).
       Inr (case s of None \<Rightarrow> (0, offset) | Some c \<Rightarrow> (c, bloc)))"

section \<open>Sending a symbol\<close>

fun huff_send ::
    "nat \<Rightarrow> huff \<Rightarrow> nat option \<Rightarrow> nat option \<Rightarrow> u8 list \<times> nat \<Rightarrow> (u8 list \<times> nat) res" where
  "huff_send 0 h node child io = Inl OutOfFuel"
| "huff_send (Suc fuel) h node child io =
     rbind (deref h node) (\<lambda>n.
     rbind (if parent n \<noteq> None then huff_send fuel h (parent n) node io else Inr io) (\<lambda>io.
     if child \<noteq> None then huff_add_bit (right n = child) io else Inr io))"

definition send_fuel :: "huff \<Rightarrow> nat" where
  "send_fuel h = Suc (length (nodeList h))"

fun huff_send_bits :: "nat list \<Rightarrow> nat \<Rightarrow> u8 list \<times> nat \<Rightarrow> (u8 list \<times> nat) res" where
  "huff_send_bits [] ch io = Inr io"
| "huff_send_bits (i # is) ch io =
     rbind (huff_add_bit (bit ch i) io) (\<lambda>io. huff_send_bits is ch io)"

text \<open>
  \<open>Huff_transmit\<close>: a symbol without a node is the NYT symbol followed by its eight bits.
  (The C recursion on a NYT symbol that has no node itself would not end.)
\<close>

definition Huff_transmit :: "huff \<Rightarrow> nat \<Rightarrow> u8 list \<times> nat \<Rightarrow> (u8 list \<times> nat) res" where
  "Huff_transmit h ch io =
     rbind (get_loc h ch) (\<lambda>p.
     if p = None then
       rbind (get_loc h NYT) (\<lambda>q.
       rbind (if q = None then Inl OutOfFuel else huff_send (send_fuel h) h q None io) (\<lambda>io.
       huff_send_bits [7, 6, 5, 4, 3, 2, 1, 0] ch io))
     else huff_send (send_fuel h) h p None io)"

definition Huff_offsetTransmit :: "huff \<Rightarrow> nat \<Rightarrow> u8 list \<Rightarrow> nat \<Rightarrow> (u8 list \<times> nat) res" where
  "Huff_offsetTransmit h ch fout offset =
     rbind (get_loc h ch) (\<lambda>p. huff_send (send_fuel h) h p None (fout, offset))"

section \<open>Packets coded with a tree that grows from nothing\<close>

text \<open>The tree of one NYT node; \<open>ltail\<close> is only set on the decoding side.\<close>

definition huff_start :: "bool \<Rightarrow> huff" where
  "huff_start tail =
     huff_zero\<lparr>blocNode := 1, tree := Some 0, lhead := Some 0,
       ltail := (if tail then Some 0 else None),
       loc := (loc huff_zero)[NYT := Some 0],
       nodeList := (nodeList huff_zero)[0 := node0\<lparr>symbol := NYT, weight := 0, nextn := None,
         prevn := None, parent := None, left := None, right := None\<rparr>]\<rparr>"

fun huff_read_bits :: "nat \<Rightarrow> nat \<Rightarrow> u8 list \<Rightarrow> nat \<Rightarrow> (nat \<times> nat) res" where
  "huff_read_bits 0 ch fin bloc = Inr (ch, bloc)"
| "huff_read_bits (Suc k) ch fin bloc = rbind (huff_get_bit fin bloc) (\<lambda>(b, bloc1).
     huff_read_bits k (2 * ch + of_bool b) fin bloc1)"

fun decompress_loop ::
    "nat \<Rightarrow> huff \<Rightarrow> u8 list \<Rightarrow> int \<Rightarrow> nat \<Rightarrow> int \<Rightarrow> u8 list \<Rightarrow> u8 list res" where
  "decompress_loop 0 h buffer sz bloc j seq = Inr seq"
| "decompress_loop (Suc k) h buffer sz bloc j seq =
     (if int (bloc div 8) > sz then poke seq j [0]
      else rbind (Huff_Receive h (tree h) 0 buffer bloc) (\<lambda>(ch, bloc).
        rbind (if ch = NYT then huff_read_bits 8 0 buffer bloc else Inr (ch, bloc)) (\<lambda>(ch, bloc).
        rbind (poke seq j [word_of_nat ch]) (\<lambda>seq.
        rbind (Huff_addRef h (unat (word_of_nat ch :: u8))) (\<lambda>h.
        decompress_loop k h buffer sz bloc (j + 1) seq)))))"

text \<open>\<open>seq0\<close> is what the uninitialised local array holds.\<close>

definition Huff_Decompress :: "u8 list \<Rightarrow> sizebuf \<Rightarrow> int \<Rightarrow> sizebuf res" where
  "Huff_Decompress seq0 mbuf offset =
     (let sz = cursize mbuf - offset; buffer = drop (nat offset) (data mbuf) in
      if sz \<le> 0 then Inr mbuf
      else rbind (peek buffer 0) (\<lambda>b0. rbind (peek buffer 1) (\<lambda>b1.
        let cch0 = uint b0 * 256 + uint b1;
            cch = (if cch0 > maxsize mbuf - offset then maxsize mbuf - offset else cch0)
        in rbind (decompress_loop (nat cch) (huff_start True) buffer sz 16 0 seq0) (\<lambda>seq.
           rbind (slice seq 0 cch) (\<lambda>out.
           sz_store (mbuf\<lparr>cursize := cch + offset\<rparr>) offset out)))))"

fun compress_loop :: "huff \<Rightarrow> u8 list \<Rightarrow> u8 list \<times> nat \<Rightarrow> (u8 list \<times> nat) res" where
  "compress_loop h [] io = Inr io"
| "compress_loop h (c # cs) io =
     rbind (Huff_transmit h (unat c) io) (\<lambda>io.
     rbind (Huff_addRef h (unat c)) (\<lambda>h. compress_loop h cs io))"

definition Huff_Compress :: "u8 list \<Rightarrow> sizebuf \<Rightarrow> int \<Rightarrow> sizebuf res" where
  "Huff_Compress seq0 mbuf offset =
     (let sz = cursize mbuf - offset in
      if sz \<le> 0 then Inr mbuf
      else rbind (slice (data mbuf) offset sz) (\<lambda>buffer.
        rbind (poke seq0 0 [word_of_int (sz div 256), word_of_int sz]) (\<lambda>seq.
        rbind (compress_loop (huff_start False) buffer (seq, 16)) (\<lambda>(seq, bloc).
        let n = int ((bloc + 8) div 8) in
        rbind (slice seq 0 n) (\<lambda>out.
        sz_store (mbuf\<lparr>cursize := n + offset\<rparr>) offset out)))))"

definition Huff_DecryptPacket :: "u8 list \<Rightarrow> sizebuf \<Rightarrow> int \<Rightarrow> sizebuf res" where
  "Huff_DecryptPacket seq0 msg offset = Huff_Decompress seq0 msg offset"

definition Huff_EncryptPacket :: "u8 list \<Rightarrow> sizebuf \<Rightarrow> int \<Rightarrow> sizebuf res" where
  "Huff_EncryptPacket seq0 msg offset = Huff_Compress seq0 msg offset"

section \<open>Packets coded with the fixed tree\<close>

record huffman =
  counts :: "nat list"
  crc :: u32
  built :: bool
  compressor :: huff
  decompressor :: huff

definition q3huff_counts :: "nat list" where
  "q3huff_counts = [
    0x3D1CB, 0x0A0E9, 0x01894, 0x01BC2, 0x00E92, 0x00EA6, 0x017DE, 0x05AF3,
    0x08225, 0x01B26, 0x01E9E, 0x025F2, 0x02429, 0x0436B, 0x00F6D, 0x006F2,
    0x02060, 0x00644, 0x00636, 0x0067F, 0x0044C, 0x004BD, 0x004D6, 0x0046E,
    0x006D5, 0x00423, 0x004DE, 0x0047D, 0x004F9, 0x01186, 0x00AF5, 0x00D90,
    0x0553B, 0x00487, 0x00686, 0x0042A, 0x00413, 0x003F4, 0x0041D, 0x0042E,
    0x006BE, 0x00378, 0x0049C, 0x00352, 0x003C0, 0x0030C, 0x006D8, 0x00CE0,
    0x02986, 0x011A2, 0x016F9, 0x00A7D, 0x0122A, 0x00EFD, 0x0082D, 0x0074B,
    0x00A18, 0x0079D, 0x007B4, 0x003AC, 0x0046E, 0x006FC, 0x00686, 0x004B6,
    0x01657, 0x017F0, 0x01C36, 0x019FE, 0x00E7E, 0x00ED3, 0x005D4, 0x005F4,
    0x008A7, 0x00474, 0x0054B, 0x003CB, 0x00884, 0x004E0, 0x00530, 0x004AB,
    0x006EA, 0x00436, 0x004F0, 0x004F2, 0x00490, 0x003C5, 0x00483, 0x004A2,
    0x00543, 0x004CC, 0x005F9, 0x00640, 0x00A39, 0x00800, 0x009F2, 0x00CCB,
    0x0096A, 0x00E01, 0x009C8, 0x00AF0, 0x00A73, 0x01802, 0x00E4F, 0x00B18,
    0x037AD, 0x00C5C, 0x008AD, 0x00697, 0x00C88, 0x00AB3, 0x00DB8, 0x012BC,
    0x00FFB, 0x00DBB, 0x014A8, 0x00FB0, 0x01F01, 0x0178F, 0x014F0, 0x00F54,
    0x0131C, 0x00E9F, 0x011D6, 0x012C7, 0x016DC, 0x01900, 0x01851, 0x02063,
    0x05ACB, 0x01E9E, 0x01BA1, 0x022E7, 0x0153D, 0x01183, 0x00E39, 0x01488,
    0x014C0, 0x014D0, 0x014FA, 0x00DA4, 0x0099A, 0x0069E, 0x0071D, 0x00849,
    0x0077C, 0x0047D, 0x005EC, 0x00557, 0x004D4, 0x00405, 0x004EA, 0x00450,
    0x004DD, 0x003EE, 0x0047D, 0x00401, 0x004D9, 0x003B8, 0x00507, 0x003E5,
    0x006B1, 0x003F1, 0x004A3, 0x0036F, 0x0044B, 0x003A1, 0x00436, 0x003B7,
    0x00678, 0x003A2, 0x00481, 0x00406, 0x004EE, 0x00426, 0x004BE, 0x00424,
    0x00655, 0x003A2, 0x00452, 0x00390, 0x0040A, 0x0037C, 0x00486, 0x003DE,
    0x00497, 0x00352, 0x00461, 0x00387, 0x0043F, 0x00398, 0x00478, 0x00420,
    0x00D86, 0x008C0, 0x0112D, 0x02F68, 0x01E4E, 0x00541, 0x0051B, 0x00CCE,
    0x0079E, 0x00376, 0x003FF, 0x00458, 0x00435, 0x00412, 0x00425, 0x0042F,
    0x005CC, 0x003E9, 0x00448, 0x00393, 0x0041C, 0x003E3, 0x0042E, 0x0036C,
    0x00457, 0x00353, 0x00423, 0x00325, 0x00458, 0x0039B, 0x0044F, 0x00331,
    0x0076B, 0x00750, 0x003D0, 0x00349, 0x00467, 0x003BC, 0x00487, 0x003B6,
    0x01E6F, 0x003BA, 0x00509, 0x003A5, 0x00467, 0x00C87, 0x003FC, 0x0039F,
    0x0054B, 0x00300, 0x00410, 0x002E9, 0x003B8, 0x00325, 0x00431, 0x002E4,
    0x003F5, 0x00325, 0x003F0, 0x0031C, 0x003E4, 0x00421, 0x02CC1, 0x034C0]"

definition q3huff_initial :: huffman where
  "q3huff_initial = \<lparr>counts = q3huff_counts, crc = 0x286f2e8d, built = False,
     compressor = huff_zero, decompressor = huff_zero\<rparr>"

fun add_refs :: "nat \<Rightarrow> nat \<Rightarrow> huff \<times> huff \<Rightarrow> (huff \<times> huff) res" where
  "add_refs 0 i cd = Inr cd"
| "add_refs (Suc j) i cd =
     rbind (Huff_addRef (fst cd) i) (\<lambda>c. rbind (Huff_addRef (snd cd) i) (\<lambda>d.
     add_refs j i (c, d)))"

fun init_counts :: "nat list \<Rightarrow> nat \<Rightarrow> huff \<times> huff \<Rightarrow> (huff \<times> huff) res" where
  "init_counts [] i cd = Inr cd"
| "init_counts (n # ns) i cd = rbind (add_refs n i cd) (\<lambda>cd. init_counts ns (i + 1) cd)"

definition Huff_Init :: "huffman \<Rightarrow> huffman res" where
  "Huff_Init hf = rbind (init_counts (counts hf) 0 (huff_start False, huff_start True))
     (\<lambda>(c, d). Inr (hf\<lparr>compressor := c, decompressor := d\<rparr>))"

definition Huff_PreferedCompressionCRC :: "bool \<Rightarrow> huffman \<Rightarrow> u32" where
  "Huff_PreferedCompressionCRC net_compress q3huff = (if \<not> net_compress then 0 else crc q3huff)"

text \<open>The result says whether there is a table for \<open>c\<close>, and the table's new state.\<close>

definition Huff_CompressionCRC :: "u32 \<Rightarrow> huffman \<Rightarrow> (bool \<times> huffman) res" where
  "Huff_CompressionCRC c q3huff =
     (let found = (c = crc q3huff) in
      if found \<and> \<not> built q3huff then rbind (Huff_Init q3huff) (\<lambda>q. Inr (True, q))
      else Inr (found, q3huff))"

definition Huff_GetByte :: "huffman \<Rightarrow> u8 list \<Rightarrow> nat \<Rightarrow> (nat \<times> nat) res" where
  "Huff_GetByte q3huff buffer count =
     Huff_offsetReceive (decompressor q3huff) (tree (decompressor q3huff)) buffer count"

definition Huff_EmitByte :: "huffman \<Rightarrow> nat \<Rightarrow> u8 list \<Rightarrow> nat \<Rightarrow> (u8 list \<times> nat) res" where
  "Huff_EmitByte q3huff ch buffer count = Huff_offsetTransmit (compressor q3huff) ch buffer count"

text \<open>
  The loop of \<open>Huff_CompressPacket\<close>: \<open>None\<close> is the "Huffman overflow" exit.  \<open>outLen\<close>
  counts bits, \<open>inLen\<close> bytes.
\<close>

fun compress_packet_loop ::
    "huff \<Rightarrow> int \<Rightarrow> u8 list \<Rightarrow> u8 list \<Rightarrow> nat \<Rightarrow> (u8 list \<times> nat) option res" where
  "compress_packet_loop h inLen [] buffer outLen = Inr (Some (buffer, outLen))"
| "compress_packet_loop h inLen (c # cs) buffer outLen =
     rbind (Huff_offsetTransmit h (unat c) buffer outLen) (\<lambda>(buffer, outLen).
     if int outLen > inLen then Inr (Some (buffer, outLen))
     else if int outLen > MAX_OVERALLMSGLEN - 64 then Inr None
     else compress_packet_loop h inLen cs buffer outLen)"

definition Huff_CompressPacket :: "u8 list \<Rightarrow> huffman \<Rightarrow> sizebuf \<Rightarrow> int \<Rightarrow> sizebuf res" where
  "Huff_CompressPacket buffer0 hf msg offset =
     (let inLen = cursize msg - offset in
      if inLen \<le> 0 \<or> inLen \<ge> MAX_OVERALLMSGLEN then Inr msg
      else rbind (slice (data msg) offset inLen) (\<lambda>dat.
        rbind (compress_packet_loop (compressor hf) inLen dat buffer0 0) (\<lambda>r.
        case r of
          None \<Rightarrow> rbind (sz_store msg offset [0x80]) (\<lambda>msg.
            Inr (msg\<lparr>cursize := offset + 1\<rparr>))
        | Some (buffer, outLen) \<Rightarrow>
            if int outLen > inLen then
              rbind (sz_store msg (offset + 1) dat) (\<lambda>msg.
              rbind (sz_store msg offset [0x80]) (\<lambda>msg.
              Inr (msg\<lparr>cursize := cursize msg + 1\<rparr>)))
            else
              rbind (sz_store (msg\<lparr>cursize := offset + int outLen\<rparr>) offset
                [word_of_int (int outLen * 8 - int outLen)]) (\<lambda>msg.
              let msg = msg\<lparr>cursize := cursize msg + 1\<rparr> in
              if cursize msg > maxsize msg then Inl (Sys_Error ''Compression became too large'')
              else rbind (slice buffer 0 (int outLen)) (\<lambda>out.
                sz_store msg (offset + 1) out)))))"

text \<open>The decoding loop stops with an error at \<open>MAX_OVERALLMSGLEN\<close> symbols.\<close>

function decompress_packet_loop ::
    "huff \<Rightarrow> u8 list \<Rightarrow> int \<Rightarrow> nat \<Rightarrow> u8 list \<Rightarrow> u8 list res" where
  "decompress_packet_loop h dat inLen outLen out =
     (if int outLen < inLen then
        if int (length out) \<ge> MAX_OVERALLMSGLEN
        then Inl (Sys_Error ''Decompression became too large'')
        else rbind (Huff_offsetReceive h (tree h) dat outLen) (\<lambda>x.
          decompress_packet_loop h dat inLen (snd x) (out @ [word_of_nat (fst x)]))
      else Inr out)"
  by pat_completeness auto
termination
  by (relation "measure (\<lambda>(h, dat, inLen, outLen, out). nat MAX_OVERALLMSGLEN - length out)")
     (auto simp: MAX_OVERALLMSGLEN_def)

declare decompress_packet_loop.simps [simp del]

definition Huff_DecompressPacket :: "huffman \<Rightarrow> sizebuf \<Rightarrow> int \<Rightarrow> sizebuf res" where
  "Huff_DecompressPacket hf msg offset =
     (let inLen = cursize msg - offset in
      if inLen \<le> 0 \<or> inLen \<ge> MAX_OVERALLMSGLEN then Inr msg
      else rbind (peek (data msg) offset) (\<lambda>d0.
        let inBits = inLen * 8 - 8 - uint d0 in
        if d0 AND 0x80 \<noteq> 0 then
          let msg = msg\<lparr>cursize := cursize msg - 1\<rparr> in
          rbind (slice (data msg) (offset + 1) (cursize msg)) (\<lambda>rest.
          sz_store msg offset rest)
        else
          rbind (decompress_packet_loop (decompressor hf) (drop (nat (offset + 1)) (data msg))
            inBits 0 []) (\<lambda>out.
          let msg = msg\<lparr>cursize := offset + int (length out)\<rparr> in
          if cursize msg > maxsize msg then Inl (Sys_Error ''Decompression became too large'')
          else sz_store msg offset out)))"

end
