(* ===== verification/MsgRead.thy ===== *)
theory MsgRead
  imports Huff
begin

text \<open>
  The reading half of the message I/O functions of \<open>engine/common/common.c\<close>: the
  globals \<open>net_message\<close>, \<open>msg_readcount\<close> and \<open>msg_badread\<close>, the three packings of a
  message (bytes, raw bits, bits with Huffman-coded octets) and one reader per value
  type.  An \<open>int\<close> result is its 32-bit pattern, a float result its bit pattern.
\<close>

section \<open>State\<close>

record msgstate =
  net_message :: sizebuf
  msg_readcount :: int
  msg_badread :: bool
  q3huff :: huffman

definition msg_data :: "msgstate \<Rightarrow> u8 list" where
  "msg_data st = data (net_message st)"

definition set_bit_pos :: "msgstate \<Rightarrow> nat \<Rightarrow> msgstate" where
  "set_bit_pos st n = st\<lparr>net_message := (net_message st)\<lparr>currentbit := n\<rparr>\<rparr>"

definition MSG_BeginReading :: "netprim \<Rightarrow> msgstate \<Rightarrow> msgstate" where
  "MSG_BeginReading p st = st\<lparr>msg_readcount := 0, msg_badread := False,
     net_message := (net_message st)\<lparr>currentbit := 0, packing := SZ_RAWBYTES, prim := p\<rparr>\<rparr>"

definition MSG_ChangePrimitives :: "netprim \<Rightarrow> msgstate \<Rightarrow> msgstate" where
  "MSG_ChangePrimitives p st = st\<lparr>net_message := (net_message st)\<lparr>prim := p\<rparr>\<rparr>"

definition MSG_GetReadCount :: "msgstate \<Rightarrow> int" where
  "MSG_GetReadCount st = msg_readcount st"

section \<open>Reading bits\<close>

definition le_sum :: "u8 \<Rightarrow> u8 \<Rightarrow> u8 \<Rightarrow> u8 \<Rightarrow> u32" where
  "le_sum a b c d = ucast a + push_bit 8 (ucast b) + push_bit 16 (ucast c) + push_bit 24 (ucast d)"

definition MSG_ReadRawBytes :: "msgstate \<Rightarrow> int \<Rightarrow> (u32 \<times> msgstate) res" where
  "MSG_ReadRawBytes st bits =
     (let rc = msg_readcount st; cb = currentbit (net_message st); m = msg_data st in
      if bits \<le> 8 then
        rbind (peek m rc) (\<lambda>a.
          Inr (ucast a, set_bit_pos (st\<lparr>msg_readcount := rc + 1\<rparr>) (cb + 8)))
      else if bits \<le> 16 then
        rbind (peek m rc) (\<lambda>a. rbind (peek m (rc + 1)) (\<lambda>b.
          Inr (ucast (ucast (ucast a + push_bit 8 (ucast b) :: u32) :: u16),
               set_bit_pos (st\<lparr>msg_readcount := rc + 2\<rparr>) (cb + 16))))
      else if bits \<le> 32 then
        rbind (peek m rc) (\<lambda>a. rbind (peek m (rc + 1)) (\<lambda>b.
        rbind (peek m (rc + 2)) (\<lambda>c. rbind (peek m (rc + 3)) (\<lambda>d.
          Inr (le_sum a b c d, set_bit_pos (st\<lparr>msg_readcount := rc + 4\<rparr>) (cb + 32))))))
      else Inr (0, st))"

fun raw_bits_loop :: "nat \<Rightarrow> nat \<Rightarrow> u32 \<Rightarrow> msgstate \<Rightarrow> (u32 \<times> msgstate) res" where
  "raw_bits_loop 0 i bitmask st = Inr (bitmask, st)"
| "raw_bits_loop (Suc n) i bitmask st =
     (let cb = currentbit (net_message st) in
      rbind (peek (msg_data st) (int (cb div 8))) (\<lambda>v.
        raw_bits_loop n (i + 1)
          (bitmask OR push_bit i (of_bool (bit v (cb mod 8)))) (set_bit_pos st (cb + 1))))"

definition MSG_ReadRawBits :: "msgstate \<Rightarrow> int \<Rightarrow> (u32 \<times> msgstate) res" where
  "MSG_ReadRawBits st bits = raw_bits_loop (nat bits) 0 0 st"

text \<open>\<open>for (i=0; i<bits-remaining; i+=8)\<close>, run \<open>n\<close> times.\<close>

fun huff_bits_loop :: "nat \<Rightarrow> nat \<Rightarrow> nat \<Rightarrow> u32 \<Rightarrow> msgstate \<Rightarrow> (u32 \<times> msgstate) res" where
  "huff_bits_loop 0 i remaining bitmask st = Inr (bitmask, st)"
| "huff_bits_loop (Suc n) i remaining bitmask st =
     rbind (Huff_GetByte (q3huff st) (msg_data st) (currentbit (net_message st))) (\<lambda>(val, cb).
       huff_bits_loop n (i + 8) remaining
         (bitmask OR push_bit (i + remaining) (word_of_nat val)) (set_bit_pos st cb))"

definition MSG_ReadHuffBits :: "msgstate \<Rightarrow> int \<Rightarrow> (u32 \<times> msgstate) res" where
  "MSG_ReadHuffBits st bits =
     (let remaining = nat (bits mod 8) in
      rbind (MSG_ReadRawBits st (int remaining)) (\<lambda>(bitmask, st).
      rbind (huff_bits_loop ((nat bits - remaining) div 8) 0 remaining bitmask st)
        (\<lambda>(bitmask, st).
        Inr (bitmask,
          st\<lparr>msg_readcount := int (currentbit (net_message st) div 8) + 1\<rparr>))))"

definition MSG_ReadBits :: "msgstate \<Rightarrow> int \<Rightarrow> (u32 \<times> msgstate) res" where
  "MSG_ReadBits st bits0 =
     (let extend = bits0 < 0; bits = (if extend then - bits0 else bits0) in
      rbind (case packing (net_message st) of
               SZ_BAD \<Rightarrow> Inl (Sys_Error ''MSG_ReadBits: bad net_message.packing'')
             | SZ_RAWBYTES \<Rightarrow> MSG_ReadRawBytes st bits
             | SZ_RAWBITS \<Rightarrow> MSG_ReadRawBits st bits
             | SZ_HUFFMAN \<Rightarrow> MSG_ReadHuffBits st bits) (\<lambda>(bitmask, st).
      if extend then
        if bits \<ge> 32 then Inl Undefined
        else Inr (if bitmask AND push_bit (nat (bits - 1)) 1 \<noteq> 0
                  then bitmask OR NOT (push_bit (nat bits) 1 - 1) else bitmask, st)
      else Inr (bitmask, st)))"

definition MSG_ReadSkip :: "msgstate \<Rightarrow> int \<Rightarrow> msgstate res" where
  "MSG_ReadSkip st bytes =
     (let longs = (if bytes > 4 then nat ((bytes - 1) div 4) else 0);
          rest = nat (bytes - 4 * int longs);
          rd = (\<lambda>bits st. rbind (MSG_ReadBits st bits) (\<lambda>(v, st). Inr st));
          skip = (\<lambda>n bits m. ((\<lambda>m. rbind m (rd bits)) ^^ n) m)
      in if packing (net_message st) \<noteq> SZ_RAWBYTES then
           rbind (skip rest 8 (skip longs 32 (Inr st))) (\<lambda>st.
             if msg_readcount st + (if bytes < 0 then bytes else 0) > cursize (net_message st)
             then Inr (st\<lparr>msg_readcount := cursize (net_message st), msg_badread := True\<rparr>)
             else Inr (st\<lparr>msg_readcount := msg_readcount st + (if bytes < 0 then bytes else 0)\<rparr>))
         else if msg_readcount st + bytes > cursize (net_message st)
         then Inr (st\<lparr>msg_readcount := cursize (net_message st), msg_badread := True\<rparr>)
         else Inr (st\<lparr>msg_readcount := msg_readcount st + bytes\<rparr>))"

section \<open>Reading values\<close>

text \<open>
  The common shape of the byte-packed readers: \<open>n\<close> bytes at \<open>msg_readcount\<close>, or the
  value \<open>bad\<close> and the bad-read flag when the message is over.
\<close>

definition read_bytes :: "nat \<Rightarrow> 'a \<Rightarrow> (u8 list \<Rightarrow> 'a) \<Rightarrow> msgstate \<Rightarrow> ('a \<times> msgstate) res" where
  "read_bytes n bad f st =
     (if msg_readcount st + int n > cursize (net_message st)
      then Inr (bad, st\<lparr>msg_badread := True\<rparr>)
      else rbind (slice (msg_data st) (msg_readcount st) (int n)) (\<lambda>bs.
        Inr (f bs, st\<lparr>msg_readcount := msg_readcount st + int n\<rparr>)))"

definition MSG_ReadChar :: "msgstate \<Rightarrow> (u32 \<times> msgstate) res" where
  "MSG_ReadChar st =
     (if packing (net_message st) \<noteq> SZ_RAWBYTES
      then rbind (MSG_ReadBits st 8) (\<lambda>(v, st). Inr (scast (ucast v :: u8), st))
      else read_bytes 1 (- 1) (\<lambda>bs. scast (bs ! 0)) st)"

definition MSG_ReadByte :: "msgstate \<Rightarrow> (u32 \<times> msgstate) res" where
  "MSG_ReadByte st =
     (if packing (net_message st) \<noteq> SZ_RAWBYTES
      then rbind (MSG_ReadBits st 8) (\<lambda>(v, st). Inr (ucast (ucast v :: u8), st))
      else read_bytes 1 (- 1) (\<lambda>bs. ucast (bs ! 0)) st)"

definition MSG_ReadShort :: "msgstate \<Rightarrow> (u32 \<times> msgstate) res" where
  "MSG_ReadShort st =
     (if packing (net_message st) \<noteq> SZ_RAWBYTES
      then rbind (MSG_ReadBits st 16) (\<lambda>(v, st). Inr (scast (ucast v :: u16), st))
      else read_bytes 2 (- 1)
        (\<lambda>bs. scast (ucast (ucast (bs ! 0) + push_bit 8 (ucast (bs ! 1)) :: u32) :: u16)) st)"

definition MSG_ReadLong :: "msgstate \<Rightarrow> (u32 \<times> msgstate) res" where
  "MSG_ReadLong st =
     (if packing (net_message st) \<noteq> SZ_RAWBYTES then MSG_ReadBits st 32
      else read_bytes 4 (- 1) (\<lambda>bs. le_sum (bs ! 0) (bs ! 1) (bs ! 2) (bs ! 3)) st)"

text \<open>
  \<open>r |= (b&0x7f)<<o\<close>: the shift is one of an \<open>int\<close>, whose result is sign-extended to 64
  bits; from \<open>o = 35\<close> on it is undefined.
\<close>

function read_uleb :: "msgstate \<Rightarrow> u64 \<Rightarrow> nat \<Rightarrow> (u64 \<times> msgstate) res" where
  "read_uleb st r sh =
     (if msg_badread st then Inr (r, st)
      else rbind (MSG_ReadByte st) (\<lambda>x.
        let b = ucast (fst x) :: u8 in
        if sh \<ge> 32 then Inl Undefined
        else let r1 = r OR scast (push_bit sh (ucast b AND 0x7f :: u32)) in
          if b AND 0x80 = 0 then Inr (r1, snd x) else read_uleb (snd x) r1 (sh + 7)))"
  by pat_completeness auto
termination
  by (relation "measure (\<lambda>(st, r, sh). 40 - sh)") auto

declare read_uleb.simps [simp del]

definition MSG_ReadULEB128 :: "msgstate \<Rightarrow> (u64 \<times> msgstate) res" where
  "MSG_ReadULEB128 st = read_uleb st 0 0"

definition unzigzag :: "u64 \<Rightarrow> u64" where
  "unzigzag c = (if c AND 1 \<noteq> 0 then - 1 - drop_bit 1 c else drop_bit 1 c)"

definition MSG_ReadSignedQEX :: "msgstate \<Rightarrow> (u64 \<times> msgstate) res" where
  "MSG_ReadSignedQEX st = rbind (MSG_ReadULEB128 st) (\<lambda>(c, st). Inr (unzigzag c, st))"

text \<open>The leading ones of the first byte: the value bits left in it, and their number.\<close>

function uint64_lead :: "u8 \<Rightarrow> u8 \<Rightarrow> nat \<Rightarrow> u8 \<times> nat" where
  "uint64_lead v l b = (if v AND l \<noteq> 0 then uint64_lead (v - l) (drop_bit 1 l) (b + 1) else (v, b))"
  by pat_completeness auto
termination
proof (relation "measure (\<lambda>(v, l, b). unat l)", goal_cases)
  case (2 v l b)
  then have "l \<noteq> 0" by auto
  then have "0 < unat l" by (simp add: unat_gt_0)
  then have "unat l div 2 < unat l" by simp
  then show ?case by (simp add: unsigned_drop_bit_eq drop_bit_eq_div unat_div)
qed simp

declare uint64_lead.simps [simp del]

text \<open>\<open>MSG_ReadByte()<<(b*8)\<close> is again a shift of an \<open>int\<close>.\<close>

definition int_shl :: "u32 \<Rightarrow> nat \<Rightarrow> u64 res" where
  "int_shl v n = (if n \<ge> 32 then Inl Undefined else Inr (scast (push_bit n v)))"

fun read_uint64_tail :: "nat \<Rightarrow> u64 \<Rightarrow> msgstate \<Rightarrow> (u64 \<times> msgstate) res" where
  "read_uint64_tail 0 r st = Inr (r, st)"
| "read_uint64_tail (Suc b) r st =
     rbind (MSG_ReadByte st) (\<lambda>(v, st). rbind (int_shl v (b * 8)) (\<lambda>t.
       read_uint64_tail b (r OR t) st))"

definition MSG_ReadUInt64 :: "msgstate \<Rightarrow> (u64 \<times> msgstate) res" where
  "MSG_ReadUInt64 st =
     rbind (MSG_ReadByte st) (\<lambda>(v0, st).
       let (v, b) = uint64_lead (ucast v0) 0x80 0 in
       rbind (int_shl (ucast v) (b * 8)) (\<lambda>r. read_uint64_tail b r st))"

definition MSG_ReadInt64 :: "msgstate \<Rightarrow> (u64 \<times> msgstate) res" where
  "MSG_ReadInt64 st = rbind (MSG_ReadUInt64 st) (\<lambda>(c, st). Inr (unzigzag c, st))"

text \<open>The bit patterns of the \<open>-1\<close> that a bad read returns.\<close>

definition MSG_ReadFloat :: "msgstate \<Rightarrow> (u32 \<times> msgstate) res" where
  "MSG_ReadFloat st =
     (if packing (net_message st) \<noteq> SZ_RAWBYTES then MSG_ReadBits st 32
      else read_bytes 4 0xbf800000 of_le32_list st)"

definition MSG_ReadDouble :: "msgstate \<Rightarrow> (u64 \<times> msgstate) res" where
  "MSG_ReadDouble st = read_bytes 8 0xbff0000000000000
     (\<lambda>bs. scast (of_le32 (bs ! 0) (bs ! 1) (bs ! 2) (bs ! 3))
        OR push_bit 32 (ucast (bs ! 4)) OR push_bit 40 (ucast (bs ! 5))
        OR push_bit 48 (ucast (bs ! 6)) OR push_bit 56 (ucast (bs ! 7))) st"

text \<open>
  Strings.  \<open>out\<close> is the caller's storage of any size; \<open>outsize - 1\<close> is computed in
  \<open>size_t\<close>.
\<close>

function read_string_buffer ::
    "msgstate \<Rightarrow> u8 list \<Rightarrow> nat \<Rightarrow> nat \<Rightarrow> (u8 list \<times> nat \<times> msgstate) res" where
  "read_string_buffer st out l lim =
     rbind (MSG_ReadChar st) (\<lambda>x.
       if msg_badread (snd x) \<or> fst x = 0 then Inr (out, l, snd x)
       else rbind (poke out (int l) [ucast (fst x)]) (\<lambda>out.
         if l + 1 < lim then read_string_buffer (snd x) out (l + 1) lim
         else Inr (out, l + 1, snd x)))"
  by pat_completeness auto
termination
  by (relation "measure (\<lambda>(st, out, l, lim). lim - l)") auto

declare read_string_buffer.simps [simp del]

definition MSG_ReadStringBuffer ::
    "msgstate \<Rightarrow> u8 list \<Rightarrow> nat \<Rightarrow> (u8 list \<times> msgstate) res" where
  "MSG_ReadStringBuffer st out outsize =
     rbind (read_string_buffer st out 0 (if outsize = 0 then 2 ^ 64 - 1 else outsize - 1))
       (\<lambda>(out, l, st). rbind (poke out (int l) [0]) (\<lambda>out. Inr (out, st)))"

text \<open>
  \<open>MSG_ReadString\<close>: the result is the text before the terminator in the static buffer.
  When the buffer is full the code sets the bad-read flag and goes round once more, which
  reads one more character and stops.
\<close>

function read_string :: "msgstate \<Rightarrow> u8 list \<Rightarrow> (u8 list \<times> msgstate) res" where
  "read_string st acc =
     rbind (MSG_ReadChar st) (\<lambda>x.
       if msg_badread (snd x) \<or> fst x = 0 then Inr (acc, snd x)
       else if length acc < 65535 then read_string (snd x) (acc @ [ucast (fst x)])
       else rbind (MSG_ReadChar ((snd x)\<lparr>msg_badread := True\<rparr>)) (\<lambda>y. Inr (acc, snd y)))"
  by pat_completeness auto
termination
  by (relation "measure (\<lambda>(st, acc). 65535 - length acc)") auto

declare read_string.simps [simp del]

definition MSG_ReadString :: "msgstate \<Rightarrow> (u8 list \<times> msgstate) res" where
  "MSG_ReadString st = read_string st []"

function read_string_line :: "msgstate \<Rightarrow> u8 list \<Rightarrow> (u8 list \<times> msgstate) res" where
  "read_string_line st acc =
     rbind (MSG_ReadChar st) (\<lambda>x.
       if msg_badread (snd x) \<or> fst x = 0 \<or> fst x = 10 then Inr (acc, snd x)
       else if length acc + 1 < 2047 then read_string_line (snd x) (acc @ [ucast (fst x)])
       else Inr (acc @ [ucast (fst x)], snd x))"
  by pat_completeness auto
termination
  by (relation "measure (\<lambda>(st, acc). 2047 - length acc)") auto

declare read_string_line.simps [simp del]

definition MSG_ReadStringLine :: "msgstate \<Rightarrow> (u8 list \<times> msgstate) res" where
  "MSG_ReadStringLine st = read_string_line st []"

fun MSG_ReadData :: "msgstate \<Rightarrow> nat \<Rightarrow> (u8 list \<times> msgstate) res" where
  "MSG_ReadData st 0 = Inr ([], st)"
| "MSG_ReadData st (Suc n) = rbind (MSG_ReadByte st) (\<lambda>(b, st).
     rbind (MSG_ReadData st n) (\<lambda>(bs, st). Inr (ucast b # bs, st)))"

section \<open>Sizes and entity numbers\<close>

definition size16_decode :: "u16 \<Rightarrow> u32" where
  "size16_decode ss =
     (let ssolid = ucast ss :: u32 in
      if ssolid = ES_SOLID_BSP then ssolid
      else push_bit 16 ((sar ssolid 7 AND 0x1F8) - 32 + 32768)
        OR push_bit 3 (ssolid AND 0x1F) OR push_bit 10 (ssolid AND 0x3E0))"

definition MSG_ReadSize16 :: "msgstate \<Rightarrow> (u32 \<times> msgstate) res" where
  "MSG_ReadSize16 st = rbind (MSG_ReadShort st) (\<lambda>(s, st). Inr (size16_decode (ucast s), st))"

definition MSG_ReadBigEntity :: "msgstate \<Rightarrow> (u32 \<times> msgstate) res" where
  "MSG_ReadBigEntity st = rbind (MSG_ReadShort st) (\<lambda>(num, st).
     if num AND 0x8000 \<noteq> 0 then
       rbind (MSG_ReadByte st) (\<lambda>(b, st). Inr (push_bit 8 (num AND 0x7fff) OR b, st))
     else Inr (num, st))"

text \<open>\<open>big\<close>: the peer negotiated \<open>PEXT2_REPLACEMENTDELTAS\<close>.\<close>

definition read_entity :: "bool \<Rightarrow> msgstate \<Rightarrow> (u32 \<times> msgstate) res" where
  "read_entity big st = (if big then MSG_ReadBigEntity st
     else rbind (MSG_ReadShort st) (\<lambda>(s, st). Inr (ucast (ucast s :: u16), st)))"

text \<open>The server's reader also says whether the client is to be dropped.\<close>

definition MSGSV_ReadEntity :: "bool \<Rightarrow> u32 \<Rightarrow> msgstate \<Rightarrow> (u32 \<times> bool \<times> msgstate) res" where
  "MSGSV_ReadEntity big max_edicts st = rbind (read_entity big st) (\<lambda>(num, st).
     if num \<ge> max_edicts then Inr (0, True, st) else Inr (num, False, st))"

definition MSGCL_ReadEntity :: "bool \<Rightarrow> msgstate \<Rightarrow> (u32 \<times> msgstate) res" where
  "MSGCL_ReadEntity big st = read_entity big st"

end
