(* ===== verification/MsgCodec.thy ===== *)
theory MsgCodec
  imports MsgRead
begin

text \<open>
  What the writers and the readers of \<open>engine/common/common.c\<close> promise each other.  The
  contract is the locale \<open>msg_codec\<close>: a writer appends the bytes of the encoding and
  the reader, placed before these bytes, returns the value and stops behind them.  Its
  clients are whole messages (sequences and pairs of values); every writer and reader
  pair of the code interprets it, with the values for which it keeps the contract.
\<close>

section \<open>Appending to a buffer\<close>

definition sz_fits :: "sizebuf \<Rightarrow> nat \<Rightarrow> bool" where
  "sz_fits b n \<longleftrightarrow> 0 \<le> cursize b \<and> cursize b + int n \<le> maxsize b \<and> maxsize b \<le> int (length (data b))"

definition sz_put :: "sizebuf \<Rightarrow> u8 list \<Rightarrow> sizebuf" where
  "sz_put b bs = b\<lparr>data := take (nat (cursize b)) (data b) @ bs
       @ drop (nat (cursize b) + length bs) (data b),
     cursize := cursize b + int (length bs)\<rparr>"

text \<open>The bytes of the message so far.\<close>

definition contents :: "sizebuf \<Rightarrow> u8 list" where
  "contents b = take (nat (cursize b)) (data b)"

lemma sz_fits_le: "sz_fits b n \<Longrightarrow> m \<le> n \<Longrightarrow> sz_fits b m"
  by (simp add: sz_fits_def)

lemma sz_put_simps [simp]:
  "cursize (sz_put b bs) = cursize b + int (length bs)"
  "maxsize (sz_put b bs) = maxsize b"
  "allowoverflow (sz_put b bs) = allowoverflow b"
  "overflowed (sz_put b bs) = overflowed b"
  "packing (sz_put b bs) = packing b"
  by (simp_all add: sz_put_def)

lemma length_data_sz_put: "sz_fits b (length bs) \<Longrightarrow> length (data (sz_put b bs)) = length (data b)"
  by (auto simp: sz_fits_def sz_put_def nat_le_iff)

lemma sz_put_fits:
  "sz_fits b (length bs + n) \<Longrightarrow> sz_fits (sz_put b bs) n"
  using length_data_sz_put [of b bs] by (simp add: sz_fits_def)

lemma sz_put_append:
  assumes "sz_fits b (length xs)"
  shows "sz_put (sz_put b xs) ys = sz_put b (xs @ ys)"
proof -
  have "nat (cursize b + int (length xs)) = nat (cursize b) + length xs"
    using assms by (simp add: sz_fits_def nat_add_distrib)
  moreover have "nat (cursize b) \<le> length (data b)"
    using assms by (auto simp: sz_fits_def)
  ultimately show ?thesis
    by (simp add: sz_put_def add.assoc add.commute add.left_commute)
qed

lemma sz_put_Nil: "sz_fits b 0 \<Longrightarrow> sz_put b [] = b"
  by (simp add: sz_put_def)

lemma contents_sz_put: "sz_fits b (length bs) \<Longrightarrow> contents (sz_put b bs) = contents b @ bs"
  by (auto simp: contents_def sz_put_def sz_fits_def nat_add_distrib)

lemma SZ_GetSpace_fits:
  "sz_fits b n \<Longrightarrow> SZ_GetSpace b (int n) = Inr (cursize b, b\<lparr>cursize := cursize b + int n\<rparr>)"
  by (simp add: SZ_GetSpace_def sz_fits_def)

lemma SZ_Write_fits: "sz_fits b (length bs) \<Longrightarrow> SZ_Write b bs = Inr (sz_put b bs)"
  by (simp add: SZ_Write_def SZ_GetSpace_fits sz_store_def)
     (simp add: sz_fits_def poke_ok sz_put_def)

text \<open>Every fixed-size writer is \<open>SZ_Write\<close> of its encoding.\<close>

lemma space_store_SZ_Write:
  "length bs = nat n \<Longrightarrow> 0 \<le> n \<Longrightarrow>
   rbind (SZ_GetSpace b n) (\<lambda>(p, b1). sz_store b1 p bs) = SZ_Write b bs"
  by (simp add: SZ_Write_def)

definition enc16 :: "u32 \<Rightarrow> u8 list" where
  "enc16 c = [ucast c, ucast (drop_bit 8 c)]"

definition enc64 :: "u64 \<Rightarrow> u8 list" where
  "enc64 c = [ucast c, ucast (drop_bit 8 c), ucast (drop_bit 16 c), ucast (drop_bit 24 c),
     ucast (drop_bit 32 c), ucast (drop_bit 40 c), ucast (drop_bit 48 c), ucast (drop_bit 56 c)]"

lemma length_enc [simp]: "length (enc16 c) = 2" "length (enc64 d) = 8"
  by (simp_all add: enc16_def enc64_def)

lemma MSG_WriteChar_eq: "MSG_WriteChar b c = SZ_Write b [ucast c]"
  by (simp add: MSG_WriteChar_def SZ_Write_def)

lemma MSG_WriteByte_eq: "MSG_WriteByte b c = SZ_Write b [ucast c]"
  by (simp add: MSG_WriteByte_def SZ_Write_def)

lemma MSG_WriteShort_eq: "MSG_WriteShort b c = SZ_Write b (enc16 c)"
  by (simp add: MSG_WriteShort_def SZ_Write_def enc16_def ucast_sar)

lemma MSG_WriteLong_eq: "MSG_WriteLong b c = SZ_Write b (le32 c)"
  by (simp add: MSG_WriteLong_def SZ_Write_def le32_def ucast_sar)

lemma MSG_WriteDouble_eq: "MSG_WriteDouble b c = SZ_Write b (enc64 c)"
  by (simp add: MSG_WriteDouble_def SZ_Write_def enc64_def)

lemma MSG_WriteString_eq: "MSG_WriteString b (Some s) = SZ_Write b (s @ [0])"
  by (simp add: MSG_WriteString_def)

lemmas write_eqs = MSG_WriteChar_eq MSG_WriteByte_eq MSG_WriteShort_eq MSG_WriteLong_eq
  MSG_WriteDouble_eq MSG_WriteString_eq MSG_WriteFloat_def

section \<open>Reading at a position\<close>

definition reads_at :: "msgstate \<Rightarrow> u8 list \<Rightarrow> bool" where
  "reads_at st bs \<longleftrightarrow> packing (net_message st) = SZ_RAWBYTES \<and> \<not> msg_badread st
     \<and> 0 \<le> msg_readcount st \<and> msg_readcount st + int (length bs) \<le> cursize (net_message st)
     \<and> cursize (net_message st) \<le> int (length (msg_data st))
     \<and> take (length bs) (drop (nat (msg_readcount st)) (msg_data st)) = bs"

definition advance :: "msgstate \<Rightarrow> nat \<Rightarrow> msgstate" where
  "advance st n = st\<lparr>msg_readcount := msg_readcount st + int n\<rparr>"

lemma advance_simps [simp]:
  "msg_readcount (advance st n) = msg_readcount st + int n"
  "net_message (advance st n) = net_message st"
  "msg_badread (advance st n) = msg_badread st"
  "msg_data (advance st n) = msg_data st"
  "advance (advance st n) m = advance st (n + m)"
  "advance st 0 = st"
  by (simp_all add: advance_def msg_data_def)

lemma reads_at_raw: "reads_at st bs \<Longrightarrow> packing (net_message st) = SZ_RAWBYTES"
  by (simp add: reads_at_def)

lemma reads_at_good: "reads_at st bs \<Longrightarrow> \<not> msg_badread st"
  by (simp add: reads_at_def)

lemma reads_at_append:
  assumes "reads_at st (xs @ ys)"
  shows "reads_at st xs" and "reads_at (advance st (length xs)) ys"
proof -
  let ?m = "drop (nat (msg_readcount st)) (msg_data st)"
  have eq: "take (length xs + length ys) ?m = xs @ ys"
    using assms by (simp add: reads_at_def)
  have "take (length xs) ?m = take (length xs) (take (length xs + length ys) ?m)"
    by simp
  then have 1: "take (length xs) ?m = xs" unfolding eq by simp
  have "take (length ys) (drop (length xs) ?m) = drop (length xs) (take (length xs + length ys) ?m)"
    by (simp only: take_drop add.commute)
  then have 2: "take (length ys) (drop (length xs) ?m) = ys" unfolding eq by simp
  from 1 assms show "reads_at st xs" by (simp add: reads_at_def)
  have "nat (msg_readcount st + int (length xs)) = nat (msg_readcount st) + length xs"
    using assms by (simp add: reads_at_def nat_add_distrib)
  with 2 assms show "reads_at (advance st (length xs)) ys"
    by (simp add: reads_at_def add.commute add.left_commute)
qed

lemma reads_at_Cons:
  assumes "reads_at st (x # xs)"
  shows "reads_at st [x]" and "reads_at (advance st 1) xs"
proof -
  from assms have "reads_at st ([x] @ xs)" by simp
  from reads_at_append [OF this] show "reads_at st [x]" and "reads_at (advance st 1) xs"
    by (simp_all only: length_Cons list.size One_nat_def)
qed

lemma read_bytes_at:
  "reads_at st bs \<Longrightarrow> length bs = n \<Longrightarrow> read_bytes n bad f st = Inr (f bs, advance st n)"
  by (simp add: read_bytes_def reads_at_def slice_def advance_def)

lemma read_bytes_bad:
  "msg_readcount st + int n > cursize (net_message st) \<Longrightarrow>
   read_bytes n bad f st = Inr (bad, st\<lparr>msg_badread := True\<rparr>)"
  by (simp add: read_bytes_def)

lemma MSG_ReadByte_at: "reads_at st [b] \<Longrightarrow> MSG_ReadByte st = Inr (ucast b, advance st 1)"
  by (simp add: MSG_ReadByte_def reads_at_raw read_bytes_at [of st "[b]"])

lemma MSG_ReadChar_at: "reads_at st [b] \<Longrightarrow> MSG_ReadChar st = Inr (scast b, advance st 1)"
  by (simp add: MSG_ReadChar_def reads_at_raw read_bytes_at [of st "[b]"])

lemma MSG_ReadShort_at:
  assumes "reads_at st (enc16 c)"
  shows "MSG_ReadShort st = Inr (scast (ucast c :: u16), advance st 2)"
proof -
  have "(ucast (ucast (ucast c :: u8) + push_bit 8 (ucast (ucast (drop_bit 8 c) :: u8)) :: u32) :: u16)
      = ucast c"
    unfolding plus_shift_or_16
    by (rule bit_word_eqI) (auto simp: bit_simps)
  then show ?thesis
    using assms by (simp add: MSG_ReadShort_def reads_at_raw read_bytes_at [of st "enc16 c"])
      (simp add: enc16_def)
qed

lemma le_sum_of_le32: "le_sum a b c d = of_le32 a b c d"
  by (simp only: le_sum_def plus_shift_or_32 of_le32_def)

lemma MSG_ReadLong_at: "reads_at st (le32 c) \<Longrightarrow> MSG_ReadLong st = Inr (c, advance st 4)"
  using of_le32_list_le32 [of c]
  by (simp add: MSG_ReadLong_def reads_at_raw read_bytes_at [of st "le32 c"] le_sum_of_le32 of_le32_list_def)

section \<open>The contract of a writer and its reader\<close>

fun write_all :: "(sizebuf \<Rightarrow> 'a \<Rightarrow> sizebuf res) \<Rightarrow> sizebuf \<Rightarrow> 'a list \<Rightarrow> sizebuf res" where
  "write_all wr b [] = Inr b"
| "write_all wr b (v # vs) = rbind (wr b v) (\<lambda>b. write_all wr b vs)"

fun read_all :: "(msgstate \<Rightarrow> ('a \<times> msgstate) res) \<Rightarrow> nat \<Rightarrow> msgstate \<Rightarrow> ('a list \<times> msgstate) res" where
  "read_all rd 0 st = Inr ([], st)"
| "read_all rd (Suc n) st = rbind (rd st) (\<lambda>(v, st).
     rbind (read_all rd n st) (\<lambda>(vs, st). Inr (v # vs, st)))"

text \<open>A receiver that has got the message \<open>b\<close> and stands at offset \<open>pos\<close> of it.\<close>

definition receiver :: "sizebuf \<Rightarrow> int \<Rightarrow> huffman \<Rightarrow> msgstate" where
  "receiver b pos hf = \<lparr>net_message = b\<lparr>packing := SZ_RAWBYTES\<rparr>, msg_readcount = pos,
     msg_badread = False, q3huff = hf\<rparr>"

lemma reads_at_receiver:
  assumes "sz_fits b (length bs)"
  shows "reads_at (receiver (sz_put b bs) (cursize b) hf) bs"
proof -
  have "nat (cursize b) \<le> length (data b)"
    using assms by (auto simp: sz_fits_def)
  then show ?thesis
    using assms length_data_sz_put [OF assms]
    by (auto simp: reads_at_def receiver_def msg_data_def sz_fits_def)
       (simp_all add: sz_put_def)
qed

locale msg_codec =
  fixes wr :: "sizebuf \<Rightarrow> 'a \<Rightarrow> sizebuf res"
    and rd :: "msgstate \<Rightarrow> ('a \<times> msgstate) res"
    and enc :: "'a \<Rightarrow> u8 list"
    and ok :: "'a \<Rightarrow> bool"
  assumes wr_enc: "ok v \<Longrightarrow> sz_fits b (length (enc v)) \<Longrightarrow> wr b v = Inr (sz_put b (enc v))"
    and rd_enc: "ok v \<Longrightarrow> reads_at st (enc v) \<Longrightarrow> rd st = Inr (v, advance st (length (enc v)))"
begin

lemma write_all_enc:
  "list_all ok vs \<Longrightarrow> sz_fits b (length (concat (map enc vs))) \<Longrightarrow>
   write_all wr b vs = Inr (sz_put b (concat (map enc vs)))"
proof (induction vs arbitrary: b)
  case Nil
  then show ?case by (simp add: sz_put_Nil)
next
  case (Cons v vs)
  then have "sz_fits b (length (enc v))" by (simp add: sz_fits_def)
  moreover from Cons.prems have "sz_fits (sz_put b (enc v)) (length (concat (map enc vs)))"
    by (intro sz_put_fits) simp
  ultimately show ?case using Cons by (simp add: wr_enc sz_put_append)
qed

lemma read_all_enc:
  "list_all ok vs \<Longrightarrow> reads_at st (concat (map enc vs)) \<Longrightarrow>
   read_all rd (length vs) st = Inr (vs, advance st (length (concat (map enc vs))))"
proof (induction vs arbitrary: st)
  case (Cons v vs)
  then have "reads_at st (enc v @ concat (map enc vs))" by simp
  from reads_at_append [OF this] Cons show ?case by (simp add: rd_enc [of v])
qed simp

lemma roundtrip:
  assumes "list_all ok vs" and "sz_fits b (length (concat (map enc vs)))"
  shows "\<exists>b'. write_all wr b vs = Inr b'
     \<and> contents b' = contents b @ concat (map enc vs)
     \<and> read_all rd (length vs) (receiver b' (cursize b) hf)
       = Inr (vs, receiver b' (cursize b') hf)"
proof -
  let ?bs = "concat (map enc vs)"
  have "read_all rd (length vs) (receiver (sz_put b ?bs) (cursize b) hf)
      = Inr (vs, advance (receiver (sz_put b ?bs) (cursize b) hf) (length ?bs))"
    using assms by (intro read_all_enc reads_at_receiver) simp_all
  moreover have "advance (receiver (sz_put b ?bs) (cursize b) hf) (length ?bs)
      = receiver (sz_put b ?bs) (cursize (sz_put b ?bs)) hf"
    by (simp add: advance_def receiver_def)
  ultimately show ?thesis
    using write_all_enc [OF assms] contents_sz_put [OF assms(2)] by auto
qed

lemma roundtrip1:
  assumes "ok v" and "sz_fits b (length (enc v))"
  shows "\<exists>b'. wr b v = Inr b' \<and> rd (receiver b' (cursize b) hf) = Inr (v, receiver b' (cursize b') hf)"
proof -
  have "rd (receiver (sz_put b (enc v)) (cursize b) hf)
      = Inr (v, advance (receiver (sz_put b (enc v)) (cursize b) hf) (length (enc v)))"
    using assms by (intro rd_enc reads_at_receiver) simp_all
  then show ?thesis
    using wr_enc [OF assms] by (auto simp: advance_def receiver_def)
qed

end

text \<open>Two values one after the other: a message of two fields is a codec again.\<close>

definition write_pair ::
    "(sizebuf \<Rightarrow> 'a \<Rightarrow> sizebuf res) \<Rightarrow> (sizebuf \<Rightarrow> 'b \<Rightarrow> sizebuf res)
      \<Rightarrow> sizebuf \<Rightarrow> 'a \<times> 'b \<Rightarrow> sizebuf res" where
  "write_pair wr1 wr2 b v = rbind (wr1 b (fst v)) (\<lambda>b. wr2 b (snd v))"

definition read_pair ::
    "(msgstate \<Rightarrow> ('a \<times> msgstate) res) \<Rightarrow> (msgstate \<Rightarrow> ('b \<times> msgstate) res)
      \<Rightarrow> msgstate \<Rightarrow> (('a \<times> 'b) \<times> msgstate) res" where
  "read_pair rd1 rd2 st = rbind (rd1 st) (\<lambda>(v, st). rbind (rd2 st) (\<lambda>(w, st). Inr ((v, w), st)))"

locale msg_codec_pair =
  a: msg_codec wr1 rd1 enc1 ok1 + b: msg_codec wr2 rd2 enc2 ok2
  for wr1 :: "sizebuf \<Rightarrow> 'a \<Rightarrow> sizebuf res" and rd1 enc1 ok1
    and wr2 :: "sizebuf \<Rightarrow> 'b \<Rightarrow> sizebuf res" and rd2 enc2 ok2

sublocale msg_codec_pair \<subseteq> pair: msg_codec "write_pair wr1 wr2" "read_pair rd1 rd2"
    "\<lambda>v. enc1 (fst v) @ enc2 (snd v)" "\<lambda>v. ok1 (fst v) \<and> ok2 (snd v)"
proof (unfold_locales, goal_cases)
  case (1 v b)
  then have "sz_fits b (length (enc1 (fst v)))" by (simp add: sz_fits_def)
  moreover have "sz_fits (sz_put b (enc1 (fst v))) (length (enc2 (snd v)))"
    using 1 by (intro sz_put_fits) simp
  ultimately show ?case using 1
    by (simp add: write_pair_def a.wr_enc b.wr_enc sz_put_append)
next
  case (2 v st)
  then show ?case
    using reads_at_append [of st "enc1 (fst v)" "enc2 (snd v)"]
    by (simp add: read_pair_def a.rd_enc [of "fst v"] b.rd_enc [of "snd v"])
qed

section \<open>Fixed-size values\<close>

text \<open>A byte is read back unsigned, a character and a short sign-extended.\<close>

definition is_byte :: "u32 \<Rightarrow> bool" where "is_byte c \<longleftrightarrow> ucast (ucast c :: u8) = c"
definition is_char :: "u32 \<Rightarrow> bool" where "is_char c \<longleftrightarrow> scast (ucast c :: u8) = c"
definition is_short :: "u32 \<Rightarrow> bool" where "is_short c \<longleftrightarrow> scast (ucast c :: u16) = c"

interpretation byte: msg_codec MSG_WriteByte MSG_ReadByte "\<lambda>c. [ucast c]" is_byte
  by unfold_locales (simp_all add: write_eqs SZ_Write_fits MSG_ReadByte_at is_byte_def)

interpretation schar: msg_codec MSG_WriteChar MSG_ReadChar "\<lambda>c. [ucast c]" is_char
  by unfold_locales (simp_all add: write_eqs SZ_Write_fits MSG_ReadChar_at is_char_def)

interpretation short: msg_codec MSG_WriteShort MSG_ReadShort enc16 is_short
  by unfold_locales (simp_all add: write_eqs SZ_Write_fits MSG_ReadShort_at is_short_def)

interpretation long: msg_codec MSG_WriteLong MSG_ReadLong le32 "\<lambda>c. True"
  by unfold_locales (simp_all add: write_eqs SZ_Write_fits MSG_ReadLong_at)

lemma MSG_ReadFloat_at: "reads_at st (le32 c) \<Longrightarrow> MSG_ReadFloat st = Inr (c, advance st 4)"
  by (simp add: MSG_ReadFloat_def reads_at_raw read_bytes_at [of st "le32 c"])

interpretation float: msg_codec MSG_WriteFloat MSG_ReadFloat le32 "\<lambda>c. True"
  by unfold_locales (simp_all add: write_eqs SZ_Write_fits MSG_ReadFloat_at)

text \<open>
  \<open>MSG_ReadDouble\<close> shifts the fourth byte inside an \<open>int\<close>: when its top bit is set the
  partial result is negative and its sign fills the upper half of the pattern.
\<close>

definition double_read_back :: "u64 \<Rightarrow> u64" where
  "double_read_back c = (if bit c 31 then c OR 0xffffffff00000000 else c)"

lemma double_bytes:
  "scast (of_le32 (ucast c) (ucast (drop_bit 8 c)) (ucast (drop_bit 16 c)) (ucast (drop_bit 24 c)))
     OR push_bit 32 (ucast (ucast (drop_bit 32 c) :: u8))
     OR push_bit 40 (ucast (ucast (drop_bit 40 c) :: u8))
     OR push_bit 48 (ucast (ucast (drop_bit 48 c) :: u8))
     OR push_bit 56 (ucast (ucast (drop_bit 56 c) :: u8)) = double_read_back (c :: u64)"
proof -
  have hi: "(0xffffffff00000000 :: u64) = push_bit 32 (mask 32)"
    by (simp add: mask_eq_exp_minus_1)
  show ?thesis
    unfolding of_le32_def double_read_back_def hi
    apply (rule bit_word_eqI)
    subgoal for n
      by (cases "n < 8"; cases "n < 16"; cases "n < 24"; cases "n < 32"; cases "n < 40";
          cases "n < 48"; cases "n < 56") (auto simp: bit_simps)
    done
qed

lemma MSG_ReadDouble_at:
  "reads_at st (enc64 c) \<Longrightarrow> MSG_ReadDouble st = Inr (double_read_back c, advance st 8)"
  using double_bytes [of c]
  by (simp add: MSG_ReadDouble_def read_bytes_at [of st "enc64 c"]) (simp add: enc64_def)

interpretation double: msg_codec MSG_WriteDouble MSG_ReadDouble enc64 "\<lambda>c. \<not> bit c 31"
  by unfold_locales
    (simp_all add: write_eqs SZ_Write_fits MSG_ReadDouble_at double_read_back_def)

section \<open>Strings\<close>

text \<open>A C string of at most the reader's buffer.\<close>

definition is_cstring :: "u8 list \<Rightarrow> bool" where
  "is_cstring s \<longleftrightarrow> 0 \<notin> set s \<and> length s \<le> 65535"

lemma scast_8_eq_0: "(scast (c :: u8) :: u32) = 0 \<longleftrightarrow> c = 0"
proof
  assume eq: "(scast c :: u32) = 0"
  show "c = 0"
  proof (rule bit_word_eqI)
    fix n
    assume "n < LENGTH(8)"
    then have "bit (scast c :: u32) n = bit c n"
      by (cases "n = 7") (auto simp: bit_simps min_def)
    with eq show "bit c n = bit (0 :: u8) n" by simp
  qed
qed simp

lemma ucast_scast_8: "(ucast (scast (c :: u8) :: u32) :: u8) = c"
  apply (rule bit_word_eqI)
  subgoal for n by (cases "n = 7") (auto simp: bit_simps min_def)
  done

lemma read_string_at:
  "reads_at st (s @ [0]) \<Longrightarrow> 0 \<notin> set s \<Longrightarrow> length acc + length s \<le> 65535 \<Longrightarrow>
   read_string st acc = Inr (acc @ s, advance st (length s + 1))"
proof (induction s arbitrary: st acc)
  case Nil
  then show ?case by (simp add: read_string.simps [of st] MSG_ReadChar_at)
next
  case (Cons c s)
  then have c: "reads_at st [c]" "reads_at (advance st 1) (s @ [0])"
    using reads_at_Cons [of st c "s @ [0]"] by simp_all
  with Cons show ?case
    by (subst read_string.simps)
      (simp add: MSG_ReadChar_at [OF c(1)] reads_at_good [OF c(1)] scast_8_eq_0 ucast_scast_8)
qed

interpretation str: msg_codec "\<lambda>b s. MSG_WriteString b (Some s)" MSG_ReadString "\<lambda>s. s @ [0]"
    is_cstring
  by unfold_locales
    (simp_all add: write_eqs SZ_Write_fits MSG_ReadString_def read_string_at is_cstring_def)

section \<open>Variable-length integers\<close>

text \<open>
  What \<open>MSG_WriteULEB128\<close> writes; the reader understands it as long as its \<open>int\<close> shifts
  do not reach the sign bit.
\<close>

function uleb :: "u64 \<Rightarrow> u8 list" where
  "uleb c = (if drop_bit 7 c = 0 then [ucast (c AND 0x7f)]
     else (ucast (c AND 0x7f) OR 0x80) # uleb (drop_bit 7 c))"
  by pat_completeness auto
termination
proof (relation "measure unat", goal_cases)
  case (2 c)
  then have "c \<noteq> 0" by auto
  then show ?case by (simp add: drop_bit_7_less)
qed simp

declare uleb.simps [simp del]

text \<open>\<open>c < 2 ^ k\<close>, by bits.\<close>

definition fits_in :: "nat \<Rightarrow> u64 \<Rightarrow> bool" where
  "fits_in k c \<longleftrightarrow> drop_bit k c = 0"

lemma fits_in_bit: "fits_in k c \<Longrightarrow> bit c n \<Longrightarrow> n < k"
proof (rule ccontr)
  assume fits: "fits_in k c" and n: "bit c n" "\<not> n < k"
  then have "bit (drop_bit k c) (n - k)" by (simp add: bit_drop_bit_eq)
  with fits show False by (simp add: fits_in_def)
qed

lemma fits_in_drop: "fits_in (k + m) c \<Longrightarrow> fits_in k (drop_bit m c)"
  by (simp add: fits_in_def add.commute)

lemma fits_in_mono: "fits_in k c \<Longrightarrow> k \<le> m \<Longrightarrow> fits_in m c"
  by (metis drop_bit_drop_bit drop_bit_of_0 fits_in_def le_add_diff_inverse2)

lemma ucast_byte_u32: "(ucast (ucast (b :: u8) :: u32) :: u8) = b"
  by (rule bit_word_eqI) (auto simp: bit_simps)

lemma mask_7f: "(0x7f :: 'a::len word) = mask 7" and mask_80: "(0x80 :: 'a::len word) = push_bit 7 1"
  by (simp_all add: mask_eq_exp_minus_1)

lemma bit_80: "bit (0x80 :: 'a::len word) n \<longleftrightarrow> n = 7 \<and> 7 < LENGTH('a)"
  unfolding mask_80 bit_push_bit_iff by (auto simp: bit_1_iff)

lemma MSG_WriteULEB128_enc:
  "sz_fits b (length (uleb c)) \<Longrightarrow> MSG_WriteULEB128 b c = Inr (sz_put b (uleb c))"
proof (induction b c rule: MSG_WriteULEB128.induct)
  case (1 b c)
  let ?b = "ucast (c AND 0x7f) :: u8"
  show ?case
  proof (cases "drop_bit 7 c = 0")
    case True
    with "1.prems" show ?thesis
      by (simp add: MSG_WriteULEB128.simps [of b] uleb.simps [of c] MSG_WriteByte_eq
          SZ_Write_fits ucast_byte_u32)
  next
    case False
    then have enc: "uleb c = (?b OR 0x80) # uleb (drop_bit 7 c)"
      by (subst uleb.simps) simp
    with "1.prems" have fits: "sz_fits b (length [?b OR 0x80] + length (uleb (drop_bit 7 c)))"
      by simp
    have wr: "MSG_WriteByte b (ucast (?b OR 0x80)) = Inr (sz_put b [?b OR 0x80])"
      using fits by (simp add: MSG_WriteByte_eq ucast_byte_u32 SZ_Write_fits sz_fits_def)
    have "MSG_WriteULEB128 (sz_put b [?b OR 0x80]) (drop_bit 7 c)
        = Inr (sz_put (sz_put b [?b OR 0x80]) (uleb (drop_bit 7 c)))"
      using sz_put_fits [OF fits] False wr by (intro "1.IH") (simp_all)
    then show ?thesis
      using False fits wr
      by (simp add: MSG_WriteULEB128.simps [of b] enc sz_put_append sz_fits_def)
  qed
qed

lemma uleb_step:
  assumes "fits_in (31 - sh) c" "sh < 32"
  shows "scast (push_bit sh (ucast (ucast (c AND 0x7f) :: u8) :: u32)) = push_bit sh (c AND 0x7f)"
proof -
  have bits: "bit c n \<Longrightarrow> n + sh < 31" for n
    using fits_in_bit [OF assms(1), of n] by simp
  show ?thesis
    unfolding mask_7f
    apply (rule bit_word_eqI)
    subgoal for n
      using bits [of "n - sh"] bits [of "31 - sh"] assms(2)
      by (cases "n < 31") (auto simp: bit_simps min_def)
    done
qed

lemmas byte_bits = bit_and_iff bit_or_iff bit_ucast_iff bit_mask_iff bit_80

lemma low7_u32:
  "ucast (ucast (c AND 0x7f) :: u8) AND (0x7f :: u32) = ucast (ucast ((c :: u64) AND 0x7f) :: u8)"
  "ucast ((ucast (c AND 0x7f) :: u8) OR 0x80) AND (0x7f :: u32) = ucast (ucast (c AND 0x7f) :: u8)"
  unfolding mask_7f by (rule bit_word_eqI, simp only: byte_bits, auto)+

lemma high_bit_u8:
  "(ucast ((c :: u64) AND 0x7f) :: u8) AND 0x80 = 0"
  "((ucast (c AND 0x7f) :: u8) OR 0x80) AND 0x80 \<noteq> 0"
proof -
  show "(ucast (c AND 0x7f) :: u8) AND 0x80 = 0"
    unfolding mask_7f by (rule bit_word_eqI, simp only: byte_bits, auto)
  have "bit (((ucast (c AND 0x7f) :: u8) OR 0x80) AND 0x80) 7"
    by (simp only: byte_bits) simp
  then show "((ucast (c AND 0x7f) :: u8) OR 0x80) AND 0x80 \<noteq> 0" by fastforce
qed

lemma split_low7: "push_bit sh (c AND 0x7f) OR push_bit (sh + 7) (drop_bit 7 c) = push_bit sh (c :: u64)"
  unfolding mask_7f
  apply (rule bit_word_eqI)
  subgoal for n by (cases "n < sh + 7") (auto simp: bit_simps)
  done

lemma low7_id: "drop_bit 7 c = 0 \<Longrightarrow> (c :: u64) AND 0x7f = c"
  using split_low7 [of 0 c] by simp

lemma read_uleb_at:
  "reads_at st (uleb c) \<Longrightarrow> fits_in (31 - sh) c \<Longrightarrow> sh < 31 \<Longrightarrow>
   read_uleb st r sh = Inr (r OR push_bit sh c, advance st (length (uleb c)))"
proof (induction c arbitrary: st r sh rule: uleb.induct)
  case (1 c)
  let ?b = "ucast (c AND 0x7f) :: u8"
  have step: "scast (push_bit sh (ucast ?b :: u32)) = push_bit sh (c AND 0x7f)"
    using "1.prems" by (intro uleb_step) simp_all
  show ?case
  proof (cases "drop_bit 7 c = 0")
    case True
    with "1.prems"(1) have rd: "reads_at st [?b]" by (simp add: uleb.simps [of c])
    have "read_uleb st r sh = Inr (r OR push_bit sh (c AND 0x7f), advance st 1)"
      using "1.prems"(3) step
      by (simp add: read_uleb.simps [of st] MSG_ReadByte_at [OF rd] Let_def
          reads_at_good [OF rd] ucast_byte_u32 low7_u32 high_bit_u8 del: push_bit_and)
    with True show ?thesis by (simp add: low7_id uleb.simps [of c])
  next
    case False
    then have enc: "uleb c = (?b OR 0x80) # uleb (drop_bit 7 c)"
      by (subst uleb.simps) simp
    with "1.prems"(1) have rd: "reads_at st [?b OR 0x80]" "reads_at (advance st 1) (uleb (drop_bit 7 c))"
      using reads_at_Cons by simp_all
    have "7 < 31 - sh"
    proof (rule ccontr)
      assume "\<not> 7 < 31 - sh"
      then have "31 - sh \<le> 7" by simp
      with "1.prems"(2) have "fits_in 7 c" by (rule fits_in_mono)
      with False show False by (simp add: fits_in_def)
    qed
    then have "31 - sh = (31 - (sh + 7)) + 7" and less: "sh + 7 < 31" by simp_all
    then have "fits_in (31 - (sh + 7)) (drop_bit 7 c)"
      using "1.prems"(2) by (metis fits_in_drop)
    with less have "read_uleb (advance st 1) (r OR push_bit sh (c AND 0x7f)) (sh + 7)
        = Inr ((r OR push_bit sh (c AND 0x7f)) OR push_bit (sh + 7) (drop_bit 7 c),
               advance (advance st 1) (length (uleb (drop_bit 7 c))))"
      using False rd(2) by (intro "1.IH") simp_all
    moreover have "read_uleb st r sh
        = read_uleb (advance st 1) (r OR push_bit sh (c AND 0x7f)) (sh + 7)"
      using "1.prems"(3) step
      by (simp add: read_uleb.simps [of st] MSG_ReadByte_at [OF rd(1)] Let_def
          reads_at_good [OF rd(1)] ucast_byte_u32 low7_u32 high_bit_u8 del: push_bit_and)
    ultimately show ?thesis
      by (simp only: or.assoc split_low7 advance_simps enc length_Cons plus_1_eq_Suc)
  qed
qed

interpretation uleb: msg_codec MSG_WriteULEB128 MSG_ReadULEB128 uleb "fits_in 31"
proof (unfold_locales, goal_cases)
  case (1 v b)
  then show ?case by (simp add: MSG_WriteULEB128_enc)
next
  case (2 v st)
  then show ?case
    using read_uleb_at [of st v 0 0] by (simp add: MSG_ReadULEB128_def)
qed

text \<open>The sign folding of \<open>MSG_WriteSignedQEX\<close> and \<open>MSG_WriteInt64\<close> loses nothing.\<close>

lemma minus_one_minus: "- 1 - (c :: 'a::len word) = NOT c"
  by (simp add: not_eq_complement)

lemma and_1_neq_0: "(c :: u64) AND 1 \<noteq> 0 \<longleftrightarrow> bit c 0"
  by (simp add: and_one_eq bit_0 odd_iff_mod_2_eq_one)

lemma unzigzag_zigzag: "unzigzag (zigzag c) = c"
proof (cases "sint c < 0")
  case True
  then have sign: "bit c 63" using bit_last_iff [of c] by simp
  have "bit (zigzag c) 0" using True by (simp add: zigzag_def bit_simps)
  then have "unzigzag (zigzag c) = NOT (drop_bit 1 (zigzag c))"
    by (simp add: unzigzag_def and_1_neq_0 minus_one_minus)
  also have "\<dots> = c"
    using True sign
    apply (simp only: zigzag_def if_True minus_one_minus)
    apply (rule bit_word_eqI)
    subgoal for n
      unfolding bit_not_iff bit_drop_bit_eq bit_or_iff bit_push_bit_iff bit_1_iff comp_def
      by (cases "n = 63") auto
    done
  finally show ?thesis .
next
  case False
  then have sign: "\<not> bit c 63" using bit_last_iff [of c] by simp
  have "\<not> bit (zigzag c) 0" 
    using False by (simp only: zigzag_def if_False bit_push_bit_iff) simp
  then have "unzigzag (zigzag c) = drop_bit 1 (zigzag c)"
    by (simp add: unzigzag_def and_1_neq_0)
  also have "\<dots> = c"
    using False sign
    apply (simp only: zigzag_def if_False)
    apply (rule bit_word_eqI)
    subgoal for n
      unfolding bit_drop_bit_eq bit_push_bit_iff comp_def by (cases "n = 63") auto
    done
  finally show ?thesis .
qed

interpretation qex: msg_codec MSG_WriteSignedQEX MSG_ReadSignedQEX "\<lambda>c. uleb (zigzag c)"
    "\<lambda>c. fits_in 31 (zigzag c)"
proof (unfold_locales, goal_cases)
  case (1 v b)
  then show ?case by (simp add: MSG_WriteSignedQEX_def uleb.wr_enc)
next
  case (2 v st)
  then show ?case
    by (simp add: MSG_ReadSignedQEX_def uleb.rd_enc [of "zigzag v"] unzigzag_zigzag)
qed

end
