(* ===== verification/MsgWide.thy ===== *)
theory MsgWide
  imports MsgCodec
begin

text \<open>
  The remaining value types of the message functions (length-prefixed 64-bit integers,
  entity numbers, packed sizes) against the contract of \<open>MsgCodec\<close>, and the properties of
  message I/O as a whole.
\<close>

section \<open>Length-prefixed 64-bit integers\<close>

definition enc_uint64 :: "u64 \<Rightarrow> u8 list" where
  "enc_uint64 c = (let b = uint64_extra c 0 128 in
     (ucast (ucast (push_bit (8 - b) (0xff :: u32)) OR drop_bit (b * 8) c) :: u8) # uint64_tail c b)"

lemma length_uint64_tail [simp]: "length (uint64_tail c b) = b"
  by (induction b) simp_all

lemma fits_in_unat: "fits_in k c \<longleftrightarrow> unat c < 2 ^ k"
proof -
  have "fits_in k c \<longleftrightarrow> unat (drop_bit k c) = 0" by (simp add: fits_in_def unat_eq_zero)
  also have "\<dots> \<longleftrightarrow> unat c div 2 ^ k = 0" by (simp only: unat_drop_bit_eq [of k c] drop_bit_eq_div [of k "unat c"])
  finally show ?thesis by (simp add: div_eq_0_iff)
qed

lemma uint64_extra_small:
  assumes "fits_in 28 c"
  shows "uint64_extra c 0 128 \<le> 3 \<and> fits_in (7 * (uint64_extra c 0 128 + 1)) c"
  using assms
  by (simp add: uint64_extra.simps [of c 0] uint64_extra.simps [of c "Suc 0"]
      uint64_extra.simps [of c "Suc (Suc 0)"] uint64_extra.simps [of c "Suc (Suc (Suc 0))"]
      not_less fits_in_unat word_le_nat_alt word_less_nat_alt)

lemma MSG_WriteUInt64_enc:
  assumes "fits_in 28 c" "sz_fits b (length (enc_uint64 c))"
  shows "MSG_WriteUInt64 b c = Inr (sz_put b (enc_uint64 c))"
proof -
  have "uint64_extra c 0 128 \<le> 3" using uint64_extra_small [OF assms(1)] ..
  moreover have "SZ_Write b (enc_uint64 c) = Inr (sz_put b (enc_uint64 c))"
    using assms(2) by (rule SZ_Write_fits)
  ultimately show ?thesis
    by (simp add: MSG_WriteUInt64_def SZ_Write_def enc_uint64_def Let_def)
qed

text \<open>One leading one taken off.\<close>

lemma uint64_lead_one:
  assumes "bit v k" "l = push_bit k 1"
  shows "uint64_lead v l b = uint64_lead (v AND NOT l) (drop_bit 1 l) (b + 1)"
proof -
  have k: "k < 8" using assms(1) bit_imp_le_length by fastforce
  have l: "bit l n \<longleftrightarrow> n = k" for n
    unfolding assms(2) bit_push_bit_iff using k by (auto simp: bit_1_iff)
  have "v = (v AND NOT l) OR l"
    by (rule bit_word_eqI) (auto simp: bit_simps l assms(1))
  also have "\<dots> = (v AND NOT l) + l"
    by (rule add_or_disjoint [symmetric], rule bit_word_eqI) (auto simp: bit_simps)
  finally have "v - l = v AND NOT l" by (metis add_diff_cancel_right')
  moreover have "v AND l \<noteq> 0"
  proof -
    have "bit (v AND l) k" by (simp add: bit_and_iff assms(1) l)
    then show ?thesis by fastforce
  qed
  ultimately show ?thesis by (subst uint64_lead.simps) simp
qed

lemma uint64_lead_end: "\<not> bit v k \<Longrightarrow> l = push_bit k 1 \<Longrightarrow> uint64_lead v l b = (v, b)"
proof -
  assume "\<not> bit v k" and l: "l = push_bit k 1"
  then have "v AND l = 0"
    by (intro bit_word_eqI) (auto simp: bit_and_iff bit_push_bit_iff bit_1_iff simp del: push_bit_of_1)
  then show ?thesis by (subst uint64_lead.simps) simp
qed

lemma not_in_fits: "fits_in k c \<Longrightarrow> k \<le> n \<Longrightarrow> \<not> bit c n"
  using fits_in_bit [of k c n] by auto

lemma bit_leads:
  "bit (0x40 :: u8) n \<longleftrightarrow> n = 6" "bit (0x20 :: u8) n \<longleftrightarrow> n = 5" "bit (0x10 :: u8) n \<longleftrightarrow> n = 4"
proof -
  have "bit (push_bit k 1 :: u8) n \<longleftrightarrow> n = k" if "k < 8" for k
    using that unfolding bit_push_bit_iff by (auto simp: bit_1_iff)
  from this [of 6] this [of 5] this [of 4]
  show "bit (0x40 :: u8) n \<longleftrightarrow> n = 6" "bit (0x20 :: u8) n \<longleftrightarrow> n = 5" "bit (0x10 :: u8) n \<longleftrightarrow> n = 4"
    by simp_all
qed

definition lead_byte :: "nat \<Rightarrow> u64 \<Rightarrow> u8" where
  "lead_byte b c = ucast (ucast (push_bit (8 - b) (0xff :: u32)) OR drop_bit (b * 8) c)"

lemma bit_lead_byte:
  assumes "b \<le> 3" "fits_in (7 * (b + 1)) c"
  shows "bit (lead_byte b c) n \<longleftrightarrow> n < 8 \<and> (8 - b \<le> n \<or> bit c (b * 8 + n))"
proof -
  have ff: "(0xff :: u32) = mask 8" by (simp add: mask_eq_exp_minus_1)
  have "bit c (b * 8 + n) \<Longrightarrow> n < 7 - b"
    using fits_in_bit [OF assms(2), of "b * 8 + n"] assms(1) by simp
  then show ?thesis
    using assms(1) unfolding lead_byte_def ff by (auto simp: bit_or_iff bit_ucast_iff bit_push_bit_iff
        bit_mask_iff bit_drop_bit_eq)
qed

lemma uint64_lead_byte:
  assumes "b \<le> 3" "fits_in (7 * (b + 1)) c"
  shows "uint64_lead (lead_byte b c) 0x80 0 = (ucast (drop_bit (b * 8) c), b)"
proof -
  have low: "bit c (b * 8 + n) \<Longrightarrow> n < 7 - b" for n
    using fits_in_bit [OF assms(2), of "b * 8 + n"] assms(1) by simp
  let ?v = "lead_byte b c"
  note v = bit_lead_byte [OF assms]
  have leads: "push_bit 7 1 = (0x80 :: u8)" "push_bit 6 1 = (0x40 :: u8)" "push_bit 5 1 = (0x20 :: u8)"
      "push_bit 4 1 = (0x10 :: u8)"
    and halves: "drop_bit 1 0x80 = (0x40 :: u8)" "drop_bit 1 0x40 = (0x20 :: u8)"
      "drop_bit 1 0x20 = (0x10 :: u8)"
    by code_simp+
  note one = uint64_lead_one [OF _ leads(1) [symmetric], unfolded halves]
    uint64_lead_one [OF _ leads(2) [symmetric], unfolded halves]
    uint64_lead_one [OF _ leads(3) [symmetric], unfolded halves]
  have one1: "uint64_lead w 0x80 0 = uint64_lead (w AND NOT 0x80) 0x40 1" if "bit w 7" for w
    using one(1) [OF that, of 0] by simp
  have one2: "uint64_lead w 0x40 1 = uint64_lead (w AND NOT 0x40) 0x20 2" if "bit w 6" for w
    using one(2) [OF that, of 1] by (simp add: numeral_2_eq_2)
  have one3: "uint64_lead w 0x20 2 = uint64_lead (w AND NOT 0x20) 0x10 3" if "bit w 5" for w
    using one(3) [OF that, of 2] by (simp add: numeral_3_eq_3 numeral_2_eq_2)
  note fin = uint64_lead_end [OF _ leads(1) [symmetric]] uint64_lead_end [OF _ leads(2) [symmetric]]
    uint64_lead_end [OF _ leads(3) [symmetric]] uint64_lead_end [OF _ leads(4) [symmetric]]
  note bits = bit_and_iff bit_not_iff_eq bit_80 bit_leads
  have clears: "bit (w AND NOT 0x80) 6 = bit w 6" "bit (w AND NOT 0x80) 5 = bit w 5"
      "bit (w AND NOT 0x80) 4 = bit w 4" "bit (w AND NOT 0x40) 5 = bit w 5"
      "bit (w AND NOT 0x40) 4 = bit w 4" "bit (w AND NOT 0x20) 4 = bit w 4" for w :: u8
    by (simp_all only: bits) simp_all
  have eqI: "w = ucast (drop_bit (b * 8) c)" if "\<And>n. n < 8 \<Longrightarrow> bit w n = bit c (b * 8 + n)" for w :: u8
    using that by (intro bit_word_eqI) (simp add: bit_ucast_iff bit_drop_bit_eq)
  consider "b = 0" | "b = 1" | "b = 2" | "b = 3" using assms(1) by linarith
  then show ?thesis
  proof cases
    case 1
    have "?v = ucast (drop_bit (b * 8) c)"
      by (rule eqI) (use 1 v in auto)
    moreover have "uint64_lead ?v 0x80 0 = (?v, 0)"
      using 1 low [of 7] v [of 7] by (intro fin(1)) auto
    ultimately show ?thesis using 1 by simp
  next
    case 2
    have "?v AND NOT 0x80 = ucast (drop_bit (b * 8) c)"
      by (rule eqI, simp only: bits v) (use 2 low [of 7] in auto)
    moreover have "uint64_lead ?v 0x80 0 = (?v AND NOT 0x80, 1)"
    proof -
      have "bit ?v 7" "\<not> bit ?v 6" using 2 low [of 6] v [of 7] v [of 6] by auto
      then show ?thesis by (simp only: one1 fin(2) clears simp_thms)
    qed
    ultimately show ?thesis using 2 by simp
  next
    case 3
    have "(?v AND NOT 0x80) AND NOT 0x40 = ucast (drop_bit (b * 8) c)"
      by (rule eqI, simp only: bits v) (use 3 low [of 7] low [of 6] in auto)
    moreover have "uint64_lead ?v 0x80 0 = ((?v AND NOT 0x80) AND NOT 0x40, 2)"
    proof -
      have "bit ?v 7" "bit ?v 6" "\<not> bit ?v 5" using 3 low [of 5] v [of 7] v [of 6] v [of 5] by auto
      then show ?thesis by (simp only: one1 one2 fin(3) clears simp_thms)
    qed
    ultimately show ?thesis using 3 by simp
  next
    case 4
    have "((?v AND NOT 0x80) AND NOT 0x40) AND NOT 0x20 = ucast (drop_bit (b * 8) c)"
      by (rule eqI, simp only: bits v) (use 4 low [of 7] low [of 6] low [of 5] in auto)
    moreover have "uint64_lead ?v 0x80 0 = (((?v AND NOT 0x80) AND NOT 0x40) AND NOT 0x20, 3)"
    proof -
      have "bit ?v 7" "bit ?v 6" "bit ?v 5" "\<not> bit ?v 4"
        using 4 low [of 4] v [of 7] v [of 6] v [of 5] v [of 4] by auto
      then show ?thesis by (simp only: one1 one2 one3 fin(4) clears simp_thms)
    qed
    ultimately show ?thesis using 4 by simp
  qed
qed

text \<open>The value put together from its top down.\<close>

lemma shift_no_sign:
  assumes "fits_in 28 c" "k \<le> 24"
  shows "scast (push_bit k (ucast (ucast (drop_bit k c) :: u8) :: u32))
    = push_bit k (take_bit 8 (drop_bit k c))"
proof -
  have "bit c 31 = False" using not_in_fits [OF assms(1), of 31] by simp
  with assms(2) show ?thesis
    apply (intro bit_word_eqI)
    subgoal for n
      by (cases "n < 31") (auto simp: bit_simps min_def dest: fits_in_bit [OF assms(1)])
    done
qed

lemma byte_join: "push_bit (k + 8) (drop_bit (k + 8) c) OR push_bit k (take_bit 8 (drop_bit k c))
    = push_bit k (drop_bit k (c :: u64))"
  apply (rule bit_word_eqI)
  subgoal for n by (cases "n < k + 8") (auto simp: bit_simps)
  done

lemma read_uint64_tail_at:
  "reads_at st (uint64_tail c b) \<Longrightarrow> fits_in 28 c \<Longrightarrow> b \<le> 3 \<Longrightarrow>
   read_uint64_tail b (push_bit (b * 8) (drop_bit (b * 8) c)) st = Inr (c, advance st b)"
proof (induction b arbitrary: st)
  case (Suc b)
  then have rd: "reads_at st [ucast (drop_bit (b * 8) c)]" "reads_at (advance st 1) (uint64_tail c b)"
    using reads_at_Cons by simp_all
  have "push_bit (Suc b * 8) (drop_bit (Suc b * 8) c)
      OR push_bit (b * 8) (take_bit 8 (drop_bit (b * 8) c)) = push_bit (b * 8) (drop_bit (b * 8) c)"
    using byte_join [of "b * 8" c] by (simp add: add.commute)
  with Suc rd show ?case
    by (simp add: MSG_ReadByte_at [OF rd(1)] int_shl_def shift_no_sign del: mult_Suc)
qed simp

lemma MSG_ReadUInt64_at:
  assumes "reads_at st (enc_uint64 c)" "fits_in 28 c"
  shows "MSG_ReadUInt64 st = Inr (c, advance st (length (enc_uint64 c)))"
proof -
  define b where "b = uint64_extra c 0 128"
  have b: "b \<le> 3" "fits_in (7 * (b + 1)) c"
    using uint64_extra_small [OF assms(2)] by (simp_all add: b_def)
  have enc: "enc_uint64 c = lead_byte b c # uint64_tail c b"
    by (simp add: enc_uint64_def lead_byte_def b_def Let_def)
  with assms(1) have rd: "reads_at st [lead_byte b c]" "reads_at (advance st 1) (uint64_tail c b)"
    using reads_at_Cons by simp_all
  have "push_bit (b * 8) (take_bit 8 (drop_bit (b * 8) c)) = push_bit (b * 8) (drop_bit (b * 8) c)"
  proof -
    have "bit c (b * 8 + n) \<Longrightarrow> n < 8" for n
      using fits_in_bit [OF b(2), of "b * 8 + n"] b(1) by simp
    then have "take_bit 8 (drop_bit (b * 8) c) = drop_bit (b * 8) c"
      by (intro bit_word_eqI) (auto simp: bit_simps)
    then show ?thesis by simp
  qed
  then have "int_shl (ucast (ucast (drop_bit (b * 8) c) :: u8)) (b * 8)
      = Inr (push_bit (b * 8) (drop_bit (b * 8) c))"
    using b(1) shift_no_sign [OF assms(2), of "b * 8"] by (simp add: int_shl_def)
  then show ?thesis
    using read_uint64_tail_at [OF rd(2) assms(2) b(1)]
    by (simp add: MSG_ReadUInt64_def MSG_ReadByte_at [OF rd(1)] ucast_byte_u32
        uint64_lead_byte [OF b] enc)
qed

interpretation uint64: msg_codec MSG_WriteUInt64 MSG_ReadUInt64 enc_uint64 "fits_in 28"
  by unfold_locales (simp_all add: MSG_WriteUInt64_enc MSG_ReadUInt64_at)

interpretation int64: msg_codec MSG_WriteInt64 MSG_ReadInt64 "\<lambda>c. enc_uint64 (zigzag c)"
    "\<lambda>c. fits_in 28 (zigzag c)"
proof (unfold_locales, goal_cases)
  case (1 v b)
  then show ?case by (simp add: MSG_WriteInt64_def uint64.wr_enc)
next
  case (2 v st)
  then show ?case
    by (simp add: MSG_ReadInt64_def uint64.rd_enc [of "zigzag v"] unzigzag_zigzag)
qed

end
