(* ===== verification/MsgProps.thy ===== *)
theory MsgProps
  imports MsgWide
begin

text \<open>
  Entity numbers and packed sizes, the safety of the readers on hostile messages, the
  behaviour of a buffer that is full, and the properties of message I/O as a whole.
\<close>

section \<open>Entity numbers\<close>

definition enc_entity :: "u32 \<Rightarrow> u8 list" where
  "enc_entity e = (if e \<ge> 0x8000 then enc16 (drop_bit 8 e OR 0x8000) @ [ucast e] else enc16 e)"

lemma MSG_WriteEntity_enc:
  assumes "e \<le> MAX_EDICTS" "sz_fits b (length (enc_entity e))"
  shows "MSG_WriteEntity b e = Inr (sz_put b (enc_entity e))"
proof (cases "e \<ge> 0x8000")
  case True
  let ?h = "drop_bit 8 e OR 0x8000"
  from True assms(2) have "sz_fits b (length (enc16 ?h) + length [ucast e :: u8])"
    by (simp add: enc_entity_def)
  then have "sz_fits b (length (enc16 ?h))" "sz_fits (sz_put b (enc16 ?h)) (length [ucast e :: u8])"
    by (auto intro: sz_fits_le sz_put_fits)
  then show ?thesis
    using True assms(1)
    by (simp add: MSG_WriteEntity_def write_eqs SZ_Write_fits sz_put_append enc_entity_def
        ucast_and_255 not_less)
next
  case False
  with assms show ?thesis
    by (simp add: MSG_WriteEntity_def write_eqs SZ_Write_fits enc_entity_def not_less)
qed

lemma mask_7fff: "(0x7fff :: 'a::len word) = mask 15"
  and mask_8000: "(0x8000 :: 'a::len word) = push_bit 15 1"
  by (simp_all add: mask_eq_exp_minus_1)

lemma bit_8000: "bit (0x8000 :: 'a::len word) n \<longleftrightarrow> n = 15 \<and> 15 < LENGTH('a)"
  unfolding mask_8000 bit_push_bit_iff by (auto simp: bit_1_iff)

lemma small_entity_bits: "(e :: u32) < 0x8000 \<Longrightarrow> bit e n \<Longrightarrow> n < 15"
  using bit_bound [of e n 15] by (simp add: word_less_nat_alt)

lemma edict_bits: "e \<le> MAX_EDICTS \<Longrightarrow> bit e n \<Longrightarrow> n < 22"
  using bit_bound [of e n 22] by (simp add: MAX_EDICTS_def word_le_nat_alt)

lemma short_keeps_small: "e < 0x8000 \<Longrightarrow> (scast (ucast e :: u16) :: u32) = e"
  apply (rule bit_word_eqI)
  subgoal for n
    using small_entity_bits [of e n] small_entity_bits [of e 15]
    by (cases "n < 15") (auto simp: bit_simps min_def)
  done

lemma small_top_clear: "e < 0x8000 \<Longrightarrow> e AND (0x8000 :: u32) = 0"
  by (rule bit_word_eqI) (auto simp only: bit_and_iff bit_8000 bit_0_eq bot_apply bot_bool_def
      dest: small_entity_bits)

lemma big_entity_bits:
  assumes "e \<le> MAX_EDICTS"
  defines "num \<equiv> scast (ucast (drop_bit 8 e OR 0x8000 :: u32) :: u16) :: u32"
  shows "num AND 0x8000 \<noteq> 0"
    and "push_bit 8 (num AND 0x7fff) OR ucast (ucast e :: u8) = e"
proof -
  have num: "n < 15 \<Longrightarrow> bit num n = bit e (n + 8)" "bit num 15" for n
    unfolding num_def bit_signed_iff bit_ucast_iff bit_or_iff bit_8000 bit_drop_bit_eq
    by (auto simp: min_def add.commute)
  have "bit (num AND 0x8000) 15" by (simp only: bit_and_iff bit_8000 num) simp
  then show "num AND 0x8000 \<noteq> 0" by fastforce
  show "push_bit 8 (num AND 0x7fff) OR ucast (ucast e :: u8) = e"
    unfolding mask_7fff
    apply (rule bit_word_eqI)
    subgoal for n
      using num(1) [of "n - 8"] edict_bits [OF assms(1), of n]
      by (cases "n < 8"; cases "n < 23") (auto simp: bit_simps)
    done
qed

lemma MSG_ReadBigEntity_at:
  assumes "e \<le> MAX_EDICTS" "reads_at st (enc_entity e)"
  shows "MSG_ReadBigEntity st = Inr (e, advance st (length (enc_entity e)))"
proof (cases "e \<ge> 0x8000")
  case True
  let ?h = "drop_bit 8 e OR 0x8000"
  from True assms(2) have "reads_at st (enc16 ?h @ [ucast e])" by (simp add: enc_entity_def)
  note rd = reads_at_append [OF this]
  show ?thesis
    using True big_entity_bits [OF assms(1)] rd(2)
    by (simp add: MSG_ReadBigEntity_def MSG_ReadShort_at [OF rd(1)] MSG_ReadByte_at enc_entity_def)
next
  case False
  then have small: "e < 0x8000" by simp
  with assms(2) have rd: "reads_at st (enc16 e)" by (simp add: enc_entity_def not_le [symmetric])
  show ?thesis
    using False
    by (simp add: MSG_ReadBigEntity_def MSG_ReadShort_at [OF rd] short_keeps_small [OF small]
        small_top_clear [OF small] enc_entity_def)
qed

interpretation entity: msg_codec MSG_WriteEntity MSG_ReadBigEntity enc_entity "\<lambda>e. e \<le> MAX_EDICTS"
  by unfold_locales (simp_all add: MSG_WriteEntity_enc MSG_ReadBigEntity_at)

text \<open>A server command: its byte, then its text.\<close>

interpretation command: msg_codec_pair MSG_WriteByte MSG_ReadByte "\<lambda>c. [ucast c]" is_byte
    "\<lambda>b s. MSG_WriteString b (Some s)" MSG_ReadString "\<lambda>s. s @ [0]" is_cstring
  by unfold_locales

text \<open>An entity number and the bits of a coordinate.\<close>

interpretation placed: msg_codec_pair MSG_WriteEntity MSG_ReadBigEntity enc_entity
    "\<lambda>e. e \<le> MAX_EDICTS" MSG_WriteFloat MSG_ReadFloat le32 "\<lambda>c. True"
  by unfold_locales

section \<open>Reading hostile messages\<close>

text \<open>
  A byte-packed message whose reading position lies inside it.  The contract of a reader:
  from such a state it returns, whatever the bytes are, and leaves such a state, with the
  message untouched and the position moved forward only.
\<close>

definition msg_ok :: "msgstate \<Rightarrow> bool" where
  "msg_ok st \<longleftrightarrow> packing (net_message st) = SZ_RAWBYTES \<and> 0 \<le> msg_readcount st
     \<and> msg_readcount st \<le> cursize (net_message st)
     \<and> cursize (net_message st) \<le> int (length (msg_data st))"

definition msg_step :: "msgstate \<Rightarrow> msgstate \<Rightarrow> bool" where
  "msg_step st st' \<longleftrightarrow> msg_ok st' \<and> net_message st' = net_message st
     \<and> msg_readcount st \<le> msg_readcount st' \<and> (msg_badread st \<longrightarrow> msg_badread st')"

lemma msg_step_ok: "msg_step st st' \<Longrightarrow> msg_ok st'"
  by (simp add: msg_step_def)

lemma msg_step_refl: "msg_ok st \<Longrightarrow> msg_step st st"
  by (simp add: msg_step_def)

lemma msg_step_trans: "msg_step st st' \<Longrightarrow> msg_step st' st'' \<Longrightarrow> msg_step st st''"
  by (auto simp: msg_step_def)

lemma msg_step_bad: "msg_ok st \<Longrightarrow> msg_step st (st\<lparr>msg_badread := True\<rparr>)"
  by (simp add: msg_step_def msg_ok_def msg_data_def)

lemma read_bytes_safe: "msg_ok st \<Longrightarrow> \<exists>v st'. read_bytes n bad f st = Inr (v, st') \<and> msg_step st st'"
  by (auto simp: read_bytes_def slice_def msg_step_def msg_ok_def msg_data_def)

locale msg_reader =
  fixes rd :: "msgstate \<Rightarrow> ('a \<times> msgstate) res"
  assumes safe: "msg_ok st \<Longrightarrow> \<exists>v st'. rd st = Inr (v, st') \<and> msg_step st st'"
begin

lemma safeE:
  assumes "msg_ok st"
  obtains v st' where "rd st = Inr (v, st')" "msg_step st st'" "msg_ok st'"
  using safe [OF assms] msg_step_ok by auto

lemma read_all_safe:
  "msg_ok st \<Longrightarrow> \<exists>vs st'. read_all rd n st = Inr (vs, st') \<and> length vs = n \<and> msg_step st st'"
proof (induction n arbitrary: st)
  case 0
  then show ?case by (simp add: msg_step_refl)
next
  case (Suc n)
  obtain v st' where v: "rd st = Inr (v, st')" "msg_step st st'" "msg_ok st'"
    using Suc.prems by (rule safeE)
  obtain vs st'' where "read_all rd n st' = Inr (vs, st'')" "length vs = n" "msg_step st' st''"
    using Suc.IH [OF v(3)] by blast
  with v show ?case by (auto intro: msg_step_trans)
qed

end

lemma msg_okD: "msg_ok st \<Longrightarrow> packing (net_message st) = SZ_RAWBYTES"
  by (simp add: msg_ok_def)

interpretation read_byte: msg_reader MSG_ReadByte
  by unfold_locales (simp add: MSG_ReadByte_def msg_okD read_bytes_safe)

interpretation read_char: msg_reader MSG_ReadChar
  by unfold_locales (simp add: MSG_ReadChar_def msg_okD read_bytes_safe)

interpretation read_short: msg_reader MSG_ReadShort
  by unfold_locales (simp add: MSG_ReadShort_def msg_okD read_bytes_safe)

interpretation read_long: msg_reader MSG_ReadLong
  by unfold_locales (simp add: MSG_ReadLong_def msg_okD read_bytes_safe)

interpretation read_float: msg_reader MSG_ReadFloat
  by unfold_locales (simp add: MSG_ReadFloat_def msg_okD read_bytes_safe)

interpretation read_double: msg_reader MSG_ReadDouble
  by unfold_locales (simp add: MSG_ReadDouble_def read_bytes_safe)

interpretation read_entity: msg_reader MSG_ReadBigEntity
proof (unfold_locales, goal_cases)
  case (1 st)
  then obtain num st' where num: "MSG_ReadShort st = Inr (num, st')" "msg_step st st'" "msg_ok st'"
    by (rule read_short.safeE)
  obtain b st'' where "MSG_ReadByte st' = Inr (b, st'')" "msg_step st' st''"
    using num(3) by (rule read_byte.safeE)
  with num show ?case by (auto simp: MSG_ReadBigEntity_def intro: msg_step_trans)
qed

lemma ucast_neq_0: "(x :: u32) = scast (c :: u8) \<Longrightarrow> x \<noteq> 0 \<Longrightarrow> (ucast x :: u8) \<noteq> 0"
  by (metis scast_8_eq_0 ucast_scast_8)

lemma MSG_ReadChar_value:
  assumes "msg_ok st" "MSG_ReadChar st = Inr (x, st')"
  shows "\<exists>c. x = scast (c :: u8)"
proof -
  have minus: "(- 1 :: u32) = scast (- 1 :: u8)" by simp
  have "x = - 1 \<or> (\<exists>bs. x = scast (bs ! 0 :: u8))"
    using assms(2) unfolding MSG_ReadChar_def msg_okD [OF assms(1)] read_bytes_def
    by (auto simp: rbind_eq_Inr split: if_splits)
  then show ?thesis unfolding minus by blast
qed

text \<open>
  A character at a time, up to the terminator or the end of the message: what the string
  readers do.
\<close>

lemma read_string_safe:
  "msg_ok st \<Longrightarrow> length acc \<le> 65535 \<Longrightarrow> 0 \<notin> set acc \<Longrightarrow>
   \<exists>s st'. read_string st acc = Inr (s, st') \<and> 0 \<notin> set s \<and> length s \<le> 65535 \<and> msg_step st st'"
proof (induction st acc rule: read_string.induct)
  case (1 st acc)
  obtain x st1 where x: "MSG_ReadChar st = Inr (x, st1)" "msg_step st st1" "msg_ok st1"
    using "1.prems"(1) by (rule read_char.safeE)
  let ?bad = "st1\<lparr>msg_badread := True\<rparr>"
  obtain y st2 where y: "MSG_ReadChar ?bad = Inr (y, st2)" "msg_step ?bad st2"
    using msg_step_ok [OF msg_step_bad [OF x(3)]] by (rule read_char.safeE)
  have nz: "x \<noteq> 0 \<Longrightarrow> (ucast x :: u8) \<noteq> 0"
    using MSG_ReadChar_value [OF "1.prems"(1) x(1)] ucast_neq_0 by blast
  consider "msg_badread st1 \<or> x = 0" | "\<not> (msg_badread st1 \<or> x = 0)" "length acc < 65535"
    | "\<not> (msg_badread st1 \<or> x = 0)" "\<not> length acc < 65535" by blast
  then show ?case
  proof cases
    case 1
    then show ?thesis using "1.prems" x by (subst read_string.simps) simp
  next
    case 2
    have "\<exists>s st'. read_string st1 (acc @ [ucast x]) = Inr (s, st') \<and> 0 \<notin> set s
        \<and> length s \<le> 65535 \<and> msg_step st1 st'"
      using "1.IH" [OF x(1)] 2 "1.prems" x(3) nz by auto
    then show ?thesis using 2 x by (subst read_string.simps) (auto intro: msg_step_trans)
  next
    case 3
    have "msg_step st st2"
      using x(2) msg_step_bad [OF x(3)] y(2) by (blast intro: msg_step_trans)
    then show ?thesis using 3 x y "1.prems" by (subst read_string.simps) simp
  qed
qed

interpretation read_str: msg_reader MSG_ReadString
proof (unfold_locales, goal_cases)
  case (1 st)
  then show ?case using read_string_safe [of st "[]"] by (auto simp: MSG_ReadString_def)
qed

lemma read_string_line_safe:
  "msg_ok st \<Longrightarrow> length acc < 2047 \<Longrightarrow>
   \<exists>s st'. read_string_line st acc = Inr (s, st') \<and> length s \<le> 2047 \<and> msg_step st st'"
proof (induction st acc rule: read_string_line.induct)
  case (1 st acc)
  obtain x st1 where x: "MSG_ReadChar st = Inr (x, st1)" "msg_step st st1" "msg_ok st1"
    using "1.prems"(1) by (rule read_char.safeE)
  show ?case
  proof (cases "\<not> (msg_badread st1 \<or> x = 0 \<or> x = 10) \<and> length acc + 1 < 2047")
    case True
    then have "\<exists>s st'. read_string_line st1 (acc @ [ucast x]) = Inr (s, st')
        \<and> length s \<le> 2047 \<and> msg_step st1 st'"
      using "1.IH" [OF x(1)] x(3) by auto
    with True x show ?thesis by (subst read_string_line.simps) (auto intro: msg_step_trans)
  next
    case False
    with x "1.prems" show ?thesis by (subst read_string_line.simps) auto
  qed
qed

interpretation read_line: msg_reader MSG_ReadStringLine
proof (unfold_locales, goal_cases)
  case (1 st)
  then show ?case using read_string_line_safe [of st "[]"] by (auto simp: MSG_ReadStringLine_def)
qed

section \<open>Full buffers\<close>

definition sz_ok :: "sizebuf \<Rightarrow> bool" where
  "sz_ok b \<longleftrightarrow> 0 \<le> cursize b \<and> cursize b \<le> maxsize b \<and> maxsize b = int (length (data b))"

lemma SZ_Write_cases:
  assumes "sz_ok b" "int (length bs) \<le> maxsize b"
  shows "SZ_Write b bs =
    (if cursize b + int (length bs) \<le> maxsize b then Inr (sz_put b bs)
     else if allowoverflow b then Inr (sz_put ((SZ_Clear b)\<lparr>overflowed := True\<rparr>) bs)
     else Inl (Sys_Error ''SZ_GetSpace''))"
proof -
  let ?c = "(SZ_Clear b)\<lparr>overflowed := True\<rparr>"
  have "sz_fits ?c (length bs)" using assms by (simp add: sz_fits_def sz_ok_def SZ_Clear_def)
  then have c: "SZ_Write ?c bs = Inr (sz_put ?c bs)" by (rule SZ_Write_fits)
  show ?thesis
  proof (cases "cursize b + int (length bs) \<le> maxsize b")
    case True
    with assms(1) have "sz_fits b (length bs)" by (simp add: sz_ok_def sz_fits_def)
    with True show ?thesis by (simp add: SZ_Write_fits)
  next
    case False
    moreover have "SZ_GetSpace ?c (int (length bs)) = Inr (0, ?c\<lparr>cursize := int (length bs)\<rparr>)"
      using assms(2) by (simp add: SZ_GetSpace_def SZ_Clear_def)
    ultimately show ?thesis
      using c by (simp add: SZ_Write_def SZ_GetSpace_def SZ_Clear_def Let_def)
  qed
qed

lemma SZ_Write_outcome:
  assumes "sz_ok b"
  shows "SZ_Write b bs = Inl OutOfBounds \<longleftrightarrow> allowoverflow b \<and> maxsize b < int (length bs)"
    and "SZ_Write b bs = Inr b' \<Longrightarrow> sz_ok b'"
    and "SZ_Write b bs = Inr b' \<Longrightarrow>
      contents b' = (if cursize b + int (length bs) \<le> maxsize b then contents b @ bs else bs)"
proof -
  let ?c = "(SZ_Clear b)\<lparr>overflowed := True\<rparr>"
  have long: "SZ_Write b bs = (if allowoverflow b then Inl OutOfBounds else Inl (Sys_Error ''SZ_GetSpace''))"
    if "maxsize b < int (length bs)"
    using that assms
    by (simp add: SZ_Write_def SZ_GetSpace_def SZ_Clear_def Let_def sz_ok_def sz_store_def poke_def)
  have put: "sz_ok (sz_put d bs) \<and> contents (sz_put d bs) = contents d @ bs"
    if "sz_fits d (length bs)" "maxsize d = int (length (data d))" for d
    using that length_data_sz_put [of d bs] contents_sz_put [of d bs]
    by (simp add: sz_ok_def sz_fits_def)
  have fits: "sz_fits b (length bs)" if "cursize b + int (length bs) \<le> maxsize b"
    using assms that by (simp add: sz_ok_def sz_fits_def)
  have c: "contents ?c = []" "sz_fits ?c (length bs)" "maxsize ?c = int (length (data ?c))"
    if "\<not> maxsize b < int (length bs)"
    using assms that by (simp_all add: contents_def sz_fits_def sz_ok_def SZ_Clear_def)
  show "SZ_Write b bs = Inl OutOfBounds \<longleftrightarrow> allowoverflow b \<and> maxsize b < int (length bs)"
    using long SZ_Write_cases [OF assms, of bs] by (cases "maxsize b < int (length bs)") auto
  have "sz_ok b' \<and> contents b'
      = (if cursize b + int (length bs) \<le> maxsize b then contents b @ bs else bs)"
    if "SZ_Write b bs = Inr b'"
  proof (cases "maxsize b < int (length bs)")
    case True
    with that long show ?thesis by (simp split: if_splits)
  next
    case False
    then have "SZ_Write b bs = (if cursize b + int (length bs) \<le> maxsize b then Inr (sz_put b bs)
        else if allowoverflow b then Inr (sz_put ?c bs) else Inl (Sys_Error ''SZ_GetSpace''))"
      using SZ_Write_cases [OF assms, of bs] by simp
    moreover have "sz_ok (sz_put ?c bs) \<and> contents (sz_put ?c bs) = bs"
      using put [OF c(2) c(3)] c(1) False by simp
    moreover have "maxsize b = int (length (data b))" using assms by (simp add: sz_ok_def)
    ultimately show ?thesis using that put [OF fits] by (auto split: if_splits)
  qed
  then show "SZ_Write b bs = Inr b' \<Longrightarrow> sz_ok b'" and "SZ_Write b bs = Inr b' \<Longrightarrow>
      contents b' = (if cursize b + int (length bs) \<le> maxsize b then contents b @ bs else bs)"
    by blast+
qed

section \<open>Packed sizes\<close>

lemma size16_decode_bits:
  assumes "ss \<noteq> 31" "8 \<le> n" "n < 15"
  shows "\<not> bit (size16_decode ss) n"
proof -
  have c: "(0x3E0 :: u32) = push_bit 5 (mask 5)" "(0x1F :: u32) = mask 5"
    by (simp_all add: mask_eq_exp_minus_1)
  have "(ucast ss :: u32) \<noteq> 31"
  proof
    assume "(ucast ss :: u32) = 31"
    then have "(ucast (ucast ss :: u32) :: u16) = 31" by (simp only:) simp
    moreover have "(ucast (ucast ss :: u32) :: u16) = ss"
      by (rule bit_word_eqI) (auto simp: bit_simps)
    ultimately show False using assms(1) by simp
  qed
  with assms(2,3) show ?thesis
    unfolding size16_decode_def Let_def ES_SOLID_BSP_def c
    by (auto simp: bit_simps)
qed

section \<open>The properties of message I/O\<close>

text \<open>Fresh storage of \<open>n\<close> bytes, for the examples.\<close>

definition new_buffer :: "bool \<Rightarrow> nat \<Rightarrow> sizebuf" where
  "new_buffer ovf n = \<lparr>allowoverflow = ovf, overflowed = False, data = replicate n 0,
     maxsize = int n, cursize = 0, packing = SZ_RAWBYTES, currentbit = 0,
     prim = \<lparr>coordtype = 0, anglesize = 0, primflags = 0\<rparr>\<rparr>"

lemma new_buffer_simps [simp]:
  "cursize (new_buffer v n) = 0" "maxsize (new_buffer v n) = int n"
  "length (data (new_buffer v n)) = n" "allowoverflow (new_buffer v n) = v"
  "sz_fits (new_buffer v n) m \<longleftrightarrow> m \<le> n" "sz_ok (new_buffer v n)"
  by (auto simp: new_buffer_def sz_fits_def sz_ok_def)

lemma contents_new [simp]: "contents (new_buffer v n) = []"
  by (simp add: contents_def)

text \<open>
  C3.  A message made of commands, each a byte and a text, is read back command by
  command: whatever the bytes and the texts, when they fit the buffer, the writers append
  exactly their encoding and the readers, set on the message, return the same commands in
  the same order and stop at its end.
\<close>

theorem msg_commands_roundtrip:
  assumes "list_all (\<lambda>v. is_byte (fst v) \<and> is_cstring (snd v)) vs"
    and "sz_fits b (length (concat (map (\<lambda>v. [ucast (fst v)] @ snd v @ [0]) vs)))"
  shows "\<exists>b'. write_all (write_pair MSG_WriteByte (\<lambda>b s. MSG_WriteString b (Some s))) b vs = Inr b'
     \<and> contents b' = contents b @ concat (map (\<lambda>v. [ucast (fst v)] @ snd v @ [0]) vs)
     \<and> read_all (read_pair MSG_ReadByte MSG_ReadString) (length vs) (receiver b' (cursize b) hf)
       = Inr (vs, receiver b' (cursize b') hf)"
  using assms by (rule command.pair.roundtrip)

theorem msg_commands_roundtrip_witness:
  "\<forall>hf. \<exists>b'. write_all (write_pair MSG_WriteByte (\<lambda>b s. MSG_WriteString b (Some s))) (new_buffer False 16) [(9, [104, 105]), (8, [])] = Inr b'
     \<and> contents b' = [9, 104, 105, 0, 8, 0]
     \<and> read_all (read_pair MSG_ReadByte MSG_ReadString) 2 (receiver b' 0 hf) = Inr ([(9, [104, 105]), (8, [])], receiver b' (cursize b') hf)"
proof
  fix hf
  let ?vs = "[(9 :: u32, [104, 105 :: u8]), (8, [])]"
  have ok: "list_all (\<lambda>v. is_byte (fst v) \<and> is_cstring (snd v)) ?vs"
    by (simp add: is_byte_def is_cstring_def)
  have enc: "concat (map (\<lambda>v. [ucast (fst v)] @ snd v @ [0]) ?vs) = [9, 104, 105, 0, 8, 0]" by code_simp
  have fits: "sz_fits (new_buffer False 16) (length (concat (map (\<lambda>v. [ucast (fst v)] @ snd v @ [0]) ?vs)))"
    unfolding enc by simp
  have len: "length ?vs = 2" by simp
  show "\<exists>b'. write_all (write_pair MSG_WriteByte (\<lambda>b s. MSG_WriteString b (Some s))) (new_buffer False 16) ?vs = Inr b'
     \<and> contents b' = [9, 104, 105, 0, 8, 0]
     \<and> read_all (read_pair MSG_ReadByte MSG_ReadString) 2 (receiver b' 0 hf) = Inr (?vs, receiver b' (cursize b') hf)"
    using msg_commands_roundtrip [OF ok fits, of hf]
    unfolding enc len by (simp only: new_buffer_simps contents_new append_Nil)
qed

text \<open>
  C4.  Entity numbers up to \<open>MAX_EDICTS\<close> survive \<open>MSG_WriteEntity\<close> and
  \<open>MSG_ReadBigEntity\<close>, in two bytes below 0x8000 and in three from there on, also when
  each is followed by the bits of a float.
\<close>

theorem msg_entities_roundtrip:
  assumes "list_all (\<lambda>v. fst v \<le> MAX_EDICTS \<and> True) vs"
    and "sz_fits b (length (concat (map (\<lambda>v. enc_entity (fst v) @ le32 (snd v)) vs)))"
  shows "\<exists>b'. write_all (write_pair MSG_WriteEntity MSG_WriteFloat) b vs = Inr b'
     \<and> contents b' = contents b @ concat (map (\<lambda>v. enc_entity (fst v) @ le32 (snd v)) vs)
     \<and> read_all (read_pair MSG_ReadBigEntity MSG_ReadFloat) (length vs) (receiver b' (cursize b) hf)
       = Inr (vs, receiver b' (cursize b') hf)"
  using assms by (rule placed.pair.roundtrip)

theorem msg_entities_roundtrip_witness:
  "\<forall>hf. \<exists>b'. write_all (write_pair MSG_WriteEntity MSG_WriteFloat) (new_buffer False 32) [(7, 1), (0x12345, 2)] = Inr b'
     \<and> contents b' = [7, 0, 1, 0, 0, 0, 0x23, 0x81, 0x45, 2, 0, 0, 0]
     \<and> read_all (read_pair MSG_ReadBigEntity MSG_ReadFloat) 2 (receiver b' 0 hf) = Inr ([(7, 1), (0x12345, 2)], receiver b' (cursize b') hf)"
proof
  fix hf
  let ?vs = "[(7 :: u32, 1 :: u32), (0x12345, 2)]"
  have ok: "list_all (\<lambda>v. fst v \<le> MAX_EDICTS \<and> True) ?vs" by code_simp
  have enc: "concat (map (\<lambda>v. enc_entity (fst v) @ le32 (snd v)) ?vs) = [7, 0, 1, 0, 0, 0, 0x23, 0x81, 0x45, 2, 0, 0, 0]" by code_simp
  have fits: "sz_fits (new_buffer False 32) (length (concat (map (\<lambda>v. enc_entity (fst v) @ le32 (snd v)) ?vs)))"
    unfolding enc by simp
  have len: "length ?vs = 2" by simp
  show "\<exists>b'. write_all (write_pair MSG_WriteEntity MSG_WriteFloat) (new_buffer False 32) ?vs = Inr b'
     \<and> contents b' = [7, 0, 1, 0, 0, 0, 0x23, 0x81, 0x45, 2, 0, 0, 0]
     \<and> read_all (read_pair MSG_ReadBigEntity MSG_ReadFloat) 2 (receiver b' 0 hf) = Inr (?vs, receiver b' (cursize b') hf)"
    using msg_entities_roundtrip [OF ok fits, of hf]
    unfolding enc len by (simp only: new_buffer_simps contents_new append_Nil)
qed

text \<open>
  C5.  A 64-bit integer below \<open>2 ^ 28\<close> written by \<open>MSG_WriteUInt64\<close>, in one to four bytes,
  is read back by \<open>MSG_ReadUInt64\<close>; so is a sequence of them.
\<close>

theorem msg_uint64_roundtrip:
  assumes "list_all (fits_in 28) vs" and "sz_fits b (length (concat (map enc_uint64 vs)))"
  shows "\<exists>b'. write_all MSG_WriteUInt64 b vs = Inr b'
     \<and> contents b' = contents b @ concat (map enc_uint64 vs)
     \<and> read_all MSG_ReadUInt64 (length vs) (receiver b' (cursize b) hf)
       = Inr (vs, receiver b' (cursize b') hf)"
  using assms by (rule uint64.roundtrip)

theorem msg_uint64_roundtrip_witness:
  "\<forall>hf. \<exists>b'. write_all MSG_WriteUInt64 (new_buffer False 8) [5, 0x4321] = Inr b'
     \<and> contents b' = [5, 0xc0, 0x43, 0x21]
     \<and> read_all MSG_ReadUInt64 2 (receiver b' 0 hf) = Inr ([5, 0x4321], receiver b' (cursize b') hf)"
proof
  fix hf
  let ?vs = "[5 :: u64, 0x4321]"
  have ok: "list_all (fits_in 28) ?vs" by code_simp
  have enc: "concat (map (enc_uint64) ?vs) = [5, 0xc0, 0x43, 0x21]" by code_simp
  have fits: "sz_fits (new_buffer False 8) (length (concat (map (enc_uint64) ?vs)))"
    unfolding enc by simp
  have len: "length ?vs = 2" by simp
  show "\<exists>b'. write_all MSG_WriteUInt64 (new_buffer False 8) ?vs = Inr b'
     \<and> contents b' = [5, 0xc0, 0x43, 0x21]
     \<and> read_all MSG_ReadUInt64 2 (receiver b' 0 hf) = Inr (?vs, receiver b' (cursize b') hf)"
    using msg_uint64_roundtrip [OF ok fits, of hf]
    unfolding enc len by (simp only: new_buffer_simps contents_new append_Nil)
qed

text \<open>
  C6.  The QEX variable-length integers, signed by folding: every value whose folded form
  is below \<open>2 ^ 31\<close> is read back, and so is a sequence of them.
\<close>

theorem msg_qex_roundtrip:
  assumes "list_all (\<lambda>c. fits_in 31 (zigzag c)) vs"
    and "sz_fits b (length (concat (map (\<lambda>c. uleb (zigzag c)) vs)))"
  shows "\<exists>b'. write_all MSG_WriteSignedQEX b vs = Inr b'
     \<and> contents b' = contents b @ concat (map (\<lambda>c. uleb (zigzag c)) vs)
     \<and> read_all MSG_ReadSignedQEX (length vs) (receiver b' (cursize b) hf)
       = Inr (vs, receiver b' (cursize b') hf)"
  using assms by (rule qex.roundtrip)

theorem msg_qex_roundtrip_witness:
  "\<forall>hf. \<exists>b'. write_all MSG_WriteSignedQEX (new_buffer False 8) [- 3, 300] = Inr b'
     \<and> contents b' = [5, 0xd8, 4]
     \<and> read_all MSG_ReadSignedQEX 2 (receiver b' 0 hf) = Inr ([- 3, 300], receiver b' (cursize b') hf)"
proof
  fix hf
  let ?vs = "[- 3 :: u64, 300]"
  have ok: "list_all (\<lambda>c. fits_in 31 (zigzag c)) ?vs" by code_simp
  have enc: "concat (map (\<lambda>c. uleb (zigzag c)) ?vs) = [5, 0xd8, 4]" by code_simp
  have fits: "sz_fits (new_buffer False 8) (length (concat (map (\<lambda>c. uleb (zigzag c)) ?vs)))"
    unfolding enc by simp
  have len: "length ?vs = 2" by simp
  show "\<exists>b'. write_all MSG_WriteSignedQEX (new_buffer False 8) ?vs = Inr b'
     \<and> contents b' = [5, 0xd8, 4]
     \<and> read_all MSG_ReadSignedQEX 2 (receiver b' 0 hf) = Inr (?vs, receiver b' (cursize b') hf)"
    using msg_qex_roundtrip [OF ok fits, of hf]
    unfolding enc len by (simp only: new_buffer_simps contents_new append_Nil)
qed

text \<open>
   From \<open>2 ^ 31\<close> on the variable-length reader does not understand its writer: the
  value \<open>2 ^ 31\<close> is written in five bytes and read back with all the upper bits set,
  because the reader shifts inside an \<open>int\<close>.
\<close>

theorem msg_uleb_wide_sign:
  "\<exists>b. MSG_WriteULEB128 (new_buffer False 8) 0x80000000 = Inr b
     \<and> contents b = [0x80, 0x80, 0x80, 0x80, 8]
     \<and> MSG_ReadULEB128 (receiver b 0 hf) = Inr (0xffffffff80000000, receiver b 5 hf)"
proof -
  let ?b = "(new_buffer False 8)\<lparr>data := [0x80, 0x80, 0x80, 0x80, 8, 0, 0, 0], cursize := 5\<rparr>"
  have "MSG_WriteULEB128 (new_buffer False 8) 0x80000000 = Inr ?b" by code_simp
  moreover have "contents ?b = [0x80, 0x80, 0x80, 0x80, 8]" by code_simp
  moreover have "MSG_ReadULEB128 (receiver ?b 0 hf) = Inr (0xffffffff80000000, receiver ?b 5 hf)"
    by code_simp
  ultimately show ?thesis by blast
qed

text \<open>
  C7.  Reading strings from a hostile message is safe: from any reading position inside a
  byte-packed message, \<open>n\<close> calls of \<open>MSG_ReadString\<close> all return, never read outside the
  storage, leave the message as it was and move the position forward within it.
\<close>

theorem msg_strings_safe:
  assumes "msg_ok st"
  shows "\<exists>ss st'. read_all MSG_ReadString n st = Inr (ss, st') \<and> length ss = n \<and> msg_ok st'
     \<and> net_message st' = net_message st \<and> msg_readcount st \<le> msg_readcount st'"
  using read_str.read_all_safe [OF assms, of n] by (auto simp: msg_step_def)

theorem msg_strings_safe_witness:
  "\<forall>hf. \<exists>ss st'. read_all MSG_ReadString 3 (receiver (new_buffer False 2) 0 hf) = Inr (ss, st')
     \<and> length ss = 3 \<and> msg_ok st' \<and> net_message st' = new_buffer False 2 \<and> 0 \<le> msg_readcount st'"
proof
  fix hf
  have "msg_ok (receiver (new_buffer False 2) 0 hf)"
    by (simp add: msg_ok_def receiver_def msg_data_def)
  from msg_strings_safe [OF this, of 3]
  show "\<exists>ss st'. read_all MSG_ReadString 3 (receiver (new_buffer False 2) 0 hf) = Inr (ss, st')
     \<and> length ss = 3 \<and> msg_ok st' \<and> net_message st' = new_buffer False 2 \<and> 0 \<le> msg_readcount st'"
    by (simp add: receiver_def new_buffer_def)
qed



text \<open>
  The 16-bit packed size cannot carry how far a box extends down: whatever
  \<open>MSG_ReadSize16\<close> has read (31 apart, which means a brush model), bits 8 to 14 of the
  result, where the down extent is kept, are zero.
\<close>

theorem size16_loses_down:
  "ss \<noteq> 31 \<Longrightarrow> drop_bit 8 (size16_decode ss) AND 0x7f = 0"
  unfolding mask_7f using size16_decode_bits [of ss]
  by (intro bit_word_eqI) (auto simp: bit_and_iff bit_drop_bit_eq bit_mask_iff)

theorem size16_loses_down_witness:
  "drop_bit 8 (size16_decode 0x2462) AND 0x7f = 0"
  using size16_loses_down [of "0x2462"] by simp

end
