(* ===== verification/Netchan.thy ===== *)
theory Netchan
  imports MsgProps
begin

text \<open>
  The network channel of \<open>engine/common/net_chan.c\<close>: sequence numbers, the one reliable
  message in flight, the fragmentation extension, and the NetQuake variant with its
  separate acknowledgements.  One \<^typ>\<open>'a res\<close>-valued step per call of the channel.
  Sequence numbers are 32-bit words, sizes are \<^typ>\<open>int\<close>.

  The clock is not part of the state: what the code decides from it (the bytes the rate
  limit leaves, the resend timer of the NetQuake channel) is an input of a call, and the
  floating-point statistics (\<open>frame_latency\<close>, \<open>frame_rate\<close>, \<open>cleartime\<close>,
  \<open>outgoing_time\<close>, \<open>last_received\<close>) are left out.  The socket is an input as well: it
  says for every packet it is given how the sending went; the packets are recorded.
\<close>

section \<open>Byte order\<close>

definition ShortSwap :: "u16 \<Rightarrow> u16" where
  "ShortSwap l = (signed_drop_bit 8 l AND 0x00ff) OR (push_bit 8 l AND 0xff00)"

definition LongSwap :: "u32 \<Rightarrow> u32" where
  "LongSwap l = (sar l 24 AND 0x000000ff) OR (sar l 8 AND 0x0000ff00)
     OR (push_bit 8 l AND 0x00ff0000) OR (push_bit 24 l AND 0xff000000)"

definition I64Swap :: "u64 \<Rightarrow> u64" where
  "I64Swap l = (signed_drop_bit 56 l AND 0x000000ff) OR (signed_drop_bit 40 l AND 0x0000ff00)
     OR (signed_drop_bit 24 l AND 0x00ff0000) OR (signed_drop_bit 8 l AND 0xff000000)
     OR (push_bit 8 l AND 0x000000ff00000000) OR (push_bit 24 l AND 0x0000ff0000000000)
     OR (push_bit 40 l AND 0x00ff000000000000) OR (push_bit 56 l AND 0xff00000000000000)"

lemma byte_masks:
  "(0xff :: 'a::len word) = mask 8" "(0xff00 :: 'a word) = push_bit 8 (mask 8)"
  "(0xff0000 :: 'a word) = push_bit 16 (mask 8)" "(0xff000000 :: 'a word) = push_bit 24 (mask 8)"
  by (simp_all add: mask_eq_exp_minus_1 push_bit_eq_mult)

lemma bit_LongSwap:
  assumes "n < 8"
  shows "bit (LongSwap w) n = bit w (n + 24)" "bit (LongSwap w) (n + 8) = bit w (n + 16)"
    "bit (LongSwap w) (n + 16) = bit w (n + 8)" "bit (LongSwap w) (n + 24) = bit w n"
  using assms unfolding LongSwap_def byte_masks
  by (auto simp: bit_simps min_def add.commute)

lemma le32_LongSwap: "le32 (LongSwap w) = rev (le32 w)"
proof -
  have byte: "(ucast (drop_bit j (LongSwap w)) :: u8) = ucast (drop_bit k w)"
    if "\<And>n. n < 8 \<Longrightarrow> bit (LongSwap w) (n + j) = bit w (n + k)" for j k
    using that by (intro bit_word_eqI) (simp add: bit_ucast_iff bit_drop_bit_eq add.commute)
  have "(ucast (LongSwap w) :: u8) = ucast (drop_bit 24 w)"
    using byte [of 0 24] bit_LongSwap(1) by simp
  moreover have "(ucast (drop_bit 24 (LongSwap w)) :: u8) = ucast w"
    using byte [of 24 0] bit_LongSwap(4) by simp
  ultimately show ?thesis
    using byte [OF bit_LongSwap(2)] byte [OF bit_LongSwap(3)] by (simp add: le32_def)
qed

lemma LongSwap_LongSwap [simp]: "LongSwap (LongSwap w) = w"
proof -
  have "le32 (LongSwap (LongSwap w)) = le32 w" by (simp add: le32_LongSwap)
  then show ?thesis by (simp add: le32_inj)
qed

section \<open>Constants\<close>

definition PACKET_HEADER :: int where "PACKET_HEADER = 8"
definition ANTISTUNBIAS :: u32 where "ANTISTUNBIAS = 0x40000000"
definition MAX_NQMSGLEN :: int where "MAX_NQMSGLEN = 65536"
definition MAX_NQDATAGRAM :: int where "MAX_NQDATAGRAM = 1024"
definition MAX_LATENT :: nat where "MAX_LATENT = 32"
definition NETFLAG_LENGTH_MASK :: u32 where "NETFLAG_LENGTH_MASK = 0x0000ffff"
definition NETFLAG_DATA :: u32 where "NETFLAG_DATA = 0x00010000"
definition NETFLAG_ACK :: u32 where "NETFLAG_ACK = 0x00020000"
definition NETFLAG_EOM :: u32 where "NETFLAG_EOM = 0x00080000"
definition NETFLAG_UNRELIABLE :: u32 where "NETFLAG_UNRELIABLE = 0x00100000"
definition NETFLAG_ZLIB :: u32 where "NETFLAG_ZLIB = 0x00200000"
definition NETFLAG_CTL :: u32 where "NETFLAG_CTL = 0x80000000"
definition clc_disconnect :: u8 where "clc_disconnect = 2"

section \<open>State\<close>

datatype netsrc = NS_CLIENT | NS_SERVER

datatype neterr = NETERR_SENT | NETERR_NOROUTE | NETERR_DISCONNECTED | NETERR_MTU | NETERR_CLOGGED

datatype nqnc_packettype = NQNC_IGNORED | NQNC_ACK | NQNC_RELIABLE | NQNC_UNRELIABLE

text \<open>
  \<open>message_buf\<close> is the storage \<open>data\<close> of \<open>message\<close>; the lists \<open>reliable_buf\<close> and
  \<open>in_fragment_buf\<close> are the arrays of the same names, all of them.
\<close>

record netchan =
  fatal_error :: bool
  isnqprotocol :: bool
  nqreliable_allowed :: bool
  nqunreliableonly :: nat
  pext_fragmentation :: bool
  pext_stunaware :: bool
  chan_netprim :: netprim
  mtu :: int
  dupe :: int
  drop_count :: int
  good_count :: int
  bytesin :: int
  bytesout :: int
  sock :: netsrc
  qport :: u32
  qportsize :: nat
  incoming_unreliable :: u32
  incoming_sequence :: u32
  incoming_acknowledged :: u32
  incoming_reliable_acknowledged :: u32
  incoming_reliable_sequence :: u32
  outgoing_unreliable :: u32
  outgoing_sequence :: u32
  reliable_sequence :: u32
  last_reliable_sequence :: u32
  message :: sizebuf
  reliable_length :: int
  reliable_start :: int
  reliable_buf :: "u8 list"
  outgoing_size :: "int list"
  compresstable :: "huffman option"
  in_fragment_length :: int
  in_fragment_buf :: "u8 list"

text \<open>
  What a call finds around the channel: demo playback, whether the packet came from the
  channel's peer (\<open>NET_CompareAdr\<close>), the kind of the peer's address, the outcomes of the
  clock (\<open>avail_bytes\<close> is \<open>Netchan_CanBytes\<close>, \<open>can_packet\<close> is \<open>Netchan_CanPacket\<close>,
  \<open>resend_due\<close> is \<open>nqreliable_resendtime < realtime\<close>), the socket (the outcome of the
  \<open>n\<close>-th packet), the zlib decoder, and the uninitialised local variables of the call.
\<close>

record netenv =
  demoplayback :: bool
  from_remote :: bool
  adr_reliable :: bool
  avail_bytes :: int
  can_packet :: bool
  resend_due :: bool
  net_result :: "nat \<Rightarrow> u8 list \<Rightarrow> neterr"
  ZLib_DecompressBuffer :: "u8 list \<Rightarrow> u8 list"
  send_local :: sizebuf
  huff_local :: "u8 list"

text \<open>The packets handed to the socket so far, and the global \<open>net_drop\<close>.\<close>

record networld =
  packets :: "(u8 list \<times> neterr) list"
  net_drop :: int

definition NET_SendPacket :: "netenv \<Rightarrow> networld \<Rightarrow> u8 list \<Rightarrow> neterr \<times> networld" where
  "NET_SendPacket env w pkt =
     (let e = net_result env (length (packets w)) pkt
      in (e, w\<lparr>packets := packets w @ [(pkt, e)]\<rparr>))"

section \<open>Opening a channel\<close>

definition Netchan_Setup ::
    "netsrc \<Rightarrow> u32 \<Rightarrow> netchan" where
  "Netchan_Setup src qp =
     \<lparr>fatal_error = False, isnqprotocol = False, nqreliable_allowed = True,
      nqunreliableonly = 0, pext_fragmentation = False, pext_stunaware = False,
      chan_netprim = \<lparr>coordtype = 0, anglesize = 0, primflags = 0\<rparr>,
      mtu = 0, dupe = 0, drop_count = 0, good_count = 0, bytesin = 0, bytesout = 0,
      sock = src, qport = qp, qportsize = 2,
      incoming_unreliable = - 1, incoming_sequence = 0, incoming_acknowledged = 0,
      incoming_reliable_acknowledged = 0, incoming_reliable_sequence = 0,
      outgoing_unreliable = 0, outgoing_sequence = 0, reliable_sequence = 0,
      last_reliable_sequence = 0,
      message = \<lparr>allowoverflow = True, overflowed = False,
        data = replicate (nat MAX_OVERALLMSGLEN) 0, maxsize = MAX_QWMSGLEN, cursize = 0,
        packing = SZ_BAD, currentbit = 0, prim = \<lparr>coordtype = 0, anglesize = 0, primflags = 0\<rparr>\<rparr>,
      reliable_length = 0, reliable_start = 0,
      reliable_buf = replicate (nat MAX_OVERALLMSGLEN) 0,
      outgoing_size = replicate MAX_LATENT 0, compresstable = None,
      in_fragment_length = 0, in_fragment_buf = replicate (nat MAX_OVERALLMSGLEN) 0\<rparr>"

definition Netchan_CanReliable :: "netenv \<Rightarrow> netchan \<Rightarrow> bool" where
  "Netchan_CanReliable env chan = (if reliable_length chan \<noteq> 0 then False else can_packet env)"

text \<open>An out-of-band datagram: four bytes of ones, then the data.\<close>

definition Netchan_OutOfBand :: "netenv \<Rightarrow> u8 list \<Rightarrow> networld \<Rightarrow> networld res" where
  "Netchan_OutOfBand env dat w =
     (let send = \<lparr>allowoverflow = False, overflowed = False,
           data = take (nat (MAX_QWMSGLEN + PACKET_HEADER)) (data (send_local env)),
           maxsize = MAX_QWMSGLEN + PACKET_HEADER, cursize = 0, packing = SZ_BAD,
           currentbit = 0, prim = \<lparr>coordtype = 0, anglesize = 0, primflags = 0\<rparr>\<rparr>
      in rbind (MSG_WriteLong send (- 1)) (\<lambda>send. rbind (SZ_Write send dat) (\<lambda>send.
         if demoplayback env then Inr w
         else rbind (slice (data send) 0 (cursize send)) (\<lambda>pkt.
           Inr (snd (NET_SendPacket env w pkt))))))"

section \<open>Receiving on a NetQuake channel\<close>

text \<open>Overwriting the received message from its start, as \<open>memcpy\<close> into \<open>net_message.data\<close>.\<close>

definition set_message :: "msgstate \<Rightarrow> u8 list \<Rightarrow> msgstate res" where
  "set_message st bs = rbind (sz_store (net_message st) 0 bs) (\<lambda>m.
     Inr (st\<lparr>net_message := m\<lparr>cursize := int (length bs)\<rparr>\<rparr>))"

text \<open>
  A packet with \<open>NETFLAG_ZLIB\<close>.  \<open>None\<close>: the packet is ignored; \<open>Some (Inl st)\<close>: a
  disconnect has been injected; \<open>Some (Inr (header, st))\<close>: the unpacked packet and its header.
\<close>

definition nq_unpack ::
    "netenv \<Rightarrow> netchan \<Rightarrow> u32 \<Rightarrow> msgstate \<Rightarrow> (msgstate + u32 \<times> msgstate) option res" where
  "nq_unpack env chan header st =
     (if header AND NETFLAG_ZLIB = 0 then Inr (Some (Inr (header, st)))
      else if cursize (net_message st) \<le> PACKET_HEADER
        \<or> cursize (net_message st) \<noteq> PACKET_HEADER + uint (header AND NETFLAG_LENGTH_MASK)
      then Inr None
      else rbind (MSG_ReadLong st) (\<lambda>(_, st).
        rbind (slice (msg_data st) 8 (cursize (net_message st) - 8)) (\<lambda>packed.
        let tmp = take 0xffff (ZLib_DecompressBuffer env packed) in
        if int (length tmp) < PACKET_HEADER then
          (if sock chan = NS_CLIENT then Inl Host_EndGame
           else rbind (sz_store (net_message st) 8 [clc_disconnect]) (\<lambda>m.
             Inr (Some (Inl (st\<lparr>net_message := m\<lparr>cursize := 9\<rparr>\<rparr>)))))
        else rbind (set_message st tmp) (\<lambda>st.
          rbind (MSG_ReadLong (MSG_BeginReading (chan_netprim chan) st)) (\<lambda>(h, st).
          Inr (Some (Inr (LongSwap h, st))))))))"

definition nq_ack :: "u32 \<Rightarrow> netchan \<Rightarrow> netchan" where
  "nq_ack seq chan =
     (if seq = reliable_sequence chan then
        let start = reliable_start chan + MAX_NQDATAGRAM; whole = start \<ge> reliable_length chan in
        chan\<lparr>reliable_start := (if whole then 0 else start),
          reliable_length := (if whole then 0 else reliable_length chan),
          incoming_reliable_acknowledged := reliable_sequence chan,
          reliable_sequence := reliable_sequence chan + 1,
          nqreliable_allowed := True\<rparr>
      else chan)"

definition nq_datagram :: "u32 \<Rightarrow> netchan \<Rightarrow> nqnc_packettype \<times> netchan" where
  "nq_datagram seq chan =
     (if sint seq \<le> sint (incoming_unreliable chan) then (NQNC_IGNORED, chan)
      else let drop = sint (seq - incoming_unreliable chan - 1) in
        (NQNC_UNRELIABLE,
         chan\<lparr>drop_count := drop_count chan + (if drop > 0 then drop else 0),
           incoming_unreliable := seq,
           incoming_acknowledged := incoming_acknowledged chan + 1,
           good_count := good_count chan + 1\<rparr>))"

text \<open>
  A piece of a reliable message.  The bound of the reassembly buffer is checked in
  \<open>size_t\<close>, where a negative sum is huge.
\<close>

definition nq_fragment ::
    "u32 \<Rightarrow> bool \<Rightarrow> netchan \<Rightarrow> msgstate \<Rightarrow> (nqnc_packettype \<times> netchan \<times> msgstate) res" where
  "nq_fragment seq eom chan st =
     (if seq \<noteq> incoming_reliable_sequence chan then Inr (NQNC_IGNORED, chan, st)
      else
        let chan = chan\<lparr>incoming_reliable_sequence := incoming_reliable_sequence chan + 1\<rparr>;
            n = cursize (net_message st) - 8;
            total = in_fragment_length chan + n in
        if total < 0 \<or> total \<ge> int (length (in_fragment_buf chan))
        then Inr (NQNC_IGNORED, chan\<lparr>fatal_error := True\<rparr>, st)
        else rbind (slice (msg_data st) 8 n) (\<lambda>piece.
          rbind (poke (in_fragment_buf chan) (in_fragment_length chan) piece) (\<lambda>buf.
          let chan = chan\<lparr>in_fragment_buf := buf, in_fragment_length := total\<rparr> in
          if eom then
            rbind (slice (in_fragment_buf chan) 0 total) (\<lambda>whole.
            rbind (SZ_Write (SZ_Clear (net_message st)) whole) (\<lambda>m.
            Inr (NQNC_RELIABLE, chan\<lparr>in_fragment_length := 0\<rparr>,
              MSG_BeginReading (chan_netprim chan) (st\<lparr>net_message := m\<rparr>))))
          else Inr (NQNC_IGNORED, chan, st))))"

definition be32 :: "u32 \<Rightarrow> u8 list" where
  "be32 w = le32 (LongSwap w)"

definition nq_dispatch ::
    "netenv \<Rightarrow> u32 \<Rightarrow> u32 \<Rightarrow> netchan \<Rightarrow> msgstate \<Rightarrow> networld
      \<Rightarrow> (nqnc_packettype \<times> netchan \<times> msgstate \<times> networld) res" where
  "nq_dispatch env header seq chan st w =
     (if header AND NETFLAG_ACK \<noteq> 0 then Inr (NQNC_ACK, nq_ack seq chan, st, w)
      else if header AND NETFLAG_UNRELIABLE \<noteq> 0 then
        (let (r, chan) = nq_datagram seq chan in Inr (r, chan, st, w))
      else if header AND NETFLAG_DATA \<noteq> 0 then
        (let runt = be32 (NETFLAG_ACK OR 8) @ be32 seq;
             w = snd (NET_SendPacket env w runt)
         in rbind (nq_fragment seq (header AND NETFLAG_EOM \<noteq> 0) chan st) (\<lambda>(r, chan, st).
              Inr (r, chan, st, w)))
      else Inr (NQNC_IGNORED, chan, st, w))"

definition NQNetChan_Process ::
    "netenv \<Rightarrow> netchan \<Rightarrow> msgstate \<Rightarrow> networld
      \<Rightarrow> (nqnc_packettype \<times> netchan \<times> msgstate \<times> networld) res" where
  "NQNetChan_Process env chan st w =
     (let chan = chan\<lparr>bytesin := bytesin chan + cursize (net_message st)\<rparr> in
      rbind (MSG_ReadLong (MSG_BeginReading (chan_netprim chan) st)) (\<lambda>(h, st).
      let header = LongSwap h in
      if header AND NETFLAG_CTL \<noteq> 0 then Inr (NQNC_IGNORED, chan, st, w)
      else rbind (nq_unpack env chan header st) (\<lambda>u. case u of
          None \<Rightarrow> Inr (NQNC_IGNORED, chan, st, w)
        | Some (Inl st) \<Rightarrow> Inr (NQNC_RELIABLE, chan, st, w)
        | Some (Inr (header, st)) \<Rightarrow>
            if cursize (net_message st) \<noteq> uint (header AND NETFLAG_LENGTH_MASK)
            then Inr (NQNC_IGNORED, chan, st, w)
            else rbind (MSG_ReadLong st) (\<lambda>(s, st).
              nq_dispatch env header (LongSwap s) chan st w))))"

section \<open>Sending on a NetQuake channel\<close>

text \<open>The local \<open>send\<close>, of which only the size and the fill are set.\<close>

definition send_init :: "netenv \<Rightarrow> int \<Rightarrow> sizebuf" where
  "send_init env m = (send_local env)\<lparr>maxsize := m, cursize := 0\<rparr>"

definition send_packet_data :: "sizebuf \<Rightarrow> u8 list res" where
  "send_packet_data send = slice (data send) 0 (cursize send)"

text \<open>\<open>for (i = -1; i < dupes && e == NETERR_SENT; i++)\<close>, with \<open>n\<close> rounds left.\<close>

fun send_dupes :: "netenv \<Rightarrow> nat \<Rightarrow> u8 list \<Rightarrow> neterr \<times> int \<times> networld \<Rightarrow> neterr \<times> int \<times> networld" where
  "send_dupes env 0 pkt x = x"
| "send_dupes env (Suc n) pkt (e, i, w) =
     (if e \<noteq> NETERR_SENT then (e, i, w)
      else let (e, w) = NET_SendPacket env w pkt in send_dupes env n pkt (e, i + 1, w))"

text \<open>Taking over the reliable data that has been written since the last time.\<close>

definition nq_stage :: "netchan \<Rightarrow> netchan res" where
  "nq_stage chan =
     (if reliable_length chan = 0 \<and> cursize (message chan) \<noteq> 0 \<and> nqunreliableonly chan \<noteq> 1 then
        rbind (slice (data (message chan)) 0 (cursize (message chan))) (\<lambda>m.
        rbind (poke (reliable_buf chan) 0 m) (\<lambda>buf.
        Inr (chan\<lparr>nqunreliableonly := (if nqunreliableonly chan = 2 then 1 else nqunreliableonly chan),
          reliable_buf := buf, reliable_length := cursize (message chan), reliable_start := 0,
          message := (message chan)\<lparr>cursize := 0\<rparr>\<rparr>)))
      else Inr chan)"

definition nq_send_reliable :: "netenv \<Rightarrow> netchan \<Rightarrow> networld \<Rightarrow> (int \<times> netchan \<times> networld) res" where
  "nq_send_reliable env chan w =
     (let left = reliable_length chan - reliable_start chan in
      if left \<le> 0 then Inr (0, chan, w)
      else
        let n = (if left > MAX_NQDATAGRAM \<and> \<not> adr_reliable env then MAX_NQDATAGRAM else left) in
        rbind (MSG_WriteLong (send_init env (MAX_NQMSGLEN + PACKET_HEADER)) 0) (\<lambda>send.
        rbind (MSG_WriteLong send (LongSwap (reliable_sequence chan))) (\<lambda>send.
        rbind (slice (reliable_buf chan) (reliable_start chan) n) (\<lambda>piece.
        rbind (SZ_Write send piece) (\<lambda>send.
        let eom = (if reliable_start chan + n = reliable_length chan then NETFLAG_EOM else 0) in
        rbind (sz_store send 0 (be32 (NETFLAG_DATA OR eom OR word_of_int (cursize send)))) (\<lambda>send.
        rbind (send_packet_data send) (\<lambda>pkt.
        let (e, w) = NET_SendPacket env w pkt;
            chan = chan\<lparr>bytesout := bytesout chan + cursize send, nqreliable_allowed := False\<rparr>;
            start = reliable_start chan + n; whole = start \<ge> reliable_length chan
        in if e = NETERR_SENT \<and> (adr_reliable env \<or> nqunreliableonly chan = 3) then
             Inr (cursize send, chan\<lparr>reliable_start := (if whole then 0 else start),
               reliable_length := (if whole then 0 else reliable_length chan),
               incoming_reliable_acknowledged := reliable_sequence chan,
               reliable_sequence := reliable_sequence chan + 1, nqreliable_allowed := True\<rparr>, w)
           else Inr (cursize send, chan, w))))))))"

definition nq_send_unreliable ::
    "netenv \<Rightarrow> u8 list \<Rightarrow> netchan \<Rightarrow> networld \<Rightarrow> (int \<times> netchan \<times> networld) res" where
  "nq_send_unreliable env dat chan w =
     (if dat = [] then Inr (0, chan, w)
      else
        rbind (MSG_WriteLong (send_init env (MAX_NQMSGLEN + PACKET_HEADER)) 0) (\<lambda>send.
        rbind (MSG_WriteLong send (LongSwap (outgoing_unreliable chan))) (\<lambda>send.
        rbind (SZ_Write send dat) (\<lambda>send.
        rbind (sz_store send 0 (be32 (NETFLAG_UNRELIABLE OR word_of_int (cursize send)))) (\<lambda>send.
        rbind (send_packet_data send) (\<lambda>pkt.
        let (e, i, w) = send_dupes env (nat (dupe chan + 1)) pkt (NETERR_SENT, - 1, w)
        in Inr (cursize send * i,
             chan\<lparr>outgoing_unreliable := outgoing_unreliable chan + 1,
               mtu := (if e = NETERR_MTU \<and> mtu chan > 560 then mtu chan - 10 else mtu chan)\<rparr>, w)))))))"

definition nq_transmit :: "netenv \<Rightarrow> u8 list \<Rightarrow> netchan \<Rightarrow> networld \<Rightarrow> (int \<times> netchan \<times> networld) res" where
  "nq_transmit env dat chan w =
     (let chan = (if resend_due env then chan\<lparr>nqreliable_allowed := True\<rparr> else chan) in
      rbind (if nqreliable_allowed chan
             then rbind (nq_stage chan) (\<lambda>chan. nq_send_reliable env chan w)
             else Inr (0, chan, w)) (\<lambda>(sent1, chan, w).
      rbind (nq_send_unreliable env dat chan w) (\<lambda>(sent2, chan, w).
      Inr (sent1 + sent2, chan\<lparr>bytesout := bytesout chan + sent1 + sent2\<rparr>, w))))"

section \<open>Sending on a QuakeWorld channel\<close>

text \<open>\<open>None\<close>: the call returns 0 without sending.\<close>

definition qw_stage :: "netchan \<Rightarrow> (bool \<times> netchan) res" where
  "qw_stage chan =
     (let resend = sint (incoming_acknowledged chan) > sint (last_reliable_sequence chan)
            \<and> incoming_reliable_acknowledged chan \<noteq> reliable_sequence chan in
      if reliable_length chan = 0 \<and> cursize (message chan) \<noteq> 0 then
        rbind (slice (data (message chan)) 0 (cursize (message chan))) (\<lambda>m.
        rbind (poke (reliable_buf chan) 0 m) (\<lambda>buf.
        Inr (True, chan\<lparr>reliable_buf := buf, reliable_length := cursize (message chan),
          message := (message chan)\<lparr>cursize := 0\<rparr>,
          reliable_sequence := reliable_sequence chan XOR 1\<rparr>)))
      else Inr (resend, chan))"

definition qw_words :: "bool \<Rightarrow> netchan \<Rightarrow> u32 \<times> u32" where
  "qw_words send_reliable chan =
     (let w1 = outgoing_sequence chan OR push_bit 31 (of_bool send_reliable);
          w2 = incoming_sequence chan OR push_bit 31 (incoming_reliable_sequence chan)
      in if pext_stunaware chan then (LongSwap (w1 + ANTISTUNBIAS), LongSwap w2) else (w1, w2))"

text \<open>The packet header, with the qport of a client and an empty fragment field.\<close>

definition qw_header :: "netenv \<Rightarrow> u32 \<Rightarrow> u32 \<Rightarrow> netchan \<Rightarrow> sizebuf res" where
  "qw_header env w1 w2 chan =
     (let room = (if mtu chan \<noteq> 0 then mtu chan else MAX_QWMSGLEN) + PACKET_HEADER in
      rbind (MSG_WriteLong (send_init env room) w1) (\<lambda>send.
      rbind (MSG_WriteLong send w2) (\<lambda>send.
      rbind (if sock chan = NS_CLIENT then
               if qportsize chan = 2 then MSG_WriteShort send (qport chan)
               else if qportsize chan = 1 then MSG_WriteByte send (qport chan AND 0xff)
               else Inr send
             else Inr send) (\<lambda>send.
      if pext_fragmentation chan
      then MSG_WriteShort (send\<lparr>maxsize := MAX_OVERALLMSGLEN + PACKET_HEADER\<rparr>) 0
      else Inr send))))"

text \<open>
  The reliable part and, where it fits, the unreliable part.  \<open>None\<close>: the reliable
  message is longer than any packet, which is the end of the channel.
\<close>

definition qw_body ::
    "bool \<Rightarrow> u8 list \<Rightarrow> sizebuf \<Rightarrow> netchan \<Rightarrow> (sizebuf option \<times> netchan) res" where
  "qw_body send_reliable dat send chan =
     (if send_reliable \<and> maxsize send - cursize send < reliable_length chan then
        Inr (None, chan\<lparr>fatal_error := True, outgoing_sequence := outgoing_sequence chan - 1\<rparr>)
      else
        rbind (if send_reliable then
                 rbind (slice (reliable_buf chan) 0 (reliable_length chan)) (\<lambda>m.
                 rbind (SZ_Write send m) (\<lambda>send.
                 Inr (send, chan\<lparr>last_reliable_sequence := outgoing_sequence chan\<rparr>)))
               else Inr (send, chan)) (\<lambda>(send, chan).
        rbind (if maxsize send - cursize send \<ge> int (length dat) then SZ_Write send dat
               else Inr send) (\<lambda>send.
        Inr (Some send, chan))))"

text \<open>
  The fragmentation protocol.  One packet is sent again for every duplicate; \<open>moved\<close> says
  that the first packet was too big for the path and the loop is to start over with a
  smaller one.
\<close>

fun frag_sends ::
    "netenv \<Rightarrow> nat \<Rightarrow> u8 list \<Rightarrow> bool \<Rightarrow> neterr \<times> int \<times> int \<times> networld
      \<Rightarrow> bool \<times> neterr \<times> int \<times> int \<times> networld" where
  "frag_sends env 0 pkt first x = (False, x)"
| "frag_sends env (Suc n) pkt first (e, m, outbytes, w) =
     (if e \<noteq> NETERR_SENT then (False, e, m, outbytes, w)
      else let (e, w) = NET_SendPacket env w pkt; outbytes = outbytes + int (length pkt) in
        if e = NETERR_MTU \<and> first \<and> m > 560 then (True, e, m - 16, outbytes, w)
        else frag_sends env n pkt first (e, m, outbytes, w))"

definition frag_header ::
    "netchan \<Rightarrow> u32 \<Rightarrow> u32 \<Rightarrow> int \<Rightarrow> int \<Rightarrow> bool \<Rightarrow> u8 list \<Rightarrow> u8 list res" where
  "frag_header chan w1 w2 hsz offset mf dat =
     rbind (poke dat offset (le32 w1)) (\<lambda>dat.
     rbind (poke dat (offset + 4) (le32 w2)) (\<lambda>dat.
     rbind (if sock chan = NS_CLIENT then
              if qportsize chan = 2 then poke dat (offset + hsz - 4) (enc16 (qport chan))
              else if qportsize chan = 1 then poke dat (offset + hsz - 3) [ucast (qport chan AND 0xff)]
              else Inr dat
            else Inr dat) (\<lambda>dat.
     poke dat (offset + hsz - 2) (enc16 (word_of_int (offset div 4) OR of_bool mf)))))"

fun frag_loop ::
    "nat \<Rightarrow> netenv \<Rightarrow> netchan \<Rightarrow> u32 \<Rightarrow> u32 \<Rightarrow> int \<Rightarrow> int \<Rightarrow> nat
      \<Rightarrow> u8 list \<Rightarrow> int \<Rightarrow> neterr \<times> int \<times> int \<times> networld
      \<Rightarrow> (neterr \<times> int \<times> int \<times> networld) res" where
  "frag_loop 0 env chan w1 w2 hsz cursz n dat offset x = Inl OutOfFuel"
| "frag_loop (Suc k) env chan w1 w2 hsz cursz n dat offset (e, m, outbytes, w) =
     (let no = offset + m - hsz; mf = (no < cursz - hsz);
          no = (if mf then no div 8 * 8 else cursz - hsz) in
      rbind (frag_header chan w1 w2 hsz offset mf dat) (\<lambda>dat.
      rbind (if e = NETERR_SENT then slice dat offset (no - offset + hsz) else Inr []) (\<lambda>pkt.
      let (moved, x) = (if e = NETERR_SENT then frag_sends env n pkt (offset = 0) (e, m, outbytes, w)
                        else (False, e, m, outbytes, w));
          no = (if moved then offset else no); mf = (moved \<or> mf)
      in if mf then frag_loop k env chan w1 w2 hsz cursz n dat no x else Inr x)))"

text \<open>Rounds of the loop that are enough when a packet holds more than its header and 7 bytes.\<close>

definition frag_fuel :: "sizebuf \<Rightarrow> nat" where
  "frag_fuel send = nat (cursize send) + 2"

definition qw_send ::
    "netenv \<Rightarrow> u32 \<Rightarrow> u32 \<Rightarrow> sizebuf \<Rightarrow> netchan \<Rightarrow> networld
      \<Rightarrow> (neterr \<times> int \<times> netchan \<times> networld) res" where
  "qw_send env w1 w2 send chan w =
     (if demoplayback env then Inr (NETERR_SENT, cursize send, chan, w)
      else
        let hsz = 10 + (if sock chan = NS_CLIENT then int (qportsize chan) else 0);
            dupes = min (dupe chan) (max 0 (avail_bytes env) div cursize send);
            n = nat (dupes + 1) in
        if \<not> pext_fragmentation chan then
          rbind (send_packet_data send) (\<lambda>pkt.
          let (e, i, w) = send_dupes env n pkt (NETERR_SENT, - 1, w);
              m = (if e = NETERR_MTU \<and> mtu chan > 560 then mtu chan - 10 else mtu chan)
          in Inr (e, cursize send + cursize send * i, chan\<lparr>mtu := m\<rparr>, w))
        else
          rbind (frag_loop (frag_fuel send) env chan w1 w2 hsz (cursize send) n (data send) 0
            (NETERR_SENT, mtu chan, 0, w)) (\<lambda>(e, m, outbytes, w).
          Inr (e, outbytes, chan\<lparr>mtu := m\<rparr>, w)))"

definition qw_compress :: "netenv \<Rightarrow> netchan \<Rightarrow> sizebuf \<Rightarrow> sizebuf res" where
  "qw_compress env chan send =
     (case compresstable chan of
        None \<Rightarrow> Inr send
      | Some hf \<Rightarrow> Huff_CompressPacket (huff_local env) hf send
          (8 + (if sock chan = NS_CLIENT then 2 else 0) + (if pext_fragmentation chan then 2 else 0)))"

definition qw_transmit :: "netenv \<Rightarrow> u8 list \<Rightarrow> netchan \<Rightarrow> networld \<Rightarrow> (int \<times> netchan \<times> networld) res" where
  "qw_transmit env dat chan w =
     (if overflowed (message chan) then Inr (0, chan\<lparr>fatal_error := True\<rparr>, w)
      else rbind (qw_stage chan) (\<lambda>(send_reliable, chan).
        let (w1, w2) = qw_words send_reliable chan;
            chan = chan\<lparr>outgoing_sequence := outgoing_sequence chan + 1\<rparr> in
        rbind (qw_header env w1 w2 chan) (\<lambda>send.
        rbind (qw_body send_reliable dat send chan) (\<lambda>(send, chan).
        case send of
          None \<Rightarrow> Inr (0, chan, w)
        | Some send \<Rightarrow>
            let chan = chan\<lparr>outgoing_size := (outgoing_size chan)
                  [unat (outgoing_sequence chan) mod MAX_LATENT := cursize send]\<rparr> in
            rbind (qw_compress env chan send) (\<lambda>send.
            rbind (qw_send env w1 w2 send chan w) (\<lambda>(e, sent, chan, w).
            Inr (sent, if e = NETERR_SENT then chan\<lparr>bytesout := bytesout chan + sent\<rparr> else chan, w)))))))"

definition Netchan_Transmit ::
    "netenv \<Rightarrow> u8 list \<Rightarrow> netchan \<Rightarrow> networld \<Rightarrow> (int \<times> netchan \<times> networld) res" where
  "Netchan_Transmit env dat chan w =
     (if isnqprotocol chan then nq_transmit env dat chan w else qw_transmit env dat chan w)"

section \<open>Receiving on a QuakeWorld channel\<close>

text \<open>
  The header: the sequence words without their top bits, the two reliable bits and the
  fragment field.  \<open>None\<close>: not a packet of this channel.
\<close>

record qw_packet =
  pk_sequence :: u32
  pk_ack :: u32
  pk_reliable :: u32
  pk_reliable_ack :: u32
  pk_offset :: u16

definition qw_read_header :: "netchan \<Rightarrow> msgstate \<Rightarrow> (qw_packet option \<times> msgstate) res" where
  "qw_read_header chan st =
     rbind (MSG_ReadLong st) (\<lambda>(s, st). rbind (MSG_ReadLong st) (\<lambda>(a, st).
     if pext_stunaware chan \<and> LongSwap s AND ANTISTUNBIAS = 0 then Inr (None, st)
     else
       let s = (if pext_stunaware chan then LongSwap s - ANTISTUNBIAS else s);
           a = (if pext_stunaware chan then LongSwap a else a) in
       rbind (if sock chan = NS_SERVER then rbind (MSG_ReadShort st) (\<lambda>(_, st). Inr st)
              else Inr st) (\<lambda>st.
       rbind (if pext_fragmentation chan then rbind (MSG_ReadShort st) (\<lambda>(v, st). Inr (v, st))
              else Inr (0, st)) (\<lambda>(off, st).
       Inr (Some \<lparr>pk_sequence = s AND NOT 0x80000000, pk_ack = a AND NOT 0x80000000,
              pk_reliable = drop_bit 31 s, pk_reliable_ack = drop_bit 31 a,
              pk_offset = ucast off\<rparr>, st)))))"

text \<open>
  Reassembly.  The result says whether there is a message to process: the packet itself or
  the message its fragments make up.
\<close>

definition qw_fragment ::
    "u32 \<Rightarrow> int \<Rightarrow> netchan \<Rightarrow> msgstate \<Rightarrow> (bool \<times> netchan \<times> msgstate) res" where
  "qw_fragment seq off chan st =
     (if off = 0 then Inr (True, chan\<lparr>incoming_unreliable := 0, in_fragment_length := 0\<rparr>, st)
      else
        let len = cursize (net_message st) - msg_readcount st;
            mf = (off mod 2 = 1);
            off = (off - off mod 2) * 4 in
        if off + len < 0 \<or> off + len > int (length (in_fragment_buf chan)) then Inr (False, chan, st)
        else
          let chan = (if incoming_unreliable chan \<noteq> seq
                then chan\<lparr>in_fragment_length := 0, incoming_unreliable := seq\<rparr> else chan) in
          if off \<noteq> in_fragment_length chan then Inr (False, chan, st)
          else
            rbind (slice (msg_data st) (msg_readcount st) len) (\<lambda>piece.
            rbind (poke (in_fragment_buf chan) off piece) (\<lambda>buf.
            let chan = chan\<lparr>in_fragment_buf := buf, in_fragment_length := off + len\<rparr> in
            if mf then Inr (False, chan, st)
            else
              rbind (slice (in_fragment_buf chan) 0 (in_fragment_length chan)) (\<lambda>whole.
              rbind (set_message st whole) (\<lambda>st.
              Inr (True, chan\<lparr>incoming_unreliable := 0, in_fragment_length := 0\<rparr>,
                st\<lparr>msg_readcount := 0\<rparr>))))))"

definition qw_accept :: "qw_packet \<Rightarrow> netchan \<Rightarrow> networld \<Rightarrow> netchan \<times> networld" where
  "qw_accept pk chan w =
     (let drop = sint (pk_sequence pk - (incoming_sequence chan + 1)) in
      (chan\<lparr>drop_count := drop_count chan + (if drop > 0 then 1 else 0),
         reliable_length := (if pk_reliable_ack pk = reliable_sequence chan then 0
                             else reliable_length chan),
         incoming_sequence := pk_sequence pk,
         incoming_acknowledged := pk_ack pk,
         incoming_reliable_acknowledged := pk_reliable_ack pk,
         incoming_reliable_sequence := (if pk_reliable pk \<noteq> 0
            then incoming_reliable_sequence chan XOR 1 else incoming_reliable_sequence chan),
         good_count := good_count chan + 1\<rparr>,
       w\<lparr>net_drop := drop\<rparr>))"

definition Netchan_Process ::
    "netenv \<Rightarrow> netchan \<Rightarrow> msgstate \<Rightarrow> networld \<Rightarrow> (bool \<times> netchan \<times> msgstate \<times> networld) res" where
  "Netchan_Process env chan st w =
     (if \<not> demoplayback env \<and> \<not> from_remote env then Inr (False, chan, st, w)
      else
        let chan = chan\<lparr>bytesin := bytesin chan + cursize (net_message st)\<rparr> in
        rbind (qw_read_header chan (MSG_BeginReading (chan_netprim chan) st)) (\<lambda>(pk, st).
        case pk of
          None \<Rightarrow> Inr (False, chan, st, w)
        | Some pk \<Rightarrow>
            if pk_sequence pk \<le> incoming_sequence chan then Inr (False, chan, st, w)
            else rbind (qw_fragment (pk_sequence pk) (uint (pk_offset pk)) chan st) (\<lambda>(whole, chan, st).
              if \<not> whole then Inr (False, chan, st, w)
              else
                let (chan, w) = qw_accept pk chan w in
                rbind (case compresstable chan of
                    None \<Rightarrow> Inr (net_message st)
                  | Some hf \<Rightarrow> Huff_DecompressPacket hf (net_message st) (msg_readcount st)) (\<lambda>m.
                Inr (True, chan, st\<lparr>net_message := m\<rparr>, w)))))"

end
