(* ===== verification/NetchanSafe.thy ===== *)
theory NetchanSafe
  imports Netchan
begin

text \<open>
  What the channel does with packets it cannot trust: no packet makes the receiver leave
  its buffers, and the sequence numbers of the packets it accepts only grow.
\<close>

section \<open>Well-formed receivers\<close>

definition msg_storage :: "msgstate \<Rightarrow> bool" where
  "msg_storage st \<longleftrightarrow> 0 \<le> cursize (net_message st) \<and> cursize (net_message st) \<le> MAX_OVERALLMSGLEN
     \<and> int (length (msg_data st)) = MAX_OVERALLMSGLEN \<and> maxsize (net_message st) = MAX_OVERALLMSGLEN"

definition chan_ok :: "netchan \<Rightarrow> bool" where
  "chan_ok chan \<longleftrightarrow> int (length (in_fragment_buf chan)) = MAX_OVERALLMSGLEN
     \<and> 0 \<le> in_fragment_length chan \<and> in_fragment_length chan \<le> MAX_OVERALLMSGLEN
     \<and> compresstable chan = None"

lemma begin_reading_ok:
  "msg_storage st \<Longrightarrow> msg_ok (MSG_BeginReading p st) \<and> msg_storage (MSG_BeginReading p st)"
  by (simp add: msg_storage_def msg_ok_def MSG_BeginReading_def msg_data_def)

lemma begin_reading_cursize [simp]:
  "cursize (net_message (MSG_BeginReading p st)) = cursize (net_message st)"
  by (simp add: MSG_BeginReading_def)

lemma msg_step_storage: "msg_step st st' \<Longrightarrow> msg_storage st \<Longrightarrow> msg_storage st'"
  by (simp add: msg_step_def msg_storage_def msg_data_def)

lemma set_message_ok:
  assumes "msg_storage st" "int (length bs) \<le> MAX_OVERALLMSGLEN"
  shows "\<exists>st'. set_message st bs = Inr st' \<and> msg_storage st'
    \<and> contents (net_message st') = bs \<and> msg_readcount st' = msg_readcount st
    \<and> packing (net_message st') = packing (net_message st) \<and> msg_badread st' = msg_badread st"
  using assms
  by (auto simp: set_message_def sz_store_def poke_def msg_storage_def msg_data_def contents_def)

section \<open>QuakeWorld packets\<close>

interpretation read_header: msg_reader "qw_read_header chan"
proof (unfold_locales, goal_cases)
  case (1 st)
  then obtain s st1 where s: "MSG_ReadLong st = Inr (s, st1)" "msg_step st st1" "msg_ok st1"
    by (rule read_long.safeE)
  obtain a st2 where a: "MSG_ReadLong st1 = Inr (a, st2)" "msg_step st1 st2" "msg_ok st2"
    using s(3) by (rule read_long.safeE)
  obtain q st3 where q: "MSG_ReadShort st2 = Inr (q, st3)" "msg_step st2 st3" "msg_ok st3"
    using a(3) by (rule read_short.safeE)
  obtain f st4 where f: "MSG_ReadShort st3 = Inr (f, st4)" "msg_step st3 st4"
    using q(3) by (rule read_short.safeE)
  obtain g st5 where g: "MSG_ReadShort st2 = Inr (g, st5)" "msg_step st2 st5"
    using a(3) by (rule read_short.safeE)
  have "msg_step st st2" "msg_step st st3" "msg_step st st4" "msg_step st st5"
    using s a q f g by (blast intro: msg_step_trans)+
  then show ?case
    using s a q f g by (auto simp: qw_read_header_def Let_def)
qed

text \<open>What reassembly leaves alone.\<close>

definition same_sequencing :: "netchan \<Rightarrow> netchan \<Rightarrow> bool" where
  "same_sequencing chan chan' \<longleftrightarrow> incoming_sequence chan' = incoming_sequence chan
     \<and> compresstable chan' = compresstable chan \<and> sock chan' = sock chan
     \<and> pext_fragmentation chan' = pext_fragmentation chan
     \<and> pext_stunaware chan' = pext_stunaware chan
     \<and> incoming_reliable_sequence chan' = incoming_reliable_sequence chan
     \<and> reliable_sequence chan' = reliable_sequence chan
     \<and> reliable_length chan' = reliable_length chan"

lemma qw_fragment_ok:
  assumes chan: "chan_ok chan" and st: "msg_ok st" "msg_storage st" and off: "0 \<le> off"
  shows "\<exists>b chan' st'. qw_fragment seq off chan st = Inr (b, chan', st') \<and> chan_ok chan'
    \<and> msg_ok st' \<and> msg_storage st' \<and> same_sequencing chan chan'"
proof -
  define len where "len = cursize (net_message st) - msg_readcount st"
  define o4 where "o4 = (off - off mod 2) * 4"
  define c where "c = (if incoming_unreliable chan \<noteq> seq
    then chan\<lparr>in_fragment_length := 0, incoming_unreliable := seq\<rparr> else chan)"
  have len: "0 \<le> len" "msg_readcount st + len \<le> int (length (msg_data st))" "0 \<le> msg_readcount st"
    using st by (simp_all add: len_def msg_ok_def)
  have o4: "0 \<le> o4" unfolding o4_def using off by (simp add: minus_mod_eq_div_mult)
  have c: "chan_ok c" "same_sequencing chan c"
    using chan by (simp_all add: c_def chan_ok_def same_sequencing_def)
  show ?thesis
  proof (cases "off = 0 \<or> o4 + len < 0 \<or> o4 + len > int (length (in_fragment_buf chan))
      \<or> o4 \<noteq> in_fragment_length c")
    case True
    then show ?thesis
      unfolding qw_fragment_def Let_def len_def [symmetric] o4_def [symmetric] c_def [symmetric]
      using chan st c by (auto simp: chan_ok_def same_sequencing_def)
  next
    case False
    obtain piece where piece: "slice (msg_data st) (msg_readcount st) len = Inr piece"
        "int (length piece) = len"
      using len by (auto simp: slice_def)
    obtain buf where buf: "poke (in_fragment_buf chan) o4 piece = Inr buf"
        "length buf = length (in_fragment_buf chan)"
      using False o4 piece by (auto simp: poke_def)
    have "int (length buf) = MAX_OVERALLMSGLEN" using chan buf by (simp add: chan_ok_def)
    then obtain whole where whole: "slice buf 0 (o4 + len) = Inr whole" "int (length whole) = o4 + len"
      using False chan o4 len by (auto simp: slice_def chan_ok_def)
    have "int (length whole) \<le> MAX_OVERALLMSGLEN" using False whole chan by (simp add: chan_ok_def)
    then obtain st' where st': "set_message st whole = Inr st'" "msg_storage st'"
        "packing (net_message st') = packing (net_message st)"
      using set_message_ok [OF st(2)] by blast
    have "msg_ok (st'\<lparr>msg_readcount := 0\<rparr>) \<and> msg_storage (st'\<lparr>msg_readcount := 0\<rparr>)"
      using st' st(1) by (auto simp: msg_ok_def msg_storage_def msg_data_def)
    moreover have "in_fragment_buf c = in_fragment_buf chan" by (simp add: c_def)
    ultimately show ?thesis
      unfolding qw_fragment_def Let_def len_def [symmetric] o4_def [symmetric] c_def [symmetric]
      using False piece buf whole st' c chan o4 len st
      by (auto simp: chan_ok_def same_sequencing_def)
  qed
qed

lemma qw_accept_ok:
  "chan_ok chan \<Longrightarrow> chan_ok (fst (qw_accept pk chan w))"
  "incoming_sequence (fst (qw_accept pk chan w)) = pk_sequence pk"
  by (simp_all add: qw_accept_def chan_ok_def Let_def)

lemma Netchan_Process_ok:
  assumes chan: "chan_ok chan" and st: "msg_storage st"
  shows "\<exists>b chan' st' w'. Netchan_Process env chan st w = Inr (b, chan', st', w') \<and> chan_ok chan'
    \<and> msg_storage st'
    \<and> (if b then incoming_sequence chan < incoming_sequence chan'
       else incoming_sequence chan' = incoming_sequence chan)"
proof (cases "\<not> demoplayback env \<and> \<not> from_remote env")
  case True
  then have "Netchan_Process env chan st w = Inr (False, chan, st, w)"
    by (simp add: Netchan_Process_def)
  with assms show ?thesis by auto
next
  case False
  define c where "c = chan\<lparr>bytesin := bytesin chan + cursize (net_message st)\<rparr>"
  define st0 where "st0 = MSG_BeginReading (chan_netprim c) st"
  have c: "chan_ok c" "incoming_sequence c = incoming_sequence chan" "compresstable c = None"
    using chan by (simp_all add: c_def chan_ok_def)
  have st0: "msg_ok st0" "msg_storage st0"
    using begin_reading_ok [OF st] by (simp_all add: st0_def)
  obtain x st1 where x: "qw_read_header c st0 = Inr (x, st1)" "msg_step st0 st1" "msg_ok st1"
    using st0(1) by (rule read_header.safeE)
  have st1: "msg_storage st1" using x(2) st0(2) by (rule msg_step_storage)
  have eq: "Netchan_Process env chan st w = rbind (qw_read_header c st0) (\<lambda>(pk, st).
        case pk of
          None \<Rightarrow> Inr (False, c, st, w)
        | Some pk \<Rightarrow>
            if pk_sequence pk \<le> incoming_sequence c then Inr (False, c, st, w)
            else rbind (qw_fragment (pk_sequence pk) (uint (pk_offset pk)) c st) (\<lambda>(whole, chan, st).
              if \<not> whole then Inr (False, chan, st, w)
              else
                let (chan, w) = qw_accept pk chan w in
                rbind (case compresstable chan of
                    None \<Rightarrow> Inr (net_message st)
                  | Some hf \<Rightarrow> Huff_DecompressPacket hf (net_message st) (msg_readcount st)) (\<lambda>m.
                Inr (True, chan, st\<lparr>net_message := m\<rparr>, w))))"
    unfolding Netchan_Process_def Let_def c_def [symmetric] st0_def [symmetric] if_not_P [OF False]
    by (rule refl)
  show ?thesis
  proof (cases x)
    case None
    then show ?thesis using eq x c st1 by auto
  next
    case (Some pk)
    obtain b c1 st2 where f: "qw_fragment (pk_sequence pk) (uint (pk_offset pk)) c st1 = Inr (b, c1, st2)"
        "chan_ok c1" "msg_ok st2" "msg_storage st2" "same_sequencing c c1"
      using qw_fragment_ok [OF c(1) x(3) st1] by (meson uint_ge_0)
    obtain c2 w2 where acc: "qw_accept pk c1 w = (c2, w2)" by (cases "qw_accept pk c1 w")
    have c2: "chan_ok c2" "incoming_sequence c2 = pk_sequence pk" "compresstable c2 = None"
      using qw_accept_ok(1) [OF f(2), of pk w] qw_accept_ok(2) [of pk c1 w] acc by (simp_all add: chan_ok_def)
    have same: "incoming_sequence c1 = incoming_sequence chan"
      using f(5) c(2) by (simp add: same_sequencing_def)
    have upd: "st2\<lparr>net_message := net_message st2\<rparr> = st2" by simp
    show ?thesis
      using eq x(1) Some f acc c2 same c st1
      by (cases "pk_sequence pk \<le> incoming_sequence c"; cases b) (auto simp: not_le)
  qed
qed

text \<open>
  A channel that is fed one received packet after the other: the sequence numbers of the
  packets it accepts.
\<close>

fun receive_all ::
    "(netenv \<times> msgstate) list \<Rightarrow> netchan \<Rightarrow> networld \<Rightarrow> (u32 list \<times> netchan \<times> networld) res" where
  "receive_all [] chan w = Inr ([], chan, w)"
| "receive_all ((env, st) # ps) chan w =
     rbind (Netchan_Process env chan st w) (\<lambda>(b, chan, st, w).
     rbind (receive_all ps chan w) (\<lambda>(seqs, chan', w).
     Inr (if b then incoming_sequence chan # seqs else seqs, chan', w)))"

lemma receive_all_ok:
  "chan_ok chan \<Longrightarrow> \<forall>(env, st) \<in> set ps. msg_storage st \<Longrightarrow>
   \<exists>seqs chan' w'. receive_all ps chan w = Inr (seqs, chan', w') \<and> chan_ok chan'
     \<and> sorted_wrt (<) (incoming_sequence chan # seqs)"
proof (induction ps arbitrary: chan w)
  case (Cons p ps)
  obtain env st where p: "p = (env, st)" by (cases p)
  obtain b c1 st1 w1 where s: "Netchan_Process env chan st w = Inr (b, c1, st1, w1)" "chan_ok c1"
      "if b then incoming_sequence chan < incoming_sequence c1
       else incoming_sequence c1 = incoming_sequence chan"
    using Netchan_Process_ok [OF Cons.prems(1), of st env w] Cons.prems(2) p by fastforce
  have "\<forall>(env, st) \<in> set ps. msg_storage st" using Cons.prems(2) by simp
  then obtain seqs c2 w2 where r: "receive_all ps c1 w1 = Inr (seqs, c2, w2)" "chan_ok c2"
      "sorted_wrt (<) (incoming_sequence c1 # seqs)"
    using Cons.IH [OF s(2)] by blast
  show ?case
    using s r p by (cases b) (auto intro: less_trans)
qed simp

section \<open>NetQuake packets\<close>

lemma sz_store_ok:
  assumes "msg_storage st" "0 \<le> p" "p + int (length bs) \<le> MAX_OVERALLMSGLEN"
  shows "\<exists>m. sz_store (net_message st) p bs = Inr m \<and> length (data m) = length (msg_data st)
    \<and> maxsize m = maxsize (net_message st) \<and> cursize m = cursize (net_message st)"
  using assms by (auto simp: sz_store_def poke_def msg_storage_def msg_data_def)

text \<open>The reading position behind the first four bytes, if there are so many.\<close>

definition past_header :: "msgstate \<Rightarrow> bool" where
  "past_header st \<longleftrightarrow> 4 \<le> msg_readcount st \<or> cursize (net_message st) < 4"

lemma read_long_past_header:
  assumes "msg_storage st" "MSG_ReadLong (MSG_BeginReading p st) = Inr (h, st')"
  shows "past_header st'"
proof -
  have raw: "packing (net_message (MSG_BeginReading p st)) = SZ_RAWBYTES"
    and rc: "msg_readcount (MSG_BeginReading p st) = 0"
    by (simp_all add: MSG_BeginReading_def)
  show ?thesis
    using assms(2) unfolding MSG_ReadLong_def raw read_bytes_def rc
    by (auto simp: past_header_def rbind_eq_Inr split: if_splits)
qed

definition unpacked_ok :: "(msgstate + u32 \<times> msgstate) option \<Rightarrow> bool" where
  "unpacked_ok u \<longleftrightarrow> (case u of None \<Rightarrow> True | Some (Inl st) \<Rightarrow> msg_storage st
     | Some (Inr (h, st)) \<Rightarrow> msg_ok st \<and> msg_storage st \<and> past_header st)"

lemma nq_unpack_ok:
  assumes st: "msg_ok st" "msg_storage st" "past_header st"
  shows "(nq_unpack env chan header st = Inl Host_EndGame \<and> sock chan = NS_CLIENT)
    \<or> (\<exists>u. nq_unpack env chan header st = Inr u \<and> unpacked_ok u)"
proof (cases "header AND NETFLAG_ZLIB = 0 \<or> cursize (net_message st) \<le> PACKET_HEADER
      \<or> cursize (net_message st) \<noteq> PACKET_HEADER + uint (header AND NETFLAG_LENGTH_MASK)")
  case True
  with st show ?thesis by (auto simp: nq_unpack_def unpacked_ok_def)
next
  case False
  obtain v st1 where v: "MSG_ReadLong st = Inr (v, st1)" "msg_step st st1" "msg_ok st1"
    using st(1) by (rule read_long.safeE)
  have st1: "msg_storage st1" "cursize (net_message st1) = cursize (net_message st)"
    using msg_step_storage [OF v(2) st(2)] v(2) by (simp_all add: msg_step_def)
  obtain packed where packed: "slice (msg_data st1) 8 (cursize (net_message st1) - 8) = Inr packed"
    using False st1 by (auto simp: slice_def msg_storage_def PACKET_HEADER_def)
  define tmp where "tmp = take 0xffff (ZLib_DecompressBuffer env packed)"
  have eq: "nq_unpack env chan header st =
      (if int (length tmp) < PACKET_HEADER then
          (if sock chan = NS_CLIENT then Inl Host_EndGame
           else rbind (sz_store (net_message st1) 8 [clc_disconnect]) (\<lambda>m.
             Inr (Some (Inl (st1\<lparr>net_message := m\<lparr>cursize := 9\<rparr>\<rparr>)))))
        else rbind (set_message st1 tmp) (\<lambda>st.
          rbind (MSG_ReadLong (MSG_BeginReading (chan_netprim chan) st)) (\<lambda>(h, st).
          Inr (Some (Inr (LongSwap h, st))))))"
    using False v packed by (simp add: nq_unpack_def tmp_def Let_def)
  show ?thesis
  proof (cases "int (length tmp) < PACKET_HEADER")
    case True
    obtain m where "sz_store (net_message st1) 8 [clc_disconnect] = Inr m"
        "length (data m) = length (msg_data st1)" "maxsize m = maxsize (net_message st1)"
      using sz_store_ok [OF st1(1), of 8 "[clc_disconnect]"] by (auto simp: MAX_OVERALLMSGLEN_def)
    with True eq st1 show ?thesis
      by (cases "sock chan") (auto simp: unpacked_ok_def msg_storage_def msg_data_def MAX_OVERALLMSGLEN_def)
  next
    case False
    have "int (length tmp) \<le> MAX_OVERALLMSGLEN" by (simp add: tmp_def MAX_OVERALLMSGLEN_def)
    then obtain st2 where st2: "set_message st1 tmp = Inr st2" "msg_storage st2"
      using set_message_ok [OF st1(1)] by blast
    obtain h st3 where h: "MSG_ReadLong (MSG_BeginReading (chan_netprim chan) st2) = Inr (h, st3)"
        "msg_step (MSG_BeginReading (chan_netprim chan) st2) st3" "msg_ok st3"
      using begin_reading_ok [OF st2(2)] by (blast elim: read_long.safeE)
    have "msg_storage st3" using msg_step_storage [OF h(2)] begin_reading_ok [OF st2(2)] by blast
    with False eq st2 h read_long_past_header [OF st2(2) h(1)] show ?thesis
      by (simp add: unpacked_ok_def)
  qed
qed

lemma nq_fragment_ok:
  assumes chan: "chan_ok chan" and st: "msg_storage st"
    and "8 \<le> cursize (net_message st) \<or> seq \<noteq> incoming_reliable_sequence chan"
  shows "\<exists>r chan' st'. nq_fragment seq eom chan st = Inr (r, chan', st') \<and> chan_ok chan' \<and> msg_storage st'"
proof (cases "seq = incoming_reliable_sequence chan")
  case False
  with assms show ?thesis by (auto simp: nq_fragment_def)
next
  case seq: True
  define n where "n = cursize (net_message st) - 8"
  define c where "c = chan\<lparr>incoming_reliable_sequence := incoming_reliable_sequence chan + 1\<rparr>"
  define total where "total = in_fragment_length c + n"
  have n: "0 \<le> n" "8 + n \<le> int (length (msg_data st))"
    using assms seq by (simp_all add: n_def msg_storage_def)
  have c: "chan_ok c" using chan by (simp add: c_def chan_ok_def)
  show ?thesis
  proof (cases "total < 0 \<or> int (length (in_fragment_buf c)) \<le> total")
    case True
    then show ?thesis
      unfolding nq_fragment_def Let_def n_def [symmetric] c_def [symmetric] total_def [symmetric]
      using seq c st by (auto simp: chan_ok_def)
  next
    case False
    obtain piece where piece: "slice (msg_data st) 8 n = Inr piece" "int (length piece) = n"
      using n by (auto simp: slice_def)
    obtain buf where buf: "poke (in_fragment_buf c) (in_fragment_length c) piece = Inr buf"
        "length buf = length (in_fragment_buf c)"
      using False c piece by (auto simp: poke_def total_def chan_ok_def)
    obtain whole where whole: "slice buf 0 total = Inr whole" "int (length whole) = total"
      using False buf by (auto simp: slice_def)
    let ?m = "SZ_Clear (net_message st)"
    have "sz_fits ?m (length whole)"
      using False whole st c by (simp add: sz_fits_def SZ_Clear_def msg_storage_def msg_data_def chan_ok_def)
    then have put: "SZ_Write ?m whole = Inr (sz_put ?m whole)" by (rule SZ_Write_fits)
    have "msg_storage (st\<lparr>net_message := sz_put ?m whole\<rparr>)"
      using st whole False c length_data_sz_put [OF \<open>sz_fits ?m (length whole)\<close>]
      by (simp add: msg_storage_def msg_data_def SZ_Clear_def chan_ok_def)
    then have "msg_storage (MSG_BeginReading p (st\<lparr>net_message := sz_put ?m whole\<rparr>))" for p
      using begin_reading_ok by blast
    with False show ?thesis
      unfolding nq_fragment_def Let_def n_def [symmetric] c_def [symmetric] total_def [symmetric]
      using seq c st piece buf whole put by (auto simp: chan_ok_def)
  qed
qed

lemma nq_dispatch_ok:
  assumes "chan_ok chan" "msg_storage st"
    and "8 \<le> cursize (net_message st) \<or> seq \<noteq> incoming_reliable_sequence chan"
  shows "\<exists>r chan' st' w'. nq_dispatch env header seq chan st w = Inr (r, chan', st', w')
    \<and> chan_ok chan' \<and> msg_storage st'"
proof -
  have "chan_ok (nq_ack seq chan)" "chan_ok (snd (nq_datagram seq chan))"
    using assms(1) by (simp_all add: nq_ack_def nq_datagram_def chan_ok_def Let_def)
  then show ?thesis
    using nq_fragment_ok [OF assms, of "header AND NETFLAG_EOM \<noteq> 0"] assms
    by (auto simp: nq_dispatch_def Let_def split: prod.split)
qed

lemma LongSwap_minus_1: "LongSwap (- 1) = - 1"
  by code_simp

lemma MSG_ReadLong_short:
  "msg_ok st \<Longrightarrow> cursize (net_message st) - msg_readcount st < 4 \<Longrightarrow>
   MSG_ReadLong st = Inr (- 1, st\<lparr>msg_badread := True\<rparr>)"
  by (simp add: MSG_ReadLong_def msg_okD read_bytes_bad)

lemma NQNetChan_Process_ok:
  assumes chan: "chan_ok chan" "incoming_reliable_sequence chan \<noteq> - 1" and st: "msg_storage st"
  shows "(NQNetChan_Process env chan st w = Inl Host_EndGame \<and> sock chan = NS_CLIENT)
    \<or> (\<exists>r chan' st' w'. NQNetChan_Process env chan st w = Inr (r, chan', st', w')
        \<and> chan_ok chan' \<and> msg_storage st')"
proof -
  define c where "c = chan\<lparr>bytesin := bytesin chan + cursize (net_message st)\<rparr>"
  define st0 where "st0 = MSG_BeginReading (chan_netprim c) st"
  have c: "chan_ok c" "sock c = sock chan" "incoming_reliable_sequence c \<noteq> - 1"
    using chan by (simp_all add: c_def chan_ok_def)
  have st0: "msg_ok st0" "msg_storage st0"
    using begin_reading_ok [OF st] by (simp_all add: st0_def)
  obtain h st1 where h: "MSG_ReadLong st0 = Inr (h, st1)" "msg_step st0 st1" "msg_ok st1"
    using st0(1) by (rule read_long.safeE)
  have st1: "msg_storage st1" using h(2) st0(2) by (rule msg_step_storage)
  have past: "past_header st1" using read_long_past_header [OF st h(1) [unfolded st0_def]] .
  define header where "header = LongSwap h"
  have eq: "NQNetChan_Process env chan st w =
      (if header AND NETFLAG_CTL \<noteq> 0 then Inr (NQNC_IGNORED, c, st1, w)
      else rbind (nq_unpack env c header st1) (\<lambda>u. case u of
          None \<Rightarrow> Inr (NQNC_IGNORED, c, st1, w)
        | Some (Inl st) \<Rightarrow> Inr (NQNC_RELIABLE, c, st, w)
        | Some (Inr (header, st)) \<Rightarrow>
            if cursize (net_message st) \<noteq> uint (header AND NETFLAG_LENGTH_MASK)
            then Inr (NQNC_IGNORED, c, st, w)
            else rbind (MSG_ReadLong st) (\<lambda>(s, st).
              nq_dispatch env header (LongSwap s) c st w)))"
    unfolding NQNetChan_Process_def Let_def c_def [symmetric] st0_def [symmetric] h(1) rbind_Inr
      prod.case header_def [symmetric] by (rule refl)
  have last: "\<exists>r chan' st' w'. rbind (MSG_ReadLong st2) (\<lambda>(s, st).
              nq_dispatch env hd2 (LongSwap s) c st w) = Inr (r, chan', st', w')
        \<and> chan_ok chan' \<and> msg_storage st'"
    if st2: "msg_ok st2" "msg_storage st2" and rc: "past_header st2"
    for st2 hd2
  proof -
    obtain s st3 where s: "MSG_ReadLong st2 = Inr (s, st3)" "msg_step st2 st3" "msg_ok st3"
      using st2(1) by (rule read_long.safeE)
    have "msg_storage st3" using s(2) st2(2) by (rule msg_step_storage)
    moreover have "8 \<le> cursize (net_message st3) \<or> LongSwap s \<noteq> incoming_reliable_sequence c"
    proof (cases "8 \<le> cursize (net_message st2)")
      case False
      then have "cursize (net_message st2) - msg_readcount st2 < 4"
        using rc st2(1) by (auto simp: msg_ok_def past_header_def)
      then show ?thesis using MSG_ReadLong_short [OF st2(1)] s(1) c(3) by (auto simp: LongSwap_minus_1)
    qed (use s(2) in \<open>simp add: msg_step_def\<close>)
    ultimately show ?thesis using nq_dispatch_ok [OF c(1)] s(1) by simp
  qed
  show ?thesis
  proof (cases "header AND NETFLAG_CTL \<noteq> 0")
    case True
    with eq c(1) st1 show ?thesis by simp
  next
    case False
    consider (game) "nq_unpack env c header st1 = Inl Host_EndGame" "sock c = NS_CLIENT"
      | (packet) u where "nq_unpack env c header st1 = Inr u" "unpacked_ok u"
      using nq_unpack_ok [OF h(3) st1 past, of env c header] by blast
    then show ?thesis
    proof cases
      case game
      with eq False c(2) show ?thesis by simp
    next
      case packet
      then show ?thesis
        using eq False c(1) st1 last
        by (auto simp: unpacked_ok_def split: option.splits sum.splits prod.splits)
    qed
  qed
qed

section \<open>The properties of the receivers\<close>

text \<open>A receive buffer of the engine's size that holds \<open>bs\<close>, for the examples.\<close>

definition received :: "u8 list \<Rightarrow> msgstate" where
  "received bs = \<lparr>net_message = \<lparr>allowoverflow = True, overflowed = False,
       data = bs @ replicate (nat MAX_OVERALLMSGLEN - length bs) 0, maxsize = MAX_OVERALLMSGLEN,
       cursize = int (length bs), packing = SZ_RAWBYTES, currentbit = 0,
       prim = \<lparr>coordtype = 0, anglesize = 0, primflags = 0\<rparr>\<rparr>,
     msg_readcount = 0, msg_badread = False, q3huff = q3huff_initial\<rparr>"

lemma received_storage: "int (length bs) \<le> MAX_OVERALLMSGLEN \<Longrightarrow> msg_storage (received bs)"
  by (auto simp: msg_storage_def received_def msg_data_def)

lemma setup_chan_ok: "chan_ok (Netchan_Setup src qp)"
  by (simp add: chan_ok_def Netchan_Setup_def MAX_OVERALLMSGLEN_def)



text \<open>
  C13.  No packet is accepted twice or out of order: when a channel is fed any packets one
  after the other, duplicates and stale ones among them, the sequence numbers of the
  packets it accepts are strictly increasing, and all above the one it started from.
\<close>

theorem netchan_no_replay:
  assumes "chan_ok chan" and "\<forall>(env, st) \<in> set ps. msg_storage st"
  shows "\<exists>seqs chan' w'. receive_all ps chan w = Inr (seqs, chan', w')
    \<and> sorted_wrt (<) (incoming_sequence chan # seqs)"
  using receive_all_ok [OF assms] by blast

theorem netchan_no_replay_witness:
  "\<forall>env w. \<exists>seqs chan' w'. receive_all
       [(env, received (le32 1 @ le32 0 @ [9])), (env, received (le32 1 @ le32 0 @ [9]))]
       (Netchan_Setup NS_CLIENT 7) w = Inr (seqs, chan', w') \<and> sorted_wrt (<) (0 # seqs)"
proof (intro allI)
  fix env :: netenv and w :: networld
  let ?ps = "[(env, received (le32 1 @ le32 0 @ [9])), (env, received (le32 1 @ le32 0 @ [9]))]"
  have "\<forall>(env, st) \<in> set ?ps. msg_storage st"
    by (simp add: received_storage MAX_OVERALLMSGLEN_def)
  from netchan_no_replay [OF setup_chan_ok this, of NS_CLIENT 7 w]
  show "\<exists>seqs chan' w'. receive_all ?ps (Netchan_Setup NS_CLIENT 7) w = Inr (seqs, chan', w')
     \<and> sorted_wrt (<) (0 # seqs)"
    by (simp add: Netchan_Setup_def)
qed

text \<open>
  C14.  \<open>NQNetChan_Process\<close> is safe on hostile packets: whatever the packet holds and
  whatever the zlib decoder makes of it, it returns without leaving the buffers; only a
  client can end, by \<open>Host_EndGame\<close>, on a packet it cannot unpack.  The one state left
  out is an expected sequence number of -1, which the number missing from a packet of
  fewer than eight bytes would match.
\<close>

theorem nqnetchan_process_safe:
  assumes "chan_ok chan" and "incoming_reliable_sequence chan \<noteq> - 1" and "msg_storage st"
  shows "(NQNetChan_Process env chan st w = Inl Host_EndGame \<and> sock chan = NS_CLIENT)
    \<or> (\<exists>r chan' st' w'. NQNetChan_Process env chan st w = Inr (r, chan', st', w')
        \<and> chan_ok chan' \<and> msg_storage st')"
  using NQNetChan_Process_ok [OF assms] .

theorem nqnetchan_process_safe_witness:
  "\<forall>env w. \<exists>r chan' st' w'. NQNetChan_Process env (Netchan_Setup NS_SERVER 7) (received [0, 0x20, 0, 4])
     w = Inr (r, chan', st', w') \<and> chan_ok chan' \<and> msg_storage st'"
proof (intro allI)
  fix env :: netenv and w :: networld
  have "incoming_reliable_sequence (Netchan_Setup NS_SERVER 7) \<noteq> - 1"
    and server: "sock (Netchan_Setup NS_SERVER 7) \<noteq> NS_CLIENT"
    by (simp_all add: Netchan_Setup_def)
  from nqnetchan_process_safe [OF setup_chan_ok this(1) received_storage [of "[0, 0x20, 0, 4]"], of env w] server
  show "\<exists>r chan' st' w'. NQNetChan_Process env (Netchan_Setup NS_SERVER 7) (received [0, 0x20, 0, 4])
     w = Inr (r, chan', st', w') \<and> chan_ok chan' \<and> msg_storage st'"
    by (simp add: MAX_OVERALLMSGLEN_def)
qed

end
