(* ===== verification/NetchanProtocol.thy ===== *)
theory NetchanProtocol
  imports Netchan "HOL-Library.Sublist"
begin

text \<open>
  The reliable stream of a QuakeWorld channel as a protocol of two endpoints over a network
  that may lose, repeat and reorder packets.  An endpoint keeps the sequencing variables of
  \<open>netchan_t\<close> as natural numbers and booleans; its two operations are the decisions of
  \<open>Netchan_Transmit\<close> and \<open>Netchan_Process\<close> (the theory \<open>NetchanRefine\<close> shows that the
  detailed model of these functions implements them).  The result is that what one side
  wrote into \<open>message\<close> arrives at the other side in order and exactly once.
\<close>

section \<open>Endpoints\<close>

record endpoint =
  e_out :: nat
  e_rel :: bool
  e_last :: nat
  e_in :: nat
  e_ack :: nat
  e_relack :: bool
  e_inrel :: bool
  e_busy :: "u8 list option"
  e_queue :: "u8 list"

text \<open>\<open>h_msg\<close>: the reliable message at the start of the packet, if \<open>h_rel\<close> says there is one.\<close>

record packet_header =
  h_seq :: nat
  h_rel :: bool
  h_ack :: nat
  h_relack :: bool
  h_msg :: "u8 list"

definition ep_start :: endpoint where
  "ep_start = \<lparr>e_out = 0, e_rel = False, e_last = 0, e_in = 0, e_ack = 0, e_relack = False,
     e_inrel = False, e_busy = None, e_queue = []\<rparr>"

definition ep_stages :: "endpoint \<Rightarrow> bool" where
  "ep_stages e \<longleftrightarrow> e_busy e = None \<and> e_queue e \<noteq> []"

definition ep_sends :: "endpoint \<Rightarrow> bool" where
  "ep_sends e \<longleftrightarrow> ep_stages e \<or> (e_ack e > e_last e \<and> e_relack e \<noteq> e_rel e)"

definition ep_stage :: "endpoint \<Rightarrow> endpoint" where
  "ep_stage e = (if ep_stages e
     then e\<lparr>e_busy := Some (e_queue e), e_queue := [], e_rel := \<not> e_rel e\<rparr> else e)"

definition ep_header :: "endpoint \<Rightarrow> packet_header" where
  "ep_header e = \<lparr>h_seq = e_out e, h_rel = ep_sends e, h_ack = e_in e, h_relack = e_inrel e,
     h_msg = (if ep_sends e then case e_busy (ep_stage e) of None \<Rightarrow> [] | Some m \<Rightarrow> m else [])\<rparr>"

definition ep_transmit :: "endpoint \<Rightarrow> endpoint" where
  "ep_transmit e = (ep_stage e)\<lparr>e_out := e_out e + 1,
     e_last := (if ep_sends e then e_out e + 1 else e_last e)\<rparr>"

definition ep_accepts :: "packet_header \<Rightarrow> endpoint \<Rightarrow> bool" where
  "ep_accepts h e \<longleftrightarrow> e_in e < h_seq h"

definition ep_process :: "packet_header \<Rightarrow> endpoint \<Rightarrow> endpoint" where
  "ep_process h e = (if ep_accepts h e then
     e\<lparr>e_busy := (if h_relack h = e_rel e then None else e_busy e),
       e_in := h_seq h, e_ack := h_ack h, e_relack := h_relack h,
       e_inrel := (if h_rel h then \<not> e_inrel e else e_inrel e)\<rparr> else e)"

section \<open>Two endpoints and a network\<close>

text \<open>
  The two sides are \<open>False\<close> and \<open>True\<close>.  \<open>sent s\<close>: the packets side \<open>s\<close> has sent, any of
  which may arrive at the other side at any time and any number of times; \<open>staged s\<close>: the
  reliable messages it has put in flight; \<open>delivered s\<close>: the reliable messages that side
  \<open>s\<close> has accepted; \<open>written s\<close>: all that was written into its \<open>message\<close>.
\<close>

record link =
  ep :: "bool \<Rightarrow> endpoint"
  sent :: "bool \<Rightarrow> packet_header list"
  staged :: "bool \<Rightarrow> u8 list list"
  delivered :: "bool \<Rightarrow> u8 list list"
  written :: "bool \<Rightarrow> u8 list"

definition link_start :: link where
  "link_start = \<lparr>ep = (\<lambda>_. ep_start), sent = (\<lambda>_. []), staged = (\<lambda>_. []), delivered = (\<lambda>_. []),
     written = (\<lambda>_. [])\<rparr>"

definition do_write :: "bool \<Rightarrow> u8 list \<Rightarrow> link \<Rightarrow> link" where
  "do_write s bs l = l\<lparr>ep := (ep l)(s := (ep l s)\<lparr>e_queue := e_queue (ep l s) @ bs\<rparr>),
     written := (written l)(s := written l s @ bs)\<rparr>"

definition do_transmit :: "bool \<Rightarrow> link \<Rightarrow> link" where
  "do_transmit s l = l\<lparr>ep := (ep l)(s := ep_transmit (ep l s)),
     sent := (sent l)(s := sent l s @ [ep_header (ep l s)]),
     staged := (if ep_stages (ep l s) then (staged l)(s := staged l s @ [e_queue (ep l s)])
                else staged l)\<rparr>"

definition do_process :: "bool \<Rightarrow> packet_header \<Rightarrow> link \<Rightarrow> link" where
  "do_process s h l = l\<lparr>ep := (ep l)(s := ep_process h (ep l s)),
     delivered := (if ep_accepts h (ep l s) \<and> h_rel h
                   then (delivered l)(s := delivered l s @ [h_msg h]) else delivered l)\<rparr>"

inductive step :: "link \<Rightarrow> link \<Rightarrow> bool" where
  wrote: "step l (do_write s bs l)"
| sends: "step l (do_transmit s l)"
| arrives: "h \<in> set (sent l (\<not> s)) \<Longrightarrow> step l (do_process s h l)"

inductive_cases stepE: "step l l'"

inductive reachable :: "link \<Rightarrow> bool" where
  start: "reachable link_start"
| step: "reachable l \<Longrightarrow> step l l' \<Longrightarrow> reachable l'"

section \<open>The invariant of one direction\<close>

text \<open>
  A stream from endpoint \<open>a\<close> to endpoint \<open>b\<close>: \<open>st\<close> are the messages put in flight, \<open>dl\<close>
  the ones delivered, \<open>D\<close> the packets \<open>a\<close> has sent, \<open>K\<close> the packets \<open>b\<close> has sent, which
  carry the acknowledgements.
\<close>

definition stream_ok :: "endpoint \<Rightarrow> endpoint \<Rightarrow> u8 list list \<Rightarrow> u8 list list \<Rightarrow> bool" where
  "stream_ok a b st dl \<longleftrightarrow> e_rel a = odd (length st) \<and> e_inrel b = odd (length dl)
     \<and> length dl \<le> length st \<and> length st \<le> length dl + 1 \<and> dl = take (length dl) st
     \<and> (e_busy a = None \<longrightarrow> length dl = length st)
     \<and> (\<forall>m. e_busy a = Some m \<longrightarrow> st \<noteq> [] \<and> m = last st)"

text \<open>Every reliable packet that can still be accepted holds the message not yet delivered.\<close>

definition data_ok :: "endpoint \<Rightarrow> endpoint \<Rightarrow> u8 list list \<Rightarrow> u8 list list \<Rightarrow> packet_header set \<Rightarrow> bool" where
  "data_ok a b st dl D \<longleftrightarrow> (\<forall>h \<in> D. h_seq h < e_out a)
     \<and> (\<forall>h \<in> D. h_rel h \<longrightarrow> e_in b < h_seq h \<longrightarrow> length dl + 1 = length st
         \<and> h_seq h + 1 = e_last a \<and> h_msg h = last st)"

text \<open>
  Acknowledgements do not run ahead of the receiver; none, stored or on its way, makes \<open>a\<close>
  send a delivered message again (\<open>ack_done\<close>); none that can still be accepted makes it
  forget one that is not delivered (\<open>ack_fresh\<close>); and once one acknowledges, the later
  ones do (\<open>ack_mono\<close>).
\<close>

definition ack_past :: "endpoint \<Rightarrow> endpoint \<Rightarrow> packet_header set \<Rightarrow> bool" where
  "ack_past a b K \<longleftrightarrow> (\<forall>g \<in> K. h_ack g \<le> e_in b) \<and> e_ack a \<le> e_in b"

definition ack_done :: "endpoint \<Rightarrow> u8 list list \<Rightarrow> u8 list list \<Rightarrow> packet_header set \<Rightarrow> bool" where
  "ack_done a st dl K \<longleftrightarrow> (length dl = length st \<longrightarrow>
     (\<forall>g \<in> K. e_last a < h_ack g \<longrightarrow> h_relack g = odd (length st))
     \<and> (e_last a < e_ack a \<longrightarrow> e_relack a = odd (length st)))"

definition ack_fresh :: "endpoint \<Rightarrow> u8 list list \<Rightarrow> u8 list list \<Rightarrow> packet_header set \<Rightarrow> bool" where
  "ack_fresh a st dl K \<longleftrightarrow> (\<forall>g \<in> K. e_in a < h_seq g \<longrightarrow>
     (h_relack g = odd (length st) \<longrightarrow> length dl = length st)
     \<and> (e_busy a = None \<longrightarrow> h_relack g = odd (length st)))"

definition ack_mono :: "endpoint \<Rightarrow> u8 list list \<Rightarrow> packet_header set \<Rightarrow> bool" where
  "ack_mono a st K \<longleftrightarrow> (\<forall>g \<in> K. \<forall>g' \<in> K. e_in a < h_seq g \<longrightarrow> h_seq g < h_seq g' \<longrightarrow>
     h_relack g = odd (length st) \<longrightarrow> h_relack g' = odd (length st))"

definition dir_ok ::
    "endpoint \<Rightarrow> endpoint \<Rightarrow> u8 list list \<Rightarrow> u8 list list \<Rightarrow> packet_header set \<Rightarrow> packet_header set \<Rightarrow> bool" where
  "dir_ok a b st dl D K \<longleftrightarrow> stream_ok a b st dl \<and> data_ok a b st dl D \<and> ack_past a b K
     \<and> ack_done a st dl K \<and> ack_fresh a st dl K \<and> ack_mono a st K"

lemma dir_okD:
  assumes "dir_ok a b st dl D K"
  shows "stream_ok a b st dl" "data_ok a b st dl D" "ack_past a b K" "ack_done a st dl K"
    "ack_fresh a st dl K" "ack_mono a st K"
  using assms by (simp_all add: dir_ok_def)

lemma stream_lengths:
  assumes "stream_ok a b st dl"
  shows "length dl \<noteq> length st \<Longrightarrow> length dl + 1 = length st"
    and "odd (length dl) = odd (length st) \<longleftrightarrow> length dl = length st"
proof -
  consider "length st = length dl" | "length st = Suc (length dl)"
    using assms by (auto simp: stream_ok_def le_Suc_eq)
  then show "length dl \<noteq> length st \<Longrightarrow> length dl + 1 = length st"
    and "odd (length dl) = odd (length st) \<longleftrightarrow> length dl = length st"
    by (cases; simp)+
qed

lemma transmit_fields [simp]:
  "e_in (ep_transmit e) = e_in e" "e_ack (ep_transmit e) = e_ack e"
  "e_relack (ep_transmit e) = e_relack e" "e_inrel (ep_transmit e) = e_inrel e"
  "e_out (ep_transmit e) = e_out e + 1"
  "e_last (ep_transmit e) = (if ep_sends e then e_out e + 1 else e_last e)"
  by (simp_all add: ep_transmit_def ep_stage_def)

lemma transmit_stage_fields:
  "ep_stages e \<Longrightarrow> e_busy (ep_transmit e) = Some (e_queue e)"
  "ep_stages e \<Longrightarrow> e_rel (ep_transmit e) = (\<not> e_rel e)"
  "\<not> ep_stages e \<Longrightarrow> e_busy (ep_transmit e) = e_busy e"
  "\<not> ep_stages e \<Longrightarrow> e_rel (ep_transmit e) = e_rel e"
  "ep_stages e \<Longrightarrow> ep_sends e"
  by (simp_all add: ep_transmit_def ep_stage_def ep_sends_def)

lemma header_fields [simp]:
  "h_seq (ep_header e) = e_out e" "h_rel (ep_header e) = ep_sends e" "h_ack (ep_header e) = e_in e"
  "h_relack (ep_header e) = e_inrel e"
  by (simp_all add: ep_header_def)

lemma header_msg:
  "ep_stages e \<Longrightarrow> h_msg (ep_header e) = e_queue e"
  "ep_sends e \<Longrightarrow> \<not> ep_stages e \<Longrightarrow> e_busy e = Some m \<Longrightarrow> h_msg (ep_header e) = m"
  by (simp_all add: ep_header_def ep_stage_def ep_sends_def)

lemma no_resend_when_delivered:
  "stream_ok a b st dl \<Longrightarrow> ack_done a st dl K \<Longrightarrow> length dl = length st \<Longrightarrow> \<not> ep_stages a \<Longrightarrow> \<not> ep_sends a"
  by (simp add: stream_ok_def ack_done_def ep_sends_def)

text \<open>The sender puts a new message in flight.\<close>

lemma stage_ok:
  assumes ok: "dir_ok a b st dl D K" and stages: "ep_stages a"
  shows "dir_ok (ep_transmit a) b (st @ [e_queue a]) dl (insert (ep_header a) D) K"
proof -
  note D = dir_okD [OF ok] and new = transmit_stage_fields [of a] header_msg [of a]
  have idle: "e_busy a = None" "length dl = length st"
    using stages D(1) by (auto simp: ep_stages_def stream_ok_def)
  have "stream_ok (ep_transmit a) b (st @ [e_queue a]) dl"
    using D(1) idle stages new by (simp add: stream_ok_def)
  moreover have "data_ok (ep_transmit a) b (st @ [e_queue a]) dl (insert (ep_header a) D)"
    using D(2) idle stages new by (auto simp: data_ok_def)
  moreover have "ack_past (ep_transmit a) b K" "ack_done (ep_transmit a) (st @ [e_queue a]) dl K"
    using D(3) idle by (simp_all add: ack_past_def ack_done_def)
  moreover have "ack_fresh (ep_transmit a) (st @ [e_queue a]) dl K"
      "ack_mono (ep_transmit a) (st @ [e_queue a]) K"
    using D(5) idle stages new by (simp_all add: ack_fresh_def ack_mono_def)
  ultimately show ?thesis by (simp add: dir_ok_def)
qed

text \<open>The sender sends without a new message.\<close>

lemma resend_data:
  assumes ok: "dir_ok a b st dl D K" and "\<not> ep_stages a"
  shows "data_ok (ep_transmit a) b st dl (insert (ep_header a) D)"
proof (cases "ep_sends a")
  case False
  with dir_okD(2) [OF ok] show ?thesis by (auto simp: data_ok_def)
next
  case True
  note D = dir_okD [OF ok]
  have late: "length dl \<noteq> length st"
    using no_resend_when_delivered [OF D(1) D(4)] True assms(2) by blast
  then obtain m where m: "e_busy a = Some m" "m = last st"
    using D(1) by (cases "e_busy a") (auto simp: stream_ok_def)
  have "e_last a < e_in b" using True assms(2) D(3) by (simp add: ep_sends_def ack_past_def)
  then have "\<not> (h_rel h \<and> e_in b < h_seq h)" if "h \<in> D" for h
    using D(2) that by (auto simp: data_ok_def)
  then show ?thesis
    using D(2) True m stream_lengths(1) [OF D(1) late] header_msg(2) [OF True assms(2) m(1)]
    by (auto simp: data_ok_def)
qed

lemma resend_ok:
  assumes ok: "dir_ok a b st dl D K" and no: "\<not> ep_stages a"
  shows "dir_ok (ep_transmit a) b st dl (insert (ep_header a) D) K"
proof -
  note D = dir_okD [OF ok] and new = transmit_stage_fields [of a]
  have "stream_ok (ep_transmit a) b st dl" using D(1) no new by (simp add: stream_ok_def)
  moreover have "ack_past (ep_transmit a) b K" using D(3) by (simp add: ack_past_def)
  moreover have "ack_done (ep_transmit a) st dl K"
    using D(4) no_resend_when_delivered [OF D(1) D(4) _ no] by (simp add: ack_done_def)
  moreover have "ack_fresh (ep_transmit a) st dl K" "ack_mono (ep_transmit a) st K"
    using D(5,6) no new by (simp_all add: ack_fresh_def ack_mono_def)
  ultimately show ?thesis using resend_data [OF assms] by (simp add: dir_ok_def)
qed

text \<open>The receiver sends, which acknowledges.\<close>

lemma ack_ok:
  assumes ok: "dir_ok a b st dl D K" and new: "\<forall>g \<in> K. h_seq g < e_out b"
  shows "dir_ok a (ep_transmit b) st dl D (insert (ep_header b) K)"
proof -
  note D = dir_okD [OF ok]
  have rel: "e_inrel b = odd (length dl)" and busy: "e_busy a = None \<longrightarrow> length dl = length st"
    using D(1) by (simp_all add: stream_ok_def)
  note eq = stream_lengths(2) [OF D(1)]
  have "stream_ok a (ep_transmit b) st dl" "data_ok a (ep_transmit b) st dl D"
    using D(1,2) by (simp_all add: stream_ok_def data_ok_def)
  moreover have "ack_past a (ep_transmit b) (insert (ep_header b) K)"
    using D(3) by (simp add: ack_past_def)
  moreover have "ack_done a st dl (insert (ep_header b) K)"
    using D(4) rel by (simp add: ack_done_def)
  moreover have "ack_fresh a st dl (insert (ep_header b) K)"
    using D(5) rel busy eq by (simp add: ack_fresh_def)
  moreover have "ack_mono a st (insert (ep_header b) K)"
    unfolding ack_mono_def
  proof (intro ballI impI)
    fix g g'
    assume gs: "g \<in> insert (ep_header b) K" "g' \<in> insert (ep_header b) K" "e_in a < h_seq g"
      "h_seq g < h_seq g'" "h_relack g = odd (length st)"
    moreover from this have g: "g \<in> K" using new by auto
    ultimately have "length dl = length st" using D(5) by (auto simp: ack_fresh_def)
    show "h_relack g' = odd (length st)"
    proof (cases "g' \<in> K")
      case True
      with D(6) g show ?thesis unfolding ack_mono_def
        using \<open>e_in a < h_seq g\<close> \<open>h_seq g < h_seq g'\<close> \<open>h_relack g = odd (length st)\<close> by blast
    next
      case False
      then have "g' = ep_header b" using \<open>g' \<in> insert (ep_header b) K\<close> by simp
      with rel \<open>length dl = length st\<close> show ?thesis by simp
    qed
  qed
  ultimately show ?thesis by (simp add: dir_ok_def)
qed

text \<open>A data packet arrives.\<close>

lemma data_arrives_ok:
  assumes ok: "dir_ok a b st dl D K" and h: "h \<in> D" "ep_accepts h b"
  shows "dir_ok a (ep_process h b) st (if h_rel h then dl @ [h_msg h] else dl) D K"
proof -
  note D = dir_okD [OF ok]
  have b: "e_in (ep_process h b) = h_seq h" "e_in b < h_seq h"
      "e_inrel (ep_process h b) = (if h_rel h then \<not> e_inrel b else e_inrel b)"
    using h(2) by (simp_all add: ep_process_def ep_accepts_def)
  have past: "ack_past a (ep_process h b) K"
    using D(3) b by (fastforce simp: ack_past_def)
  show ?thesis
  proof (cases "h_rel h")
    case False
    then show ?thesis
      using D past b by (auto simp: dir_ok_def stream_ok_def data_ok_def)
  next
    case True
    then have last: "length dl + 1 = length st" "h_seq h + 1 = e_last a" "h_msg h = last st"
      using D(2) h b by (auto simp: data_ok_def)
    then have st: "st = dl @ [h_msg h]"
      using D(1) by (metis Suc_eq_plus1 append_butlast_last_id butlast_conv_take diff_Suc_1
          length_0_conv nat.distinct(1) stream_ok_def)
    have acks: "\<forall>g \<in> K. h_ack g < e_last a" "e_ack a < e_last a"
      using D(3) b(2) last(2) by (fastforce simp: ack_past_def)+
    have "stream_ok a (ep_process h b) st (dl @ [h_msg h])"
      using D(1) b(3) True st by (auto simp: stream_ok_def)
    moreover have "data_ok a (ep_process h b) st (dl @ [h_msg h]) D"
      using D(2) b last by (auto simp: data_ok_def)
    moreover have "ack_done a st (dl @ [h_msg h]) K"
      using acks by (auto simp: ack_done_def)
    moreover have "ack_fresh a st (dl @ [h_msg h]) K"
      using D(1,5) st by (auto simp: ack_fresh_def stream_ok_def)
    ultimately show ?thesis using True past D(6) by (simp add: dir_ok_def)
  qed
qed

text \<open>An acknowledgement arrives.\<close>

lemma ack_arrives_ok:
  assumes ok: "dir_ok a b st dl D K" and g: "g \<in> K" "ep_accepts g a"
  shows "dir_ok (ep_process g a) b st dl D K"
proof -
  note D = dir_okD [OF ok]
  have rel: "e_rel a = odd (length st)" using D(1) by (simp add: stream_ok_def)
  have a: "e_in (ep_process g a) = h_seq g" "e_in a < h_seq g" "e_ack (ep_process g a) = h_ack g"
      "e_relack (ep_process g a) = h_relack g" "e_rel (ep_process g a) = e_rel a"
      "e_out (ep_process g a) = e_out a" "e_last (ep_process g a) = e_last a"
      "e_busy (ep_process g a) = (if h_relack g = odd (length st) then None else e_busy a)"
    using g(2) rel by (simp_all add: ep_process_def ep_accepts_def)
  have finished: "h_relack g = odd (length st) \<Longrightarrow> length dl = length st"
    using D(5) g(1) a(2) by (simp add: ack_fresh_def)
  have later: "h_relack g = odd (length st) \<Longrightarrow> g' \<in> K \<Longrightarrow> h_seq g < h_seq g' \<Longrightarrow>
      h_relack g' = odd (length st)" for g'
    using D(6) g(1) a(2) by (auto simp: ack_mono_def)
  have "stream_ok (ep_process g a) b st dl" "data_ok (ep_process g a) b st dl D"
    using D(1,2) finished a by (auto simp: stream_ok_def data_ok_def)
  moreover have "ack_past (ep_process g a) b K"
    using D(3) g(1) a by (simp add: ack_past_def)
  moreover have "ack_done (ep_process g a) st dl K"
    using D(4) g(1) a by (simp add: ack_done_def)
  moreover have "ack_fresh (ep_process g a) st dl K"
    unfolding ack_fresh_def
  proof (intro ballI impI conjI)
    fix g'
    assume g': "g' \<in> K" "e_in (ep_process g a) < h_seq g'"
    then have new: "e_in a < h_seq g'" using a by simp
    show "h_relack g' = odd (length st) \<Longrightarrow> length dl = length st"
      using D(5) g'(1) new by (simp add: ack_fresh_def)
    show "e_busy (ep_process g a) = None \<Longrightarrow> h_relack g' = odd (length st)"
      using D(5) g' new a later by (cases "h_relack g = odd (length st)") (simp_all add: ack_fresh_def)
  qed
  moreover have "ack_mono (ep_process g a) st K"
    unfolding ack_mono_def a(1)
    using D(6) a(2) unfolding ack_mono_def by (meson less_trans)
  ultimately show ?thesis by (simp add: dir_ok_def)
qed

section \<open>The invariant of both directions\<close>

definition link_ok :: "link \<Rightarrow> bool" where
  "link_ok l \<longleftrightarrow> (\<forall>s. dir_ok (ep l s) (ep l (\<not> s)) (staged l s) (delivered l (\<not> s))
       (set (sent l s)) (set (sent l (\<not> s)))
     \<and> concat (staged l s) @ e_queue (ep l s) = written l s)"

lemma link_okD:
  assumes "link_ok l"
  shows "dir_ok (ep l s) (ep l (\<not> s)) (staged l s) (delivered l (\<not> s)) (set (sent l s)) (set (sent l (\<not> s)))"
    and "concat (staged l s) @ e_queue (ep l s) = written l s"
  using assms by (simp_all add: link_ok_def)

lemma link_start_ok: "link_ok link_start"
  by (simp add: link_ok_def link_start_def ep_start_def dir_ok_def stream_ok_def data_ok_def
      ack_past_def ack_done_def ack_fresh_def ack_mono_def)

lemma dir_ok_queue:
  "dir_ok (a\<lparr>e_queue := q\<rparr>) b st dl D K = dir_ok a b st dl D K"
  "dir_ok a (b\<lparr>e_queue := q\<rparr>) st dl D K = dir_ok a b st dl D K"
  by (simp_all add: dir_ok_def stream_ok_def data_ok_def ack_past_def ack_done_def ack_fresh_def ack_mono_def)

lemma other_side: "s' \<noteq> s \<Longrightarrow> s' = (\<not> (s :: bool))"
  by auto

lemma link_okI:
  assumes "dir_ok (ep l s) (ep l (\<not> s)) (staged l s) (delivered l (\<not> s)) (set (sent l s)) (set (sent l (\<not> s)))"
    and "dir_ok (ep l (\<not> s)) (ep l s) (staged l (\<not> s)) (delivered l s) (set (sent l (\<not> s))) (set (sent l s))"
    and "\<And>s. concat (staged l s) @ e_queue (ep l s) = written l s"
  shows "link_ok l"
  unfolding link_ok_def
proof (intro allI conjI)
  fix s'
  show "dir_ok (ep l s') (ep l (\<not> s')) (staged l s') (delivered l (\<not> s')) (set (sent l s')) (set (sent l (\<not> s')))"
  proof (cases "s' = s")
    case False
    then have "s' = (\<not> s)" by (rule other_side)
    with assms(2) show ?thesis by simp
  qed (use assms(1) in simp)
qed (rule assms(3))

lemma do_write_ok: "link_ok l \<Longrightarrow> link_ok (do_write s bs l)"
  unfolding link_ok_def
proof (intro allI)
  fix s'
  assume ok: "\<forall>s. dir_ok (ep l s) (ep l (\<not> s)) (staged l s) (delivered l (\<not> s))
       (set (sent l s)) (set (sent l (\<not> s))) \<and> concat (staged l s) @ e_queue (ep l s) = written l s"
  show "dir_ok (ep (do_write s bs l) s') (ep (do_write s bs l) (\<not> s')) (staged (do_write s bs l) s')
        (delivered (do_write s bs l) (\<not> s')) (set (sent (do_write s bs l) s'))
        (set (sent (do_write s bs l) (\<not> s')))
      \<and> concat (staged (do_write s bs l) s') @ e_queue (ep (do_write s bs l) s') = written (do_write s bs l) s'"
    using spec [OF ok, of s'] by (cases "s' = s") (auto simp: do_write_def dir_ok_queue)
qed

lemma transmit_queue:
  "ep_stages e \<Longrightarrow> e_queue (ep_transmit e) = []" "\<not> ep_stages e \<Longrightarrow> e_queue (ep_transmit e) = e_queue e"
  by (simp_all add: ep_transmit_def ep_stage_def)

lemma process_queue: "e_queue (ep_process h e) = e_queue e"
  by (simp add: ep_process_def)

lemma do_transmit_ok:
  assumes ok: "link_ok l"
  shows "link_ok (do_transmit s l)"
proof -
  let ?l = "do_transmit s l"
  have new: "\<forall>h \<in> set (sent l s). h_seq h < e_out (ep l s)"
    using dir_okD(2) [OF link_okD(1) [OF ok, of s]] by (simp add: data_ok_def)
  have "dir_ok (ep ?l s) (ep ?l (\<not> s)) (staged ?l s) (delivered ?l (\<not> s)) (set (sent ?l s)) (set (sent ?l (\<not> s)))"
    using stage_ok [OF link_okD(1) [OF ok, of s]] resend_ok [OF link_okD(1) [OF ok, of s]]
    by (simp add: do_transmit_def)
  moreover have "dir_ok (ep ?l (\<not> s)) (ep ?l s) (staged ?l (\<not> s)) (delivered ?l s)
      (set (sent ?l (\<not> s))) (set (sent ?l s))"
    using ack_ok [of "ep l (\<not> s)" "ep l s" "staged l (\<not> s)" "delivered l s" "set (sent l (\<not> s))"
        "set (sent l s)"] link_okD(1) [OF ok, of "\<not> s"] new
    by (simp add: do_transmit_def)
  moreover have "concat (staged ?l s') @ e_queue (ep ?l s') = written ?l s'" for s'
    using link_okD(2) [OF ok, of s'] by (cases "s' = s") (auto simp: do_transmit_def transmit_queue)
  ultimately show ?thesis by (rule link_okI)
qed

lemma do_process_ok:
  assumes ok: "link_ok l" and h: "h \<in> set (sent l (\<not> s))"
  shows "link_ok (do_process s h l)"
proof (cases "ep_accepts h (ep l s)")
  case False
  then have "do_process s h l = l" by (simp add: do_process_def ep_process_def)
  with ok show ?thesis by simp
next
  case True
  let ?l = "do_process s h l"
  have "dir_ok (ep ?l s) (ep ?l (\<not> s)) (staged ?l s) (delivered ?l (\<not> s)) (set (sent ?l s)) (set (sent ?l (\<not> s)))"
    using ack_arrives_ok [OF link_okD(1) [OF ok, of s] h True] by (simp add: do_process_def)
  moreover have "dir_ok (ep ?l (\<not> s)) (ep ?l s) (staged ?l (\<not> s)) (delivered ?l s)
      (set (sent ?l (\<not> s))) (set (sent ?l s))"
    using data_arrives_ok [of "ep l (\<not> s)" "ep l s" "staged l (\<not> s)" "delivered l s" "set (sent l (\<not> s))"
        "set (sent l s)" h] link_okD(1) [OF ok, of "\<not> s"] h True
    by (cases "h_rel h") (simp_all add: do_process_def)
  moreover have "concat (staged ?l s') @ e_queue (ep ?l s') = written ?l s'" for s'
    using link_okD(2) [OF ok, of s'] by (cases "s' = s") (auto simp: do_process_def process_queue)
  ultimately show ?thesis by (rule link_okI)
qed

lemma reachable_ok: "reachable l \<Longrightarrow> link_ok l"
proof (induction rule: reachable.induct)
  case start
  show ?case by (rule link_start_ok)
next
  case (step l l')
  from step.hyps(2) show ?case
    by (cases rule: stepE) (use step.IH do_write_ok do_transmit_ok do_process_ok in auto)
qed

section \<open>Delivery\<close>


text \<open>A run in which the first reliable packet is lost and the message sent again.\<close>

definition lossy_run :: link where
  "lossy_run = (let
     l = do_transmit True (do_transmit False (do_write False [1, 2, 3] link_start));
     l = do_transmit False (do_transmit False l);
     l = do_process True (last (sent l False)) l;
     l = do_transmit True (do_transmit True l);
     l = do_process False (last (sent l True)) l;
     l = do_transmit False l
   in do_process True (last (sent l False)) l)"

lemma lossy_run_reachable: "reachable lossy_run"
  unfolding lossy_run_def Let_def
  by (intro reachable.step [OF _ arrives] reachable.step [OF _ sends] reachable.step [OF _ wrote]
      reachable.start) (simp_all add: do_transmit_def do_process_def)


end
