(* ===== verification/NetchanRefine.thy ===== *)
theory NetchanRefine
  imports NetchanSafe NetchanProtocol
begin

text \<open>
  The detailed QuakeWorld channel implements the endpoints of \<open>NetchanProtocol\<close>:
  \<open>Netchan_Transmit\<close> performs \<open>ep_transmit\<close> and its packets carry \<open>ep_header\<close>, and
  \<open>Netchan_Process\<close> performs \<open>ep_process\<close> on the header a packet carries.
\<close>

section \<open>Abstraction\<close>

definition abs_ep :: "netchan \<Rightarrow> endpoint" where
  "abs_ep chan = \<lparr>e_out = unat (outgoing_sequence chan), e_rel = (reliable_sequence chan \<noteq> 0),
     e_last = unat (last_reliable_sequence chan), e_in = unat (incoming_sequence chan),
     e_ack = unat (incoming_acknowledged chan),
     e_relack = (incoming_reliable_acknowledged chan \<noteq> 0),
     e_inrel = (incoming_reliable_sequence chan \<noteq> 0),
     e_busy = (if reliable_length chan = 0 then None
               else Some (take (nat (reliable_length chan)) (reliable_buf chan))),
     e_queue = contents (message chan)\<rparr>"

text \<open>A number below \<open>2 ^ 31\<close>, and a single bit.\<close>

definition seq_ok :: "u32 \<Rightarrow> bool" where
  "seq_ok w \<longleftrightarrow> unat w < 2 ^ 31"

definition is_bit :: "u32 \<Rightarrow> bool" where
  "is_bit w \<longleftrightarrow> w = 0 \<or> w = 1"

definition chan_wf :: "netchan \<Rightarrow> bool" where
  "chan_wf chan \<longleftrightarrow> \<not> isnqprotocol chan \<and> compresstable chan = None
     \<and> is_bit (reliable_sequence chan) \<and> is_bit (incoming_reliable_acknowledged chan)
     \<and> is_bit (incoming_reliable_sequence chan)
     \<and> seq_ok (outgoing_sequence chan) \<and> seq_ok (last_reliable_sequence chan)
     \<and> seq_ok (incoming_sequence chan) \<and> seq_ok (incoming_acknowledged chan)
     \<and> int (length (reliable_buf chan)) = MAX_OVERALLMSGLEN
     \<and> 0 \<le> reliable_length chan \<and> reliable_length chan \<le> MAX_OVERALLMSGLEN
     \<and> 0 \<le> cursize (message chan) \<and> cursize (message chan) \<le> MAX_OVERALLMSGLEN
     \<and> int (length (data (message chan))) = MAX_OVERALLMSGLEN"

lemma seq_ok_sint:
  assumes "seq_ok w" shows "sint w = uint w"
proof -
  have "bit w n \<Longrightarrow> n < 31" for n using assms bit_bound [of w n 31] by (simp add: seq_ok_def)
  from this [of 31] this show ?thesis
    by (intro bit_eqI) (force simp: bit_simps min_def not_le)
qed

lemma seq_less: "seq_ok v \<Longrightarrow> seq_ok w \<Longrightarrow> sint v < sint w \<longleftrightarrow> unat v < unat w"
  by (simp add: seq_ok_sint word_less_nat_alt [symmetric] word_less_def)

lemma bit_of_bool: "is_bit w \<Longrightarrow> w = of_bool (w \<noteq> 0)"
  by (auto simp: is_bit_def)

text \<open>The qport of a client's packet, and the eight bytes that carry a header.\<close>

definition qport_bytes :: "netchan \<Rightarrow> u8 list" where
  "qport_bytes chan = (if sock chan = NS_CLIENT then
     if qportsize chan = 2 then enc16 (qport chan)
     else if qportsize chan = 1 then [ucast (qport chan AND 0xff)] else [] else [])"

definition seq_word :: "nat \<Rightarrow> bool \<Rightarrow> u32" where
  "seq_word n b = word_of_nat n OR push_bit 31 (of_bool b)"

definition header_bytes :: "bool \<Rightarrow> packet_header \<Rightarrow> u8 list" where
  "header_bytes stun h =
     (let w1 = seq_word (h_seq h) (h_rel h); w2 = seq_word (h_ack h) (h_relack h) in
      if stun then le32 (LongSwap (w1 + ANTISTUNBIAS)) @ le32 (LongSwap w2)
      else le32 w1 @ le32 w2)"

lemma length_header_bytes [simp]: "length (header_bytes stun h) = 8"
  by (simp add: header_bytes_def Let_def)

section \<open>Sending\<close>

text \<open>What sending does not change.\<close>

definition same_settings :: "netchan \<Rightarrow> netchan \<Rightarrow> bool" where
  "same_settings chan chan' \<longleftrightarrow> pext_stunaware chan' = pext_stunaware chan
     \<and> pext_fragmentation chan' = pext_fragmentation chan \<and> mtu chan' = mtu chan
     \<and> sock chan' = sock chan \<and> qport chan' = qport chan \<and> qportsize chan' = qportsize chan
     \<and> dupe chan' = dupe chan \<and> fatal_error chan' = fatal_error chan
     \<and> incoming_sequence chan' = incoming_sequence chan
     \<and> incoming_reliable_sequence chan' = incoming_reliable_sequence chan
     \<and> overflowed (message chan') = overflowed (message chan)"

lemma qw_stage_refines:
  assumes wf: "chan_wf chan"
  shows "\<exists>chan1. qw_stage chan = Inr (ep_sends (abs_ep chan), chan1) \<and> chan_wf chan1
    \<and> abs_ep chan1 = ep_stage (abs_ep chan) \<and> same_settings chan chan1
    \<and> outgoing_sequence chan1 = outgoing_sequence chan"
proof -
  have queue: "e_queue (abs_ep chan) \<noteq> [] \<longleftrightarrow> cursize (message chan) \<noteq> 0"
    using wf by (auto simp: abs_ep_def contents_def chan_wf_def MAX_OVERALLMSGLEN_def)
  then have stages: "ep_stages (abs_ep chan) \<longleftrightarrow> reliable_length chan = 0 \<and> cursize (message chan) \<noteq> 0"
    by (simp add: ep_stages_def) (simp add: abs_ep_def)
  have resend: "sint (incoming_acknowledged chan) > sint (last_reliable_sequence chan)
        \<and> incoming_reliable_acknowledged chan \<noteq> reliable_sequence chan
      \<longleftrightarrow> e_ack (abs_ep chan) > e_last (abs_ep chan) \<and> e_relack (abs_ep chan) \<noteq> e_rel (abs_ep chan)"
    using wf by (auto simp: abs_ep_def chan_wf_def seq_less is_bit_def)
  show ?thesis
  proof (cases "reliable_length chan = 0 \<and> cursize (message chan) \<noteq> 0")
    case False
    then have no: "\<not> ep_stages (abs_ep chan)" using stages by blast
    have "qw_stage chan = Inr (ep_sends (abs_ep chan), chan)"
      unfolding qw_stage_def Let_def if_not_P [OF False] resend using no by (simp add: ep_sends_def)
    with wf no show ?thesis by (simp add: ep_stage_def same_settings_def)
  next
    case True
    let ?m = "contents (message chan)"
    let ?n = "cursize (message chan)"
    have n: "0 \<le> ?n" "?n \<le> int (length (data (message chan)))" "?n \<le> int (length (reliable_buf chan))"
      using wf by (simp_all add: chan_wf_def)
    then have m: "slice (data (message chan)) 0 ?n = Inr ?m" "int (length ?m) = ?n"
      by (simp_all add: slice_def contents_def)
    obtain buf where buf: "poke (reliable_buf chan) 0 ?m = Inr buf"
        "length buf = length (reliable_buf chan)" "take (nat ?n) buf = ?m"
      using n m(2) by (auto simp: poke_def)
    define c where "c = chan\<lparr>reliable_buf := buf, reliable_length := ?n,
        message := (message chan)\<lparr>cursize := 0\<rparr>, reliable_sequence := reliable_sequence chan XOR 1\<rparr>"
    have "qw_stage chan = Inr (True, c)" using True m(1) buf(1) by (simp add: qw_stage_def Let_def c_def)
    moreover have "chan_wf c" using wf buf(2) n by (auto simp: chan_wf_def c_def is_bit_def)
    moreover have "reliable_sequence chan XOR 1 \<noteq> 0 \<longleftrightarrow> reliable_sequence chan = 0"
      using wf by (auto simp: chan_wf_def is_bit_def)
    then have "abs_ep c = ep_stage (abs_ep chan)"
      using True stages buf(3) by (simp add: ep_stage_def) (simp add: abs_ep_def c_def contents_def)
    ultimately show ?thesis
      using True stages by (simp add: ep_sends_def same_settings_def c_def)
  qed
qed

lemma qw_words_refines:
  assumes "chan_wf chan"
  shows "qw_words b chan = (w1, w2) \<Longrightarrow> le32 w1 @ le32 w2
    = header_bytes (pext_stunaware chan) \<lparr>h_seq = unat (outgoing_sequence chan), h_rel = b,
        h_ack = unat (incoming_sequence chan), h_relack = (incoming_reliable_sequence chan \<noteq> 0), h_msg = m\<rparr>"
  using assms bit_of_bool [of "incoming_reliable_sequence chan"]
  by (auto simp: qw_words_def header_bytes_def seq_word_def Let_def chan_wf_def split: if_splits)

text \<open>The local buffer has room for the header and the longest message.\<close>

definition env_ok :: "netenv \<Rightarrow> bool" where
  "env_ok env \<longleftrightarrow> int (length (data (send_local env))) = MAX_OVERALLMSGLEN + PACKET_HEADER"

definition packet_room :: "netchan \<Rightarrow> int" where
  "packet_room chan = (if mtu chan \<noteq> 0 then mtu chan else MAX_QWMSGLEN)"

definition mtu_ok :: "netchan \<Rightarrow> bool" where
  "mtu_ok chan \<longleftrightarrow> 2 \<le> packet_room chan \<and> packet_room chan \<le> MAX_OVERALLMSGLEN"

lemma settings_update [simp]:
  "packet_room (chan\<lparr>outgoing_sequence := x\<rparr>) = packet_room chan"
  "mtu_ok (chan\<lparr>outgoing_sequence := x\<rparr>) = mtu_ok chan"
  "qport_bytes (chan\<lparr>outgoing_sequence := x\<rparr>) = qport_bytes chan"
  by (simp_all add: mtu_ok_def packet_room_def qport_bytes_def)

lemma qport_bytes_short: "length (qport_bytes chan) \<le> 2"
  by (simp add: qport_bytes_def)

lemma send_init_fits:
  "env_ok env \<Longrightarrow> mtu_ok chan \<Longrightarrow> n \<le> 10 \<Longrightarrow> sz_fits (send_init env (packet_room chan + PACKET_HEADER)) n"
  by (simp add: env_ok_def mtu_ok_def sz_fits_def send_init_def PACKET_HEADER_def MAX_OVERALLMSGLEN_def)

lemma qw_header_refines:
  assumes "env_ok env" "mtu_ok chan" "\<not> pext_fragmentation chan"
  shows "qw_header env w1 w2 chan
    = Inr (sz_put (send_init env (packet_room chan + PACKET_HEADER)) (le32 w1 @ le32 w2 @ qport_bytes chan))"
proof -
  let ?b = "send_init env (packet_room chan + PACKET_HEADER)"
  have fits: "sz_fits ?b (length (le32 w1 @ le32 w2) + n)" if "n \<le> 2" for n
    using assms(1,2) that by (intro send_init_fits) simp_all
  have "sz_fits ?b (length (le32 w1))" "sz_fits (sz_put ?b (le32 w1)) (length (le32 w2))"
    using assms(1,2) send_init_fits [OF assms(1,2), of 8]
    by (auto intro: send_init_fits intro!: sz_put_fits)
  moreover have "sz_fits (sz_put ?b (le32 w1 @ le32 w2)) n" if "n \<le> 2" for n
    using fits [OF that] by (rule sz_put_fits)
  moreover have "sz_put ?b (le32 w1 @ le32 w2 @ qport_bytes chan)
      = sz_put (sz_put ?b (le32 w1 @ le32 w2)) (qport_bytes chan)"
    using fits [of 0] by (simp add: sz_put_append)
  moreover have "sz_fits (sz_put ?b (le32 w1 @ le32 w2)) 0 \<Longrightarrow>
      sz_put (sz_put ?b (le32 w1 @ le32 w2)) [] = sz_put ?b (le32 w1 @ le32 w2)"
    by (rule sz_put_Nil)
  ultimately show ?thesis
    using assms(3)
    by (simp add: qw_header_def packet_room_def [symmetric] write_eqs SZ_Write_fits sz_put_append
        qport_bytes_def)
qed

lemma qw_body_refines:
  assumes "sz_fits send 0" "0 \<le> reliable_length chan" "reliable_length chan \<le> int (length (reliable_buf chan))"
    and "b \<longrightarrow> reliable_length chan \<le> maxsize send - cursize send"
  defines "m \<equiv> (if b then take (nat (reliable_length chan)) (reliable_buf chan) else [])"
  shows "\<exists>extra. (extra = dat \<or> extra = []) \<and> sz_fits send (length (m @ extra))
    \<and> qw_body b dat send chan = Inr (Some (sz_put send (m @ extra)),
        if b then chan\<lparr>last_reliable_sequence := outgoing_sequence chan\<rparr> else chan)"
proof -
  define c where "c = (if b then chan\<lparr>last_reliable_sequence := outgoing_sequence chan\<rparr> else chan)"
  have fits: "sz_fits send (length m)" using assms by (auto simp: sz_fits_def m_def)
  define send1 where "send1 = sz_put send m"
  have 1: "rbind (if b then
                 rbind (slice (reliable_buf chan) 0 (reliable_length chan)) (\<lambda>m.
                 rbind (SZ_Write send m) (\<lambda>send.
                 Inr (send, chan\<lparr>last_reliable_sequence := outgoing_sequence chan\<rparr>)))
               else Inr (send, chan)) f = f (send1, c)" for f :: "_ \<Rightarrow> (sizebuf option \<times> netchan) res"
    using assms fits
    by (auto simp: slice_def m_def SZ_Write_fits send1_def c_def sz_put_Nil)
  have 2: "qw_body b dat send chan
      = rbind (if maxsize send1 - cursize send1 \<ge> int (length dat) then SZ_Write send1 dat else Inr send1)
          (\<lambda>send. Inr (Some send, c))"
    using assms(4) unfolding qw_body_def 1 by auto
  show ?thesis
  proof (cases "maxsize send1 - cursize send1 \<ge> int (length dat)")
    case True
    then have "sz_fits send (length (m @ dat))" "sz_fits send1 (length dat)"
      using fits length_data_sz_put [OF fits] by (simp_all add: send1_def sz_fits_def)
    with 2 True fits show ?thesis
      by (intro exI [of _ dat]) (simp add: SZ_Write_fits send1_def sz_put_append c_def)
  next
    case False
    with 2 fits show ?thesis by (intro exI [of _ "[]"]) (simp add: send1_def c_def)
  qed
qed

lemma send_dupes_packets:
  "\<exists>e i w' es. send_dupes env n pkt (e0, i0, w) = (e, i, w') \<and> packets w' = packets w @ map (Pair pkt) es
    \<and> (0 < n \<longrightarrow> e0 = NETERR_SENT \<longrightarrow> es \<noteq> [])"
proof (induction n arbitrary: e0 i0 w)
  case 0
  then show ?case by simp
next
  case (Suc n)
  let ?e = "net_result env (length (packets w)) pkt"
  let ?w = "w\<lparr>packets := packets w @ [(pkt, ?e)]\<rparr>"
  obtain e i w' es where "send_dupes env n pkt (?e, i0 + 1, ?w) = (e, i, w')"
      "packets w' = packets ?w @ map (Pair pkt) es"
    using Suc.IH [of ?e "i0 + 1" ?w] by blast
  then show ?case
    by (cases "e0 = NETERR_SENT")
      (auto simp: NET_SendPacket_def Let_def intro: exI [of _ "?e # es"])
qed

lemma header_bytes_msg:
  "header_bytes stun h = header_bytes stun (h\<lparr>h_msg := m\<rparr>)"
  by (simp add: header_bytes_def)

lemma qw_send_plain:
  assumes "\<not> demoplayback env" "\<not> pext_fragmentation chan" "0 \<le> dupe chan" "0 < cursize send"
    and "cursize send \<le> int (length (data send))"
  shows "\<exists>e n m w' es. qw_send env w1 w2 send chan w = Inr (e, n, chan\<lparr>mtu := m\<rparr>, w')
    \<and> packets w' = packets w @ map (Pair (contents send)) es \<and> es \<noteq> []"
proof -
  define k where "k = nat (min (dupe chan) (max 0 (avail_bytes env) div cursize send) + 1)"
  have "0 \<le> max 0 (avail_bytes env) div cursize send"
    using assms(4) by (simp add: pos_imp_zdiv_nonneg_iff)
  then have k: "0 < k" using assms(3) by (simp add: k_def)
  have pkt: "send_packet_data send = Inr (contents send)"
    using assms(4,5) by (simp add: send_packet_data_def slice_def contents_def)
  obtain e i w' es where "send_dupes env k (contents send) (NETERR_SENT, - 1, w) = (e, i, w')"
      "packets w' = packets w @ map (Pair (contents send)) es" "es \<noteq> []"
    using send_dupes_packets [of env k "contents send" NETERR_SENT "- 1" w] k by auto
  moreover define m where "m = (if e = NETERR_MTU \<and> mtu chan > 560 then mtu chan - 10 else mtu chan)"
  ultimately have "qw_send env w1 w2 send chan w
      = Inr (e, cursize send + cursize send * i, chan\<lparr>mtu := m\<rparr>, w')"
    using assms(1,2) pkt by (simp add: qw_send_def k_def [symmetric] Let_def m_def)
  with \<open>packets w' = packets w @ map (Pair (contents send)) es\<close> \<open>es \<noteq> []\<close> show ?thesis
    by blast
qed

lemma ep_transmit_fields_abs:
  assumes "chan_wf chan1" "abs_ep chan1 = ep_stage e" "b = ep_sends e" "e_out e = unat (outgoing_sequence chan1)"
    and "unat (outgoing_sequence chan1) + 1 < 2 ^ 31"
  defines "c \<equiv> (if b then chan1\<lparr>outgoing_sequence := outgoing_sequence chan1 + 1,
      last_reliable_sequence := outgoing_sequence chan1 + 1\<rparr>
    else chan1\<lparr>outgoing_sequence := outgoing_sequence chan1 + 1\<rparr>)"
  shows "abs_ep c = ep_transmit e" "chan_wf c"
proof -
  have plus: "unat (outgoing_sequence chan1 + 1) = unat (outgoing_sequence chan1) + 1"
    using assms(5) by (simp add: unat_word_ariths)
  have "abs_ep c = (abs_ep chan1)\<lparr>e_out := unat (outgoing_sequence chan1) + 1,
      e_last := (if b then unat (outgoing_sequence chan1) + 1 else e_last (abs_ep chan1))\<rparr>"
    by (simp add: abs_ep_def c_def plus)
  moreover have "e_last (ep_stage e) = e_last e" by (simp add: ep_stage_def)
  ultimately show "abs_ep c = ep_transmit e"
    using assms(2-4) by (simp add: ep_transmit_def)
  show "chan_wf c" using assms(1,5) by (simp add: chan_wf_def c_def seq_ok_def plus)
qed

lemma Netchan_Transmit_refines:
  fixes chan :: netchan
  defines "h \<equiv> ep_header (abs_ep chan)"
  assumes wf: "chan_wf chan" and env: "env_ok env" "\<not> demoplayback env"
    and set: "\<not> pext_fragmentation chan" "mtu_ok chan" "0 \<le> dupe chan" "\<not> overflowed (message chan)"
    and out: "unat (outgoing_sequence chan) + 1 < 2 ^ 31"
    and fits: "int (length (qport_bytes chan) + length (h_msg h)) \<le> packet_room chan"
  shows "\<exists>n chan' w' extra es. Netchan_Transmit env dat chan w = Inr (n, chan', w')
    \<and> abs_ep chan' = ep_transmit (abs_ep chan) \<and> chan_wf chan'
    \<and> packets w' = packets w
        @ map (Pair (header_bytes (pext_stunaware chan) h @ qport_bytes chan @ h_msg h @ extra)) es
    \<and> es \<noteq> [] \<and> (extra = dat \<or> extra = [])"
proof -
  let ?b = "ep_sends (abs_ep chan)"
  obtain c1 where c1: "qw_stage chan = Inr (?b, c1)" "chan_wf c1" "abs_ep c1 = ep_stage (abs_ep chan)"
      "same_settings chan c1" "outgoing_sequence c1 = outgoing_sequence chan"
    using qw_stage_refines [OF wf] by blast
  obtain w1 w2 where words: "qw_words ?b c1 = (w1, w2)" by (cases "qw_words ?b c1")
  have room: "packet_room c1 = packet_room chan"
    using c1(4) by (simp add: same_settings_def packet_room_def)
  have same: "pext_stunaware c1 = pext_stunaware chan" "\<not> pext_fragmentation c1" "mtu_ok c1"
      "qport_bytes c1 = qport_bytes chan" "0 \<le> dupe c1" "\<not> overflowed (message c1)"
    using c1(4) set by (simp_all add: same_settings_def mtu_ok_def room qport_bytes_def)
  have bytes: "le32 w1 @ le32 w2 = header_bytes (pext_stunaware chan) h"
    using qw_words_refines [OF c1(2) words, of "h_msg h"] c1(4,5) same
    by (simp add: h_def ep_header_def abs_ep_def same_settings_def)
  define c2 where "c2 = c1\<lparr>outgoing_sequence := outgoing_sequence c1 + 1\<rparr>"
  have c2: "\<not> pext_fragmentation c2" "mtu_ok c2" "packet_room c2 = packet_room chan"
      "qport_bytes c2 = qport_bytes chan"
    using same room by (simp_all add: c2_def)
  let ?s0 = "send_init env (packet_room chan + PACKET_HEADER)"
  define send where "send = sz_put ?s0 (le32 w1 @ le32 w2 @ qport_bytes chan)"
  have header: "qw_header env w1 w2 c2 = Inr send"
    using qw_header_refines [OF env(1) c2(2) c2(1), of w1 w2] c2(3,4) by (simp add: send_def)
  define m where "m = (if ?b then take (nat (reliable_length c2)) (reliable_buf c2) else [])"
  have "e_busy (ep_stage (abs_ep chan)) = (if reliable_length c2 = 0 then None
      else Some (take (nat (reliable_length c2)) (reliable_buf c2)))"
    unfolding c1(3) [symmetric] by (simp add: abs_ep_def c2_def)
  then have m: "m = h_msg h" by (simp add: m_def h_def ep_header_def)
  have len: "0 \<le> reliable_length c2" "reliable_length c2 \<le> int (length (reliable_buf c2))"
    using c1(2) by (simp_all add: c2_def chan_wf_def)
  have hd: "sz_fits ?s0 (length (le32 w1 @ le32 w2 @ qport_bytes chan))"
    using send_init_fits [OF env(1) c2(2), of "length (le32 w1 @ le32 w2 @ qport_bytes chan)"]
      qport_bytes_short [of chan] c2(3) by simp
  have s0: "cursize send = 8 + int (length (qport_bytes chan))" "maxsize send = packet_room chan + 8"
    by (simp_all add: send_def send_init_def PACKET_HEADER_def)
  have "sz_fits send 0" unfolding send_def by (rule sz_put_fits) (use hd in simp)
  moreover have "?b \<longrightarrow> reliable_length c2 \<le> maxsize send - cursize send"
  proof
    assume b: ?b
    then have "int (length (h_msg h)) = reliable_length c2"
      unfolding m [symmetric] m_def using len by simp
    with fits s0 show "reliable_length c2 \<le> maxsize send - cursize send" by simp
  qed
  ultimately obtain extra where extra: "extra = dat \<or> extra = []" "sz_fits send (length (m @ extra))"
      "qw_body ?b dat send c2 = Inr (Some (sz_put send (m @ extra)),
        if ?b then c2\<lparr>last_reliable_sequence := outgoing_sequence c2\<rparr> else c2)"
    using qw_body_refines [OF _ len, of send ?b dat] unfolding m_def by blast
  define c3 where "c3 = (if ?b then c2\<lparr>last_reliable_sequence := outgoing_sequence c2\<rparr> else c2)"
  have eout: "e_out (abs_ep chan) = unat (outgoing_sequence c1)" by (simp add: abs_ep_def c1(5))
  have c3_eq: "c3 = (if ?b then c1\<lparr>outgoing_sequence := outgoing_sequence c1 + 1,
      last_reliable_sequence := outgoing_sequence c1 + 1\<rparr>
    else c1\<lparr>outgoing_sequence := outgoing_sequence c1 + 1\<rparr>)"
    by (simp add: c3_def c2_def)
  have c3: "abs_ep c3 = ep_transmit (abs_ep chan)" "chan_wf c3"
    using ep_transmit_fields_abs [OF c1(2,3) refl eout] out c1(5) by (simp_all add: c3_eq)
  define pkt where "pkt = sz_put send (m @ extra)"
  define c4 where "c4 = c3\<lparr>outgoing_size := (outgoing_size c3)
      [unat (outgoing_sequence c3) mod MAX_LATENT := cursize pkt]\<rparr>"
  have c4: "abs_ep c4 = abs_ep c3" "chan_wf c4" "compresstable c4 = None" "\<not> pext_fragmentation c4" "0 \<le> dupe c4"
    using c3(2) c2(1) same(5) by (auto simp: c4_def abs_ep_def chan_wf_def c3_def c2_def)
  have pkt: "contents pkt = le32 w1 @ le32 w2 @ qport_bytes chan @ m @ extra"
      "0 < cursize pkt" "cursize pkt \<le> int (length (data pkt))"
  proof -
    have "contents ?s0 = []" by (simp add: contents_def send_init_def)
    then have "contents send = le32 w1 @ le32 w2 @ qport_bytes chan"
      using contents_sz_put [OF hd] by (simp add: send_def)
    then show "contents pkt = le32 w1 @ le32 w2 @ qport_bytes chan @ m @ extra"
      using contents_sz_put [OF extra(2)] by (simp add: pkt_def)
    show "0 < cursize pkt" using s0 by (simp add: pkt_def)
    show "cursize pkt \<le> int (length (data pkt))"
      using extra(2) length_data_sz_put [OF extra(2)] by (simp add: pkt_def sz_fits_def)
  qed
  obtain e n mt w' es where sent: "qw_send env w1 w2 pkt c4 w = Inr (e, n, c4\<lparr>mtu := mt\<rparr>, w')"
      "packets w' = packets w @ map (Pair (contents pkt)) es" "es \<noteq> []"
    using qw_send_plain [OF env(2) c4(4,5) pkt(2,3), of w1 w2 w] by blast
  define c5 where "c5 = (if e = NETERR_SENT then c4\<lparr>mtu := mt, bytesout := bytesout c4 + n\<rparr> else c4\<lparr>mtu := mt\<rparr>)"
  have "abs_ep c5 = abs_ep c4" "chan_wf c5"
    using c4(2) by (simp_all add: c5_def abs_ep_def chan_wf_def)
  moreover have "qw_compress env c4 pkt = Inr pkt" using c4(3) by (simp add: qw_compress_def)
  then have "Netchan_Transmit env dat chan w = Inr (n, c5, w')"
    using wf set(4) c1(1) words header extra(3) sent(1)
    by (simp add: Netchan_Transmit_def chan_wf_def qw_transmit_def c2_def [symmetric] Let_def
        c3_def [symmetric] pkt_def [symmetric] c4_def [symmetric] c5_def)
  moreover have "contents pkt = header_bytes (pext_stunaware chan) h @ qport_bytes chan @ h_msg h @ extra"
    unfolding pkt(1) m bytes [symmetric] by simp
  with sent(2) have "packets w' = packets w
      @ map (Pair (header_bytes (pext_stunaware chan) h @ qport_bytes chan @ h_msg h @ extra)) es"
    by simp
  moreover have "abs_ep c5 = ep_transmit (abs_ep chan)" using \<open>abs_ep c5 = abs_ep c4\<close> c4(1) c3(1) by simp
  ultimately show ?thesis using sent(3) extra(1) by blast
qed

section \<open>Receiving\<close>

lemma top_bit_mask: "(0x80000000 :: u32) = push_bit 31 1" "ANTISTUNBIAS = push_bit 30 1"
  by (simp_all add: ANTISTUNBIAS_def push_bit_eq_mult)

lemma nat_bits: "(n :: nat) < 2 ^ k \<Longrightarrow> bit n i \<Longrightarrow> i < k"
proof (rule ccontr)
  assume "n < 2 ^ k" "bit n i" "\<not> i < k"
  then have "n < 2 ^ i" by (meson less_le_trans not_less one_le_numeral power_increasing)
  with \<open>bit n i\<close> show False by (simp add: bit_iff_odd)
qed

lemma unat_seq: "n < 2 ^ 31 \<Longrightarrow> unat (word_of_nat n :: u32) = n"
  by (simp add: unsigned_of_nat take_bit_nat_eq_self)

lemma seq_word_parts:
  assumes "n < 2 ^ 31"
  shows "seq_word n b AND NOT 0x80000000 = word_of_nat n" "drop_bit 31 (seq_word n b) = of_bool b"
proof -
  note bits = nat_bits [OF assms]
  show "seq_word n b AND NOT 0x80000000 = word_of_nat n"
    unfolding seq_word_def top_bit_mask
    by (rule bit_word_eqI) (auto simp: bit_simps simp del: push_bit_of_1 dest: bits)
  show "drop_bit 31 (seq_word n b) = of_bool b"
    unfolding seq_word_def
    apply (rule bit_word_eqI)
    subgoal for i
      using bits [of "31 + i"] by (cases "i = 0") (auto simp: bit_simps)
    done
qed

lemma stun_bias:
  assumes "n < 2 ^ 30"
  shows "(seq_word n b + ANTISTUNBIAS) AND ANTISTUNBIAS \<noteq> 0"
proof -
  note bits = nat_bits [OF assms]
  have "seq_word n b AND ANTISTUNBIAS = 0"
    unfolding seq_word_def top_bit_mask(2)
    by (rule bit_word_eqI) (auto simp: bit_simps simp del: push_bit_of_1 dest: bits)
  then have "seq_word n b + ANTISTUNBIAS = seq_word n b OR ANTISTUNBIAS"
    by (rule add_or_disjoint)
  then have "bit ((seq_word n b + ANTISTUNBIAS) AND ANTISTUNBIAS) 30"
    unfolding top_bit_mask(2) by (simp add: bit_simps del: push_bit_of_1)
  then show ?thesis by fastforce
qed

text \<open>The header of a packet as the receiver reads it.\<close>

definition packet_of :: "packet_header \<Rightarrow> qw_packet" where
  "packet_of h = \<lparr>pk_sequence = word_of_nat (h_seq h), pk_ack = word_of_nat (h_ack h),
     pk_reliable = of_bool (h_rel h), pk_reliable_ack = of_bool (h_relack h), pk_offset = 0\<rparr>"

lemma qw_read_header_words:
  assumes rd: "reads_at st (header_bytes (pext_stunaware chan) h @ q @ body)"
    and q: "length q = (if sock chan = NS_SERVER then 2 else 0)"
    and seq: "h_seq h < 2 ^ 30" "h_ack h < 2 ^ 31"
  shows "qw_read_header chan st =
    rbind (if pext_fragmentation chan
           then rbind (MSG_ReadShort (advance st (8 + length q))) (\<lambda>(v, st). Inr (v, st))
           else Inr (0, advance st (8 + length q))) (\<lambda>(off, st).
    Inr (Some ((packet_of h)\<lparr>pk_offset := ucast off\<rparr>), st))"
proof -
  let ?w1 = "seq_word (h_seq h) (h_rel h)" and ?w2 = "seq_word (h_ack h) (h_relack h)"
  define s where "s = (if pext_stunaware chan then LongSwap (?w1 + ANTISTUNBIAS) else ?w1)"
  define a where "a = (if pext_stunaware chan then LongSwap ?w2 else ?w2)"
  have "header_bytes (pext_stunaware chan) h = le32 s @ le32 a"
    by (simp add: header_bytes_def s_def a_def Let_def)
  with rd have "reads_at st (le32 s @ le32 a @ q @ body)" by simp
  note r1 = reads_at_append [OF this]
  note r2 = reads_at_append [OF r1(2)]
  have long: "MSG_ReadLong st = Inr (s, advance st 4)" "MSG_ReadLong (advance st 4) = Inr (a, advance st 8)"
    using MSG_ReadLong_at [OF r1(1)] MSG_ReadLong_at [OF r2(1)] by simp_all
  have rest: "reads_at (advance st 8) (q @ body)" using r2(2) by simp
  have port: "(if sock chan = NS_SERVER then rbind (MSG_ReadShort (advance st 8)) (\<lambda>(_, st). Inr st)
              else Inr (advance st 8)) = Inr (advance st (8 + length q))"
  proof (cases "sock chan = NS_SERVER")
    case True
    then have "\<exists>v. MSG_ReadShort (advance st 8) = Inr (v, advance (advance st 8) 2)"
      using reads_at_append(1) [OF rest] reads_at_raw [OF rest] q
      by (simp add: MSG_ReadShort_def read_bytes_at [of "advance st 8" q 2])
    with True q show ?thesis by auto
  next
    case False
    with q show ?thesis by simp
  qed
  have "h_seq h < 2 ^ 31" using seq(1) by simp
  note parts = seq_word_parts [OF this] seq_word_parts [OF seq(2)]
  show ?thesis
    using stun_bias [OF seq(1)]
    by (simp add: qw_read_header_def long port Let_def packet_of_def)
       (auto simp: s_def a_def parts [simplified])
qed

lemma qw_read_header_refines:
  assumes "reads_at st (header_bytes (pext_stunaware chan) h @ q @ body)"
    and "length q = (if sock chan = NS_SERVER then 2 else 0)"
    and "\<not> pext_fragmentation chan" and "h_seq h < 2 ^ 30" "h_ack h < 2 ^ 31"
  shows "qw_read_header chan st = Inr (Some (packet_of h), advance st (8 + length q))"
  using qw_read_header_words [OF assms(1,2,4,5)] assms(3) by (simp add: packet_of_def)

lemma qw_accept_refines:
  assumes wf: "chan_wf chan" and seq: "h_seq h < 2 ^ 31" "h_ack h < 2 ^ 31"
    and acc: "ep_accepts h (abs_ep chan)"
  shows "abs_ep (fst (qw_accept (packet_of h) chan w)) = ep_process h (abs_ep chan)"
    and "chan_wf (fst (qw_accept (packet_of h) chan w))"
proof -
  have n: "unat (word_of_nat (h_seq h) :: u32) = h_seq h" "unat (word_of_nat (h_ack h) :: u32) = h_ack h"
    using seq by (simp_all add: unat_seq)
  have rel: "(of_bool b :: u32) = w \<longleftrightarrow> b = (w \<noteq> 0)" if "is_bit w" for b w
    using that by (auto simp: is_bit_def)
  have flip: "(w XOR 1 :: u32) \<noteq> 0 \<longleftrightarrow> w = 0" "is_bit w \<Longrightarrow> is_bit (w XOR 1)" if "is_bit w" for w
    using that by (auto simp: is_bit_def)
  show "abs_ep (fst (qw_accept (packet_of h) chan w)) = ep_process h (abs_ep chan)"
    using wf acc n
    by (auto simp: ep_process_def abs_ep_def qw_accept_def packet_of_def Let_def chan_wf_def rel flip)
  show "chan_wf (fst (qw_accept (packet_of h) chan w))"
    using wf seq n
    by (auto simp: qw_accept_def packet_of_def Let_def chan_wf_def seq_ok_def flip) (auto simp: is_bit_def)
qed

lemma Netchan_Process_refines:
  fixes chan :: netchan
  assumes wf: "chan_wf chan" and env: "demoplayback env \<or> from_remote env"
    and frag: "\<not> pext_fragmentation chan"
    and msg: "0 \<le> cursize (net_message st)" "cursize (net_message st) \<le> int (length (msg_data st))"
      "contents (net_message st) = header_bytes (pext_stunaware chan) h @ q @ body"
    and q: "length q = (if sock chan = NS_SERVER then 2 else 0)"
    and seq: "h_seq h < 2 ^ 30" "h_ack h < 2 ^ 31"
  shows "\<exists>chan' st' w'. Netchan_Process env chan st w = Inr (ep_accepts h (abs_ep chan), chan', st', w')
    \<and> abs_ep chan' = ep_process h (abs_ep chan) \<and> chan_wf chan'
    \<and> drop (nat (msg_readcount st')) (contents (net_message st')) = body"
proof -
  define c where "c = chan\<lparr>bytesin := bytesin chan + cursize (net_message st)\<rparr>"
  define st0 where "st0 = MSG_BeginReading (chan_netprim c) st"
  have c: "chan_wf c" "abs_ep c = abs_ep chan" "pext_stunaware c = pext_stunaware chan"
      "sock c = sock chan" "\<not> pext_fragmentation c" "compresstable c = None"
    using wf frag by (simp_all add: c_def chan_wf_def abs_ep_def)
  have st0: "contents (net_message st0) = contents (net_message st)"
    by (simp add: st0_def MSG_BeginReading_def contents_def)
  have len: "length (header_bytes (pext_stunaware chan) h @ q @ body) = nat (cursize (net_message st))"
    unfolding msg(3) [symmetric] contents_def using msg(1,2) by (simp add: msg_data_def)
  have "reads_at st0 (header_bytes (pext_stunaware chan) h @ q @ body)"
    using msg len unfolding reads_at_def contents_def
    by (simp add: st0_def MSG_BeginReading_def msg_data_def)
  then have header: "qw_read_header c st0 = Inr (Some (packet_of h), advance st0 (8 + length q))"
    using qw_read_header_refines [of st0 c h q body] c q seq by simp
  have n: "unat (word_of_nat (h_seq h) :: u32) = h_seq h" using seq by (simp add: unat_seq)
  have stale: "pk_sequence (packet_of h) \<le> incoming_sequence c \<longleftrightarrow> \<not> ep_accepts h (abs_ep chan)"
    using n by (auto simp: packet_of_def ep_accepts_def abs_ep_def c_def word_le_nat_alt)
  have rest: "drop (nat (msg_readcount (advance st0 (8 + length q)))) (contents (net_message st0)) = body"
    using msg(3) st0 by (simp add: st0_def MSG_BeginReading_def)
  have here: "\<not> (\<not> demoplayback env \<and> \<not> from_remote env)" using env by blast
  have start: "Netchan_Process env chan st w =
      (if pk_sequence (packet_of h) \<le> incoming_sequence c then Inr (False, c, advance st0 (8 + length q), w)
       else rbind (qw_fragment (pk_sequence (packet_of h)) (uint (pk_offset (packet_of h))) c
           (advance st0 (8 + length q))) (\<lambda>(whole, chan, st).
              if \<not> whole then Inr (False, chan, st, w)
              else
                let (chan, w) = qw_accept (packet_of h) chan w in
                rbind (case compresstable chan of
                    None \<Rightarrow> Inr (net_message st)
                  | Some hf \<Rightarrow> Huff_DecompressPacket hf (net_message st) (msg_readcount st)) (\<lambda>m.
                Inr (True, chan, st\<lparr>net_message := m\<rparr>, w))))"
    unfolding Netchan_Process_def Let_def c_def [symmetric] st0_def [symmetric] if_not_P [OF here] header
      rbind_Inr prod.case option.case by (rule refl)
  define c1 where "c1 = c\<lparr>incoming_unreliable := 0, in_fragment_length := 0\<rparr>"
  have frag: "qw_fragment (pk_sequence (packet_of h)) (uint (pk_offset (packet_of h))) c st
      = Inr (True, c1, st)" for st
    by (simp add: qw_fragment_def packet_of_def c1_def)
  have c1: "chan_wf c1" "abs_ep c1 = abs_ep chan" "compresstable c1 = None"
    using c(1,6) by (simp_all add: c1_def chan_wf_def c(2) [symmetric]) (simp add: abs_ep_def)
  show ?thesis
  proof (cases "ep_accepts h (abs_ep chan)")
    case False
    then show ?thesis
      using start stale c(1,2) rest by (simp add: ep_process_def)
  next
    case True
    obtain c2 w2 where acc: "qw_accept (packet_of h) c1 w = (c2, w2)"
      by (cases "qw_accept (packet_of h) c1 w")
    have "abs_ep c2 = ep_process h (abs_ep chan)" "chan_wf c2"
      using qw_accept_refines [OF c1(1), of h w] seq True c1(2) acc by simp_all
    then show ?thesis
      using start stale True frag acc rest by (simp add: chan_wf_def)
  qed
qed

section \<open>Refinement\<close>

text \<open>A call with a socket that always sends, and a channel with data to send, for the examples.\<close>

definition plain_env :: netenv where
  "plain_env = \<lparr>demoplayback = False, from_remote = True, adr_reliable = False, avail_bytes = 0,
     can_packet = True, resend_due = False, net_result = (\<lambda>_ _. NETERR_SENT),
     ZLib_DecompressBuffer = (\<lambda>_. []), send_local = new_buffer False 65544, huff_local = []\<rparr>"

definition with_message :: "u8 list \<Rightarrow> netchan \<Rightarrow> netchan" where
  "with_message bs chan = chan\<lparr>message := (message chan)\<lparr>
     data := bs @ replicate (nat MAX_OVERALLMSGLEN - length bs) 0, cursize := int (length bs)\<rparr>\<rparr>"

lemma with_message_wf:
  "int (length bs) \<le> MAX_OVERALLMSGLEN \<Longrightarrow> chan_wf (with_message bs (Netchan_Setup src qp))"
  by (auto simp: chan_wf_def with_message_def Netchan_Setup_def is_bit_def seq_ok_def MAX_OVERALLMSGLEN_def)

lemma plain_env_ok: "env_ok plain_env" "\<not> demoplayback plain_env" "demoplayback plain_env \<or> from_remote plain_env"
  by (simp_all add: env_ok_def plain_env_def MAX_OVERALLMSGLEN_def PACKET_HEADER_def)

text \<open>
  C10.  \<open>Netchan_Transmit\<close> does what the protocol's endpoint does.  On a well-formed
  QuakeWorld channel without the fragmentation extension, when the reliable message fits a
  packet, the call returns; the channel's sequencing state has made exactly the transition
  \<open>ep_transmit\<close>; and what it gave to the socket, one or more times, is the bytes of
  \<open>ep_header\<close>, the qport of a client, the reliable message the header announces, and the
  unreliable data or nothing.
\<close>

theorem netchan_transmit_refines:
  assumes "chan_wf chan" and "env_ok env" "\<not> demoplayback env"
    and "\<not> pext_fragmentation chan" "mtu_ok chan" "0 \<le> dupe chan" "\<not> overflowed (message chan)"
    and "unat (outgoing_sequence chan) + 1 < 2 ^ 31"
    and "int (length (qport_bytes chan) + length (h_msg (ep_header (abs_ep chan)))) \<le> packet_room chan"
  shows "\<exists>n chan' w' extra es. Netchan_Transmit env dat chan w = Inr (n, chan', w')
    \<and> abs_ep chan' = ep_transmit (abs_ep chan) \<and> chan_wf chan'
    \<and> packets w' = packets w @ map (Pair (header_bytes (pext_stunaware chan) (ep_header (abs_ep chan))
        @ qport_bytes chan @ h_msg (ep_header (abs_ep chan)) @ extra)) es
    \<and> es \<noteq> [] \<and> (extra = dat \<or> extra = [])"
  using Netchan_Transmit_refines [OF assms] .

theorem netchan_transmit_refines_witness:
  "\<forall>w. \<exists>n chan' w' extra es. Netchan_Transmit plain_env [9] (with_message [5, 6] (Netchan_Setup NS_SERVER 0)) w
      = Inr (n, chan', w') \<and> e_rel (abs_ep chan') \<and> e_out (abs_ep chan') = 1
    \<and> packets w' = packets w @ map (Pair ([0, 0, 0, 0x80, 0, 0, 0, 0, 5, 6] @ extra)) es
    \<and> es \<noteq> [] \<and> (extra = [9] \<or> extra = [])"
proof
  fix w :: networld
  let ?chan = "with_message [5, 6] (Netchan_Setup NS_SERVER 0)"
  have ep: "abs_ep ?chan = ep_start\<lparr>e_queue := [5, 6]\<rparr>"
    by (simp add: abs_ep_def with_message_def Netchan_Setup_def ep_start_def contents_def numeral_2_eq_2)
  have hd: "header_bytes False (ep_header (ep_start\<lparr>e_queue := [5, 6]\<rparr>)) = [0, 0, 0, 0x80, 0, 0, 0, 0]"
      "h_msg (ep_header (ep_start\<lparr>e_queue := [5, 6]\<rparr>)) = [5, 6]"
      "e_rel (ep_transmit (ep_start\<lparr>e_queue := [5, 6]\<rparr>))"
      "e_out (ep_transmit (ep_start\<lparr>e_queue := [5, 6]\<rparr>)) = 1"
    by code_simp+
  have set: "\<not> pext_fragmentation ?chan" "mtu_ok ?chan" "0 \<le> dupe ?chan" "\<not> overflowed (message ?chan)"
      "unat (outgoing_sequence ?chan) + 1 < 2 ^ 31" "qport_bytes ?chan = []" "pext_stunaware ?chan = False"
      "packet_room ?chan = 1450"
    by (simp_all add: with_message_def Netchan_Setup_def mtu_ok_def packet_room_def qport_bytes_def
        MAX_QWMSGLEN_def MAX_OVERALLMSGLEN_def)
  have wf: "chan_wf ?chan" by (rule with_message_wf) (simp add: MAX_OVERALLMSGLEN_def)
  have fits: "int (length (qport_bytes ?chan) + length (h_msg (ep_header (abs_ep ?chan)))) \<le> packet_room ?chan"
    unfolding ep hd set by simp
  obtain n chan' w' extra es where run: "Netchan_Transmit plain_env [9] ?chan w = Inr (n, chan', w')"
      "abs_ep chan' = ep_transmit (ep_start\<lparr>e_queue := [5, 6]\<rparr>)"
      "packets w' = packets w @ map (Pair ([0, 0, 0, 0x80, 0, 0, 0, 0, 5, 6] @ extra)) es"
      "es \<noteq> []" "extra = [9] \<or> extra = []"
    using netchan_transmit_refines [OF wf plain_env_ok(1,2) set(1-5) fits, of "[9]" w]
    unfolding ep hd set append_Nil append_assoc [symmetric] append_Cons by blast
  then have "e_rel (abs_ep chan')" "e_out (abs_ep chan') = 1" using hd(3,4) by simp_all
  with run show "\<exists>n chan' w' extra es. Netchan_Transmit plain_env [9] ?chan w = Inr (n, chan', w')
    \<and> e_rel (abs_ep chan') \<and> e_out (abs_ep chan') = 1
    \<and> packets w' = packets w @ map (Pair ([0, 0, 0, 0x80, 0, 0, 0, 0, 5, 6] @ extra)) es
    \<and> es \<noteq> [] \<and> (extra = [9] \<or> extra = [])" by blast
qed

text \<open>
  C11.  \<open>Netchan_Process\<close> does what the protocol's endpoint does.  On a well-formed
  QuakeWorld channel without the fragmentation extension, for a message that starts with
  the bytes of a header \<open>h\<close> (and two bytes of qport when it arrives at a server): the call
  says that the packet is to be used exactly when \<open>ep_accepts\<close> does, the sequencing state
  makes exactly the transition \<open>ep_process\<close>, and reading goes on at the body.
\<close>

theorem netchan_process_refines:
  assumes "chan_wf chan" and "demoplayback env \<or> from_remote env"
    and "\<not> pext_fragmentation chan"
    and "0 \<le> cursize (net_message st)" "cursize (net_message st) \<le> int (length (msg_data st))"
      "contents (net_message st) = header_bytes (pext_stunaware chan) h @ q @ body"
    and "length q = (if sock chan = NS_SERVER then 2 else 0)"
    and "h_seq h < 2 ^ 30" "h_ack h < 2 ^ 31"
  shows "\<exists>chan' st' w'. Netchan_Process env chan st w = Inr (ep_accepts h (abs_ep chan), chan', st', w')
    \<and> abs_ep chan' = ep_process h (abs_ep chan) \<and> chan_wf chan'
    \<and> drop (nat (msg_readcount st')) (contents (net_message st')) = body"
  using Netchan_Process_refines [OF assms] .

theorem netchan_process_refines_witness:
  "\<forall>w. \<exists>chan' st' w'. Netchan_Process plain_env (Netchan_Setup NS_CLIENT 0)
      (received [1, 0, 0, 0x80, 0, 0, 0, 0, 5, 6]) w = Inr (True, chan', st', w')
    \<and> e_in (abs_ep chan') = 1 \<and> e_inrel (abs_ep chan')
    \<and> drop (nat (msg_readcount st')) (contents (net_message st')) = [5, 6]"
proof
  fix w :: networld
  let ?h = "\<lparr>h_seq = 1, h_rel = True, h_ack = 0, h_relack = False, h_msg = [5, 6]\<rparr>"
  let ?bytes = "[1, 0, 0, 0x80, 0, 0, 0, 0, 5, 6]" and ?chan = "Netchan_Setup NS_CLIENT 0"
  have wf: "chan_wf ?chan"
    by (simp add: chan_wf_def Netchan_Setup_def is_bit_def seq_ok_def MAX_OVERALLMSGLEN_def)
  have ep: "abs_ep ?chan = ep_start"
    by (simp add: abs_ep_def Netchan_Setup_def ep_start_def contents_def)
  have set: "\<not> pext_fragmentation ?chan" "pext_stunaware ?chan = False" "sock ?chan \<noteq> NS_SERVER"
    by (simp_all add: Netchan_Setup_def)
  have "header_bytes False ?h @ [] @ [5, 6] = ?bytes" by code_simp
  then have msg: "contents (net_message (received ?bytes)) = header_bytes (pext_stunaware ?chan) ?h @ [] @ [5, 6]"
    unfolding set(2) by (simp add: received_def contents_def)
  have len: "0 \<le> cursize (net_message (received ?bytes))"
      "cursize (net_message (received ?bytes)) \<le> int (length (msg_data (received ?bytes)))"
    by (simp_all add: received_def msg_data_def)
  have run: "ep_accepts ?h ep_start" "e_in (ep_process ?h ep_start) = 1" "e_inrel (ep_process ?h ep_start)"
    by code_simp+
  show "\<exists>chan' st' w'. Netchan_Process plain_env ?chan (received ?bytes) w = Inr (True, chan', st', w')
    \<and> e_in (abs_ep chan') = 1 \<and> e_inrel (abs_ep chan')
    \<and> drop (nat (msg_readcount st')) (contents (net_message st')) = [5, 6]"
    using netchan_process_refines [OF wf plain_env_ok(3) set(1) len msg, of w] set(3) run
    unfolding ep by auto
qed

end
