(* ===== verification/NetchanFrag.thy ===== *)
theory NetchanFrag
  imports NetchanRefine
begin

text \<open>
  The fragmentation extension of the QuakeWorld channel: what the sending loop of
  \<open>Netchan_Transmit\<close> cuts a message into, and that the reassembly of
  \<open>Netchan_Process\<close> puts it together again.
\<close>

section \<open>Cutting a message\<close>

text \<open>
  \<open>room\<close> bytes of payload fit a packet; all pieces but the last are cut at a multiple of
  eight bytes.
\<close>

function frag_pieces :: "nat \<Rightarrow> nat \<Rightarrow> u8 list \<Rightarrow> (nat \<times> bool \<times> u8 list) list" where
  "frag_pieces room off bs =
     (if 8 \<le> room \<and> room < length bs
      then (off, True, take (room div 8 * 8) bs) # frag_pieces room (off + room div 8 * 8) (drop (room div 8 * 8) bs)
      else [(off, False, bs)])"
  by pat_completeness auto
termination
proof (relation "measure (\<lambda>(room, off, bs). length bs)", goal_cases)
  case (2 room off bs)
  then have "0 < room div 8 * 8" by (simp add: div_greater_zero_iff)
  moreover from 2 have "0 < length bs" by linarith
  ultimately show ?case using 2 by (simp add: diff_less)
qed simp

declare frag_pieces.simps [simp del]

definition frag_field :: "nat \<Rightarrow> bool \<Rightarrow> u32" where
  "frag_field off mf = word_of_int (int off div 4) OR of_bool mf"

definition frag_bytes :: "netchan \<Rightarrow> u32 \<Rightarrow> u32 \<Rightarrow> nat \<Rightarrow> bool \<Rightarrow> u8 list" where
  "frag_bytes chan w1 w2 off mf = le32 w1 @ le32 w2 @ qport_bytes chan @ enc16 (frag_field off mf)"

definition frag_packet :: "netchan \<Rightarrow> u32 \<Rightarrow> u32 \<Rightarrow> nat \<times> bool \<times> u8 list \<Rightarrow> u8 list" where
  "frag_packet chan w1 w2 p = frag_bytes chan w1 w2 (fst p) (fst (snd p)) @ snd (snd p)"

definition header_size :: "netchan \<Rightarrow> int" where
  "header_size chan = 10 + (if sock chan = NS_CLIENT then int (qportsize chan) else 0)"

definition qport_ok :: "netchan \<Rightarrow> bool" where
  "qport_ok chan \<longleftrightarrow> sock chan = NS_CLIENT \<longrightarrow> qportsize chan = 1 \<or> qportsize chan = 2"

lemma length_frag_bytes: "qport_ok chan \<Longrightarrow> int (length (frag_bytes chan w1 w2 off mf)) = header_size chan"
  by (auto simp: frag_bytes_def header_size_def qport_bytes_def qport_ok_def)

lemma poke_at: "n + length bs \<le> length m \<Longrightarrow>
  poke m (int n) bs = Inr (take n m @ bs @ drop (n + length bs) m)"
  by (simp add: poke_def)

lemma poke_next:
  "n + length xs \<le> length m \<Longrightarrow> n + length xs + length bs \<le> length m \<Longrightarrow>
   poke (take n m @ xs @ drop (n + length xs) m) (int n + int (length xs)) bs
   = Inr (take n m @ (xs @ bs) @ drop (n + length (xs @ bs)) m)"
  using poke_at [of "n + length xs" bs "take n m @ xs @ drop (n + length xs) m"]
  by (simp add: add.assoc drop_drop [symmetric] del: drop_drop) (simp add: add.commute add.left_commute)

lemma frag_header_bytes:
  assumes "qport_ok chan" "int off + header_size chan \<le> int (length dat)"
  shows "frag_header chan w1 w2 (header_size chan) (int off) mf dat
    = Inr (take off dat @ frag_bytes chan w1 w2 off mf @ drop (off + nat (header_size chan)) dat)"
proof -
  let ?q = "qport_bytes chan" and ?f = "enc16 (frag_field off mf)"
  let ?put = "\<lambda>xs. take off dat @ xs @ drop (off + length xs) dat"
  have size: "header_size chan = 10 + int (length ?q)" "length ?q \<le> 2"
    using assms(1) by (auto simp: header_size_def qport_bytes_def qport_ok_def)
  then have room: "off + 10 + length ?q \<le> length dat" using assms(2) by linarith
  have 1: "poke dat (int off) (le32 w1) = Inr (?put (le32 w1))"
    using room by (simp add: poke_at)
  have 2: "poke (?put (le32 w1)) (int off + 4) (le32 w2) = Inr (?put (le32 w1 @ le32 w2))"
    using poke_next [of off "le32 w1" dat "le32 w2"] room by simp
  have 3: "(if sock chan = NS_CLIENT then
              if qportsize chan = 2 then poke (?put (le32 w1 @ le32 w2)) (int off + header_size chan - 4) (enc16 (qport chan))
              else if qportsize chan = 1 then poke (?put (le32 w1 @ le32 w2)) (int off + header_size chan - 3) [ucast (qport chan AND 0xff)]
              else Inr (?put (le32 w1 @ le32 w2))
            else Inr (?put (le32 w1 @ le32 w2))) = Inr (?put (le32 w1 @ le32 w2 @ ?q))"
    using poke_next [of off "le32 w1 @ le32 w2" dat ?q] room assms(1)
    by (auto simp: header_size_def qport_bytes_def qport_ok_def add.commute [of 8 "int off"])
  have 4: "poke (?put (le32 w1 @ le32 w2 @ ?q)) (int off + header_size chan - 2) ?f
      = Inr (?put (le32 w1 @ le32 w2 @ ?q @ ?f))"
    using poke_next [of off "le32 w1 @ le32 w2 @ ?q" dat ?f] room size by (simp add: algebra_simps)
  have "nat (header_size chan) = length (le32 w1 @ le32 w2 @ ?q @ ?f)" using size by simp
  then show ?thesis
    unfolding frag_header_def 1 2 rbind_Inr 3 frag_bytes_def frag_field_def [symmetric]
    using 4 by (simp add: frag_field_def)
qed

text \<open>The loop, over a socket that sends everything.\<close>

definition all_sent :: "netenv \<Rightarrow> bool" where
  "all_sent env \<longleftrightarrow> (\<forall>i p. net_result env i p = NETERR_SENT)"

lemma frag_loop_pieces:
  assumes ok: "qport_ok chan" "all_sent env" and m: "m = header_size chan + int room" "8 \<le> room"
  shows "8 dvd off \<Longrightarrow> int off + header_size chan \<le> cursz \<Longrightarrow> cursz \<le> int (length dat) \<Longrightarrow>
    payload = drop (off + nat (header_size chan)) (take (nat cursz) dat) \<Longrightarrow> length payload < k \<Longrightarrow>
    \<exists>outbytes'. frag_loop k env chan w1 w2 (header_size chan) cursz 1 dat (int off) (NETERR_SENT, m, outbytes, w)
      = Inr (NETERR_SENT, m, outbytes', w\<lparr>packets := packets w
          @ map (\<lambda>p. (frag_packet chan w1 w2 p, NETERR_SENT)) (frag_pieces room off payload)\<rparr>)"
proof (induction k arbitrary: off dat payload outbytes w)
  case 0
  then show ?case by simp
next
  case (Suc k)
  let ?h = "header_size chan" and ?s = "room div 8 * 8"
  define mf where "mf \<longleftrightarrow> room < length payload"
  have h: "0 \<le> ?h" by (simp add: header_size_def)
  have len: "int (length payload) = cursz - ?h - int off"
    using Suc.prems(2-4) h by simp
  have more_iff: "int off + m - ?h < cursz - ?h \<longleftrightarrow> mf"
    using len m by (auto simp: mf_def)
  obtain j where j: "off = 8 * j" using Suc.prems(1) by blast
  have cut: "(int off + m - ?h) div 8 * 8 = int (off + ?s)"
    using m by (simp add: j zdiv_int)
  define no where "no = (if mf then off + ?s else off + length payload)"
  have no: "(if mf then (int off + m - ?h) div 8 * 8 else cursz - ?h) = int no"
    using cut len by (simp add: no_def)
  define piece where "piece = (if mf then take ?s payload else payload)"
  have piece: "length piece = no - off" "off \<le> no"
    using m(2) by (auto simp: piece_def no_def mf_def min_def)
  define hdr where "hdr = frag_bytes chan w1 w2 off mf"
  have "int (length hdr) = ?h" unfolding hdr_def by (rule length_frag_bytes [OF ok(1)])
  then have hdr: "length hdr = nat ?h" by linarith
  define dat1 where "dat1 = take off dat @ hdr @ drop (off + nat ?h) dat"
  have d1: "frag_header chan w1 w2 ?h (int off) mf dat = Inr dat1"
    using frag_header_bytes [OF ok(1)] Suc.prems(2,3) by (simp add: dat1_def hdr_def)
  have room: "int no + ?h \<le> cursz" "off + nat ?h \<le> length dat"
    using len h Suc.prems(2,3) m(2) by (auto simp: no_def mf_def)
  have tail: "drop (off + nat ?h) dat1 = drop (off + nat ?h) dat"
    using room hdr by (simp add: dat1_def)
  have ldat1: "length dat1 = length dat" using room hdr by (simp add: dat1_def)
  have "no - off \<le> nat cursz - (off + nat ?h)" using room(1) h by linarith
  moreover have "piece = take (no - off) payload" by (simp add: piece_def no_def)
  ultimately have "take (no - off) (drop (off + nat ?h) dat) = piece"
    unfolding Suc.prems(4) drop_take by (simp add: min_absorb1)
  then have pkt: "slice dat1 (int off) (int no - int off + ?h) = Inr (hdr @ piece)"
    using room h hdr piece Suc.prems(3)
    by (simp add: slice_def dat1_def nat_add_distrib nat_diff_distrib)
  define w' where "w' = w\<lparr>packets := packets w @ [(hdr @ piece, NETERR_SENT)]\<rparr>"
  define out where "out = outbytes + int (length (hdr @ piece))"
  have sent: "frag_sends env 1 (hdr @ piece) (int off = 0) (NETERR_SENT, m, outbytes, w)
      = (False, NETERR_SENT, m, out, w')"
    using ok(2) by (simp add: NET_SendPacket_def all_sent_def Let_def w'_def out_def)
  have round: "frag_loop (Suc k) env chan w1 w2 ?h cursz 1 dat (int off) (NETERR_SENT, m, outbytes, w)
      = (if mf then frag_loop k env chan w1 w2 ?h cursz 1 dat1 (int no) (NETERR_SENT, m, out, w')
         else Inr (NETERR_SENT, m, out, w'))"
    unfolding frag_loop.simps Let_def more_iff no d1 rbind_Inr if_P [OF refl] pkt sent prod.case
    by (simp only: if_False simp_thms)
  have packet: "frag_packet chan w1 w2 (off, mf, piece) = hdr @ piece"
    by (simp add: frag_packet_def hdr_def)
  show ?case
  proof (cases mf)
    case False
    then have "frag_pieces room off payload = [(off, mf, piece)]"
      by (subst frag_pieces.simps) (simp add: mf_def piece_def)
    with False round packet show ?thesis by (simp add: w'_def)
  next
    case True
    then have no': "no = off + ?s" by (simp add: no_def)
    have pieces: "frag_pieces room off payload = (off, mf, piece) # frag_pieces room no (drop ?s payload)"
      using True m(2) by (subst frag_pieces.simps) (simp add: mf_def piece_def no_def)
    have "0 < ?s" using m(2) by (simp add: div_greater_zero_iff)
    then have "length (drop ?s payload) < k" using Suc.prems(5) True by (simp add: mf_def)
    moreover have "drop ?s payload = drop (no + nat ?h) (take (nat cursz) dat1)"
    proof -
      have "drop (no + nat ?h) (take (nat cursz) dat1)
          = drop ?s (take (nat cursz - (off + nat ?h)) (drop (off + nat ?h) dat1))"
        by (simp only: no' drop_take drop_drop ac_simps diff_diff_left)
      then show ?thesis unfolding tail Suc.prems(4) by (simp add: drop_take)
    qed
    moreover have "8 dvd no" using Suc.prems(1) by (simp add: no')
    ultimately obtain outbytes' where "frag_loop k env chan w1 w2 ?h cursz 1 dat1 (int no) (NETERR_SENT, m, out, w')
      = Inr (NETERR_SENT, m, outbytes', w'\<lparr>packets := packets w'
          @ map (\<lambda>p. (frag_packet chan w1 w2 p, NETERR_SENT)) (frag_pieces room no (drop ?s payload))\<rparr>)"
      using Suc.IH [of no dat1 "drop ?s payload" out w'] room(1) Suc.prems(3) ldat1 by auto
    with True round pieces packet show ?thesis by (simp add: w'_def)
  qed
qed

section \<open>The loop ends\<close>

text \<open>
  One round, whatever the socket says: the header fits, the next offset is past this one by
  at least eight bytes or the loop is over.
\<close>

lemma frag_round:
  assumes ok: "qport_ok chan" "header_size chan + 8 \<le> m" and off: "8 dvd off" "int off + header_size chan \<le> cursz"
    and len: "cursz \<le> int (length dat)"
  obtains dat1 mf no pkt where "frag_header chan w1 w2 (header_size chan) (int off)
        (int off + m - header_size chan < cursz - header_size chan) dat = Inr dat1" "length dat1 = length dat"
    "mf \<longleftrightarrow> int off + m - header_size chan < cursz - header_size chan"
    "(if mf then (int off + m - header_size chan) div 8 * 8 else cursz - header_size chan) = int no"
    "slice dat1 (int off) (int no - int off + header_size chan) = Inr pkt"
    "int no + header_size chan \<le> cursz" "mf \<longrightarrow> off + 8 \<le> no \<and> 8 dvd no"
proof -
  let ?h = "header_size chan"
  define mf where "mf \<longleftrightarrow> int off + m - ?h < cursz - ?h"
  define dat1 where "dat1 = take off dat @ frag_bytes chan w1 w2 off mf @ drop (off + nat ?h) dat"
  obtain j where j: "off = 8 * j" using off(1) by blast
  have h: "0 \<le> ?h" by (simp add: header_size_def)
  define no where "no = (if mf then nat ((int off + m - ?h) div 8 * 8) else nat (cursz - ?h))"
  have no: "(if mf then (int off + m - ?h) div 8 * 8 else cursz - ?h) = int no"
    using ok(2) off(2) by (simp add: no_def)
  have le: "int no + ?h \<le> cursz"
  proof (cases mf)
    case True
    then have "int off + m - ?h < cursz - ?h" by (simp add: mf_def)
    then show ?thesis using no True by simp
  qed (use no in simp)
  have step: "off + 8 \<le> no" if mf
  proof -
    have "(int off + 8) div 8 * 8 \<le> (int off + m - ?h) div 8 * 8"
      using ok(2) by (simp add: zdiv_mono1)
    then show ?thesis using no that by (simp add: j)
  qed
  have hd: "frag_header chan w1 w2 ?h (int off) mf dat = Inr dat1"
    using frag_header_bytes [OF ok(1)] off(2) len by (simp add: dat1_def)
  have "int (length (frag_bytes chan w1 w2 off mf)) = ?h" by (rule length_frag_bytes [OF ok(1)])
  then have ldat1: "length dat1 = length dat" using off(2) len h by (simp add: dat1_def)
  have "int off \<le> int no + ?h" using step off(2) no h by (cases mf) auto
  then have "\<exists>pkt. slice dat1 (int off) (int no - int off + ?h) = Inr pkt"
    using le len by (simp add: slice_def ldat1)
  moreover have "8 dvd no" if mf
  proof -
    have "int no = (int off + m - ?h) div 8 * 8" using no that by simp
    then have "int 8 dvd int no" by simp
    then show ?thesis by (simp only: int_dvd_int_iff)
  qed
  ultimately show thesis using that [of dat1 mf no] hd ldat1 no le step by (auto simp: mf_def)
qed

lemma frag_loop_stopped:
  assumes "qport_ok chan" "header_size chan + 8 \<le> m" "e \<noteq> NETERR_SENT"
  shows "8 dvd off \<Longrightarrow> int off + header_size chan \<le> cursz \<Longrightarrow> cursz \<le> int (length dat) \<Longrightarrow>
    cursz - header_size chan - int off < int k \<Longrightarrow>
    frag_loop k env chan w1 w2 (header_size chan) cursz n dat (int off) (e, m, outbytes, w) = Inr (e, m, outbytes, w)"
proof (induction k arbitrary: off dat)
  case (Suc k)
  obtain dat1 mf no pkt where r:
    "frag_header chan w1 w2 (header_size chan) (int off)
        (int off + m - header_size chan < cursz - header_size chan) dat = Inr dat1" "length dat1 = length dat"
    "mf \<longleftrightarrow> int off + m - header_size chan < cursz - header_size chan"
    "(if mf then (int off + m - header_size chan) div 8 * 8 else cursz - header_size chan) = int no"
    "slice dat1 (int off) (int no - int off + header_size chan) = Inr pkt"
    "int no + header_size chan \<le> cursz" "mf \<longrightarrow> off + 8 \<le> no \<and> 8 dvd no"
    by (rule frag_round [OF assms(1,2) Suc.prems(1-3), where ?w1.0 = w1 and ?w2.0 = w2])
  have round: "frag_loop (Suc k) env chan w1 w2 (header_size chan) cursz n dat (int off) (e, m, outbytes, w)
      = (if mf then frag_loop k env chan w1 w2 (header_size chan) cursz n dat1 (int no) (e, m, outbytes, w)
         else Inr (e, m, outbytes, w))"
    unfolding frag_loop.simps Let_def r(3) [symmetric] r(4) r(1) [folded r(3)] rbind_Inr if_not_P [OF assms(3)] prod.case
    by (simp only: if_False simp_thms)
  show ?case
  proof (cases mf)
    case True
    then show ?thesis
      unfolding round using Suc.IH [of no dat1] r(2,6,7) Suc.prems by simp
  qed (simp add: round del: frag_loop.simps)
qed simp

lemma frag_sends_moved:
  "frag_sends env n pkt first (e, m, outbytes, w) = (moved, e', m', outbytes', w') \<Longrightarrow>
   (moved \<longrightarrow> e' = NETERR_MTU \<and> m' = m - 16 \<and> 560 < m) \<and> (\<not> moved \<longrightarrow> m' = m)"
  by (induction n arbitrary: e m outbytes w)
    (auto simp: Let_def split: if_splits prod.splits)

lemma header_size_le: "qport_ok chan \<Longrightarrow> header_size chan \<le> 12"
  by (auto simp: header_size_def qport_ok_def)

lemma frag_loop_ends:
  assumes "qport_ok chan" "header_size chan + 8 \<le> m"
  shows "8 dvd off \<Longrightarrow> int off + header_size chan \<le> cursz \<Longrightarrow> cursz \<le> int (length dat) \<Longrightarrow>
    cursz - header_size chan - int off + 1 < int k \<Longrightarrow>
    \<exists>x. frag_loop k env chan w1 w2 (header_size chan) cursz n dat (int off) (e, m, outbytes, w) = Inr x"
proof (induction k arbitrary: off dat e outbytes w)
  case (Suc k)
  obtain dat1 mf no pkt where r:
    "frag_header chan w1 w2 (header_size chan) (int off)
        (int off + m - header_size chan < cursz - header_size chan) dat = Inr dat1" "length dat1 = length dat"
    "mf \<longleftrightarrow> int off + m - header_size chan < cursz - header_size chan"
    "(if mf then (int off + m - header_size chan) div 8 * 8 else cursz - header_size chan) = int no"
    "slice dat1 (int off) (int no - int off + header_size chan) = Inr pkt"
    "int no + header_size chan \<le> cursz" "mf \<longrightarrow> off + 8 \<le> no \<and> 8 dvd no"
    by (rule frag_round [OF assms(1,2) Suc.prems(1-3), where ?w1.0 = w1 and ?w2.0 = w2])
  show ?case
  proof (cases "e = NETERR_SENT")
    case False
    then show ?thesis using frag_loop_stopped [OF assms False Suc.prems(1-3), of "Suc k"] Suc.prems(4)
      by (auto simp del: frag_loop.simps)
  next
    case True
    obtain moved e' m' out' w' where s:
        "frag_sends env n pkt (int off = 0) (e, m, outbytes, w) = (moved, e', m', out', w')"
      by (metis prod_cases5)
    have round: "frag_loop (Suc k) env chan w1 w2 (header_size chan) cursz n dat (int off) (e, m, outbytes, w)
        = (if moved \<or> mf then frag_loop k env chan w1 w2 (header_size chan) cursz n dat1
             (if moved then int off else int no) (e', m', out', w') else Inr (e', m', out', w'))"
      unfolding frag_loop.simps Let_def r(3) [symmetric] r(4) r(1) [folded r(3)] r(5) rbind_Inr if_P [OF True] s prod.case
      by (rule refl)
    note mv = frag_sends_moved [OF s]
    show ?thesis
    proof (cases moved)
      case True
      then have "frag_loop k env chan w1 w2 (header_size chan) cursz n dat1 (int off) (e', m', out', w')
          = Inr (e', m', out', w')"
        using frag_loop_stopped [OF assms(1) _ _ Suc.prems(1,2), of m' e' dat1 k] mv header_size_le [OF assms(1)]
          Suc.prems(3,4) r(2) by auto
      with True round show ?thesis by (simp del: frag_loop.simps)
    next
      case False
      then show ?thesis
        using round mv Suc.IH [of no dat1 e' out' w'] r(2,6,7) Suc.prems(3,4) by (cases mf) (auto simp del: frag_loop.simps)
    qed
  qed
qed simp

text \<open>
  C16.  Sending always ends.  A channel with the fragmentation extension whose packets hold
  the header and eight bytes more sends any message in finitely many rounds, whatever the
  socket answers to each packet: the rounds given to the loop are enough, and the call
  returns.
\<close>

theorem fragment_sending_terminates:
  assumes "qport_ok chan" "pext_fragmentation chan" "header_size chan + 8 \<le> mtu chan"
    and "header_size chan \<le> cursize send" "cursize send \<le> int (length (data send))"
  shows "\<exists>x. qw_send env w1 w2 send chan w = Inr x"
proof -
  let ?n = "nat (min (dupe chan) (max 0 (avail_bytes env) div cursize send) + 1)"
  have "cursize send - header_size chan - int 0 + 1 < int (frag_fuel send)"
    using assms(4) by (simp add: frag_fuel_def header_size_def)
  from frag_loop_ends [OF assms(1,3) _ _ assms(5) this] assms(4)
  obtain e m out w' where "frag_loop (frag_fuel send) env chan w1 w2 (header_size chan) (cursize send) ?n (data send) 0
      (NETERR_SENT, mtu chan, 0, w) = Inr (e, m, out, w')" by fastforce
  then show ?thesis using assms(2) by (auto simp: qw_send_def Let_def header_size_def)
qed

section \<open>Putting a message together\<close>

text \<open>Feeding packets to a channel: the messages it hands on.\<close>

fun deliver ::
    "netenv \<Rightarrow> u8 list list \<Rightarrow> netchan \<Rightarrow> networld \<Rightarrow> (u8 list list \<times> netchan \<times> networld) res" where
  "deliver env [] chan w = Inr ([], chan, w)"
| "deliver env (p # ps) chan w = rbind (Netchan_Process env chan (received p) w) (\<lambda>(b, chan, st, w).
     rbind (deliver env ps chan w) (\<lambda>(ms, chan', w').
     Inr (if b then drop (nat (msg_readcount st)) (contents (net_message st)) # ms else ms, chan', w')))"

lemma low_word: "(ucast (word_of_int z :: u32) :: u16) = word_of_int z"
  by (rule bit_word_eqI) (simp add: bit_simps)

lemma frag_field_value:
  assumes "8 dvd off" "off \<le> 65536"
  shows "uint (ucast (frag_field off mf) :: u16) = int off div 4 + of_bool mf"
proof -
  obtain j where j: "off = 8 * j" using assms(1) by blast
  have "int off div 4 = 2 * int j" by (simp add: j)
  then have "frag_field off mf = 2 * word_of_nat j OR of_bool mf"
    by (simp add: frag_field_def)
  also have "\<dots> = word_of_int (2 * int j + of_bool mf)"
    by (cases mf) (simp_all add: or_one_eq)
  finally have eq: "(ucast (frag_field off mf) :: u16) = word_of_int (2 * int j + of_bool mf)"
    by (simp only: low_word)
  have "0 \<le> 2 * int j + of_bool mf" "2 * int j + of_bool mf < 2 ^ LENGTH(16)"
    using assms(2) by (simp_all add: j)
  then show ?thesis
    unfolding \<open>int off div 4 = 2 * int j\<close> eq uint_word_of_int by (rule mod_pos_pos_trivial)
qed

text \<open>What the reassembly keeps between two fragments: the bytes \<open>pre\<close> of the message so far.\<close>

definition gathering :: "netchan \<Rightarrow> u32 \<Rightarrow> u8 list \<Rightarrow> bool" where
  "gathering chan seq pre \<longleftrightarrow> chan_ok chan
     \<and> (if incoming_unreliable chan = seq then in_fragment_length chan else 0) = int (length pre)
     \<and> take (length pre) (in_fragment_buf chan) = pre"

text \<open>The reading state behind the header of a fragment.\<close>

definition at_piece :: "msgstate \<Rightarrow> u8 list \<Rightarrow> bool" where
  "at_piece st piece \<longleftrightarrow> msg_ok st \<and> msg_storage st
     \<and> drop (nat (msg_readcount st)) (contents (net_message st)) = piece"

lemma at_piece_slice:
  assumes "at_piece st piece"
  shows "cursize (net_message st) - msg_readcount st = int (length piece)"
    and "slice (msg_data st) (msg_readcount st) (int (length piece)) = Inr piece"
proof -
  have ok: "0 \<le> msg_readcount st" "msg_readcount st \<le> cursize (net_message st)"
      "cursize (net_message st) \<le> int (length (msg_data st))"
    and piece: "drop (nat (msg_readcount st)) (take (nat (cursize (net_message st))) (msg_data st)) = piece"
    using assms by (simp_all add: at_piece_def msg_ok_def contents_def msg_data_def)
  have "length piece = nat (cursize (net_message st)) - nat (msg_readcount st)"
    unfolding piece [symmetric] using ok by (simp add: min_absorb2 nat_le_iff)
  then show len: "cursize (net_message st) - msg_readcount st = int (length piece)" using ok by simp
  have "take (length piece) (drop (nat (msg_readcount st)) (msg_data st)) = piece"
    using piece \<open>length piece = nat (cursize (net_message st)) - nat (msg_readcount st)\<close>
    by (simp add: drop_take)
  then show "slice (msg_data st) (msg_readcount st) (int (length piece)) = Inr piece"
    using len ok by (simp add: slice_def)
qed

lemma qw_fragment_gathers:
  assumes g: "gathering chan seq pre" and st: "at_piece st piece"
    and off: "8 dvd length pre" "int (length pre + length piece) \<le> MAX_OVERALLMSGLEN"
    and frag: "mf \<or> pre \<noteq> []"
  defines "f \<equiv> uint (ucast (frag_field (length pre) mf) :: u16)"
  shows "mf \<Longrightarrow> \<exists>c. qw_fragment seq f chan st = Inr (False, c, st) \<and> gathering c seq (pre @ piece)
      \<and> same_sequencing chan c"
    and "\<not> mf \<Longrightarrow> \<exists>c st'. qw_fragment seq f chan st = Inr (True, c, st') \<and> chan_ok c
      \<and> contents (net_message st') = pre @ piece \<and> msg_readcount st' = 0 \<and> same_sequencing chan c"
proof -
  define c where "c = (if incoming_unreliable chan \<noteq> seq
    then chan\<lparr>in_fragment_length := 0, incoming_unreliable := seq\<rparr> else chan)"
  have c: "chan_ok c" "same_sequencing chan c" "incoming_unreliable c = seq"
      "in_fragment_length c = int (length pre)" "in_fragment_buf c = in_fragment_buf chan"
    using g by (auto simp: gathering_def c_def chan_ok_def same_sequencing_def split: if_splits)
  have f: "f = int (length pre) div 4 + of_bool mf"
    unfolding f_def using off by (intro frag_field_value) (simp_all add: MAX_OVERALLMSGLEN_def)
  obtain j where j: "length pre = 8 * j" using off(1) by blast
  have parts: "f \<noteq> 0" "(f mod 2 = 1) = mf" "(f - f mod 2) * 4 = int (length pre)"
  proof -
    have quarter: "f = 2 * int j + of_bool mf" by (simp add: f j)
    show "f \<noteq> 0" using frag j quarter by (cases "j = 0"; cases mf) auto
    show "(f mod 2 = 1) = mf" "(f - f mod 2) * 4 = int (length pre)"
      by (cases mf; simp add: quarter j)+
  qed
  note piece = at_piece_slice [OF st]
  obtain buf where buf: "poke (in_fragment_buf chan) (int (length pre)) piece = Inr buf"
      "length buf = length (in_fragment_buf chan)" "take (length pre + length piece) buf = pre @ piece"
    using off(2) g by (auto simp: poke_def gathering_def chan_ok_def)
  have whole: "slice buf 0 (int (length pre + length piece)) = Inr (pre @ piece)"
    using buf off(2) g by (simp add: slice_def gathering_def chan_ok_def nat_int_add)
  have start: "qw_fragment seq f chan st =
      rbind (poke (in_fragment_buf chan) (int (length pre)) piece) (\<lambda>buf.
            let chan = c\<lparr>in_fragment_buf := buf, in_fragment_length := int (length pre) + int (length piece)\<rparr> in
            if mf then Inr (False, chan, st)
            else
              rbind (slice (in_fragment_buf chan) 0 (in_fragment_length chan)) (\<lambda>whole.
              rbind (set_message st whole) (\<lambda>st.
              Inr (True, chan\<lparr>incoming_unreliable := 0, in_fragment_length := 0\<rparr>,
                st\<lparr>msg_readcount := 0\<rparr>))))"
    unfolding qw_fragment_def Let_def c_def [symmetric] piece(1) parts(2,3)
    using parts(1) c off(2) piece(2) g by (simp add: gathering_def chan_ok_def)
  {
    assume mf
    define c' where "c' = c\<lparr>in_fragment_buf := buf, in_fragment_length := int (length pre) + int (length piece)\<rparr>"
    have "qw_fragment seq f chan st = Inr (False, c', st)"
      using start buf(1) \<open>mf\<close> by (simp add: c'_def)
    moreover have "gathering c' seq (pre @ piece)" "same_sequencing chan c'"
      using c buf off(2) by (simp_all add: c'_def gathering_def chan_ok_def same_sequencing_def)
    ultimately show "\<exists>c. qw_fragment seq f chan st = Inr (False, c, st) \<and> gathering c seq (pre @ piece)
      \<and> same_sequencing chan c" by blast
  }
  {
    assume "\<not> mf"
    define c' where "c' = c\<lparr>in_fragment_buf := buf, in_fragment_length := 0, incoming_unreliable := 0\<rparr>"
    have "msg_storage st" "int (length (pre @ piece)) \<le> MAX_OVERALLMSGLEN"
      using st off(2) by (simp_all add: at_piece_def)
    from set_message_ok [OF this] obtain st' where st': "set_message st (pre @ piece) = Inr st'"
        "contents (net_message st') = pre @ piece" by blast
    have "qw_fragment seq f chan st = Inr (True, c', st'\<lparr>msg_readcount := 0\<rparr>)"
      using start buf(1) \<open>\<not> mf\<close> whole st'(1) by (simp add: c'_def)
    moreover have "chan_ok c'" "same_sequencing chan c'"
      using c buf by (simp_all add: c'_def chan_ok_def same_sequencing_def)
    ultimately show "\<exists>c st'. qw_fragment seq f chan st = Inr (True, c, st') \<and> chan_ok c
      \<and> contents (net_message st') = pre @ piece \<and> msg_readcount st' = 0 \<and> same_sequencing chan c"
      using st'(2) by auto
  }
qed

text \<open>The header of a packet of a channel with the extension.\<close>

lemma qw_read_header_frag:
  assumes rd: "reads_at st (header_bytes (pext_stunaware chan) h @ q @ enc16 f @ body)"
    and q: "length q = (if sock chan = NS_SERVER then 2 else 0)"
    and frag: "pext_fragmentation chan" and seq: "h_seq h < 2 ^ 30" "h_ack h < 2 ^ 31"
  shows "qw_read_header chan st = Inr (Some ((packet_of h)\<lparr>pk_offset := ucast f\<rparr>), advance st (10 + length q))"
proof -
  have "reads_at st ((header_bytes (pext_stunaware chan) h @ q) @ enc16 f @ body)" using rd by simp
  from reads_at_append(2) [OF this] have "reads_at (advance st (8 + length q)) (enc16 f @ body)" by simp
  from MSG_ReadShort_at [OF reads_at_append(1) [OF this]]
  have short: "MSG_ReadShort (advance st (8 + length q)) = Inr (scast (ucast f :: u16), advance st (10 + length q))"
    by (simp add: add.commute)
  have "(ucast (scast (ucast f :: u16) :: u32) :: u16) = ucast f"
    apply (rule bit_word_eqI)
    subgoal for n by (cases "n = 15") (auto simp: bit_simps min_def)
    done
  with qw_read_header_words [OF rd q seq] short frag show ?thesis by simp
qed

text \<open>One packet of a message.\<close>

definition wire :: "bool \<Rightarrow> packet_header \<Rightarrow> u8 list \<Rightarrow> nat \<times> bool \<times> u8 list \<Rightarrow> u8 list" where
  "wire stun h q p = header_bytes stun h @ q @ enc16 (frag_field (fst p) (fst (snd p))) @ snd (snd p)"

lemma received_reads:
  assumes "int (length bs) \<le> MAX_OVERALLMSGLEN"
  shows "reads_at (MSG_BeginReading p (received bs)) bs"
  using assms by (simp add: reads_at_def MSG_BeginReading_def received_def msg_data_def)

lemma received_at_piece:
  assumes "int (length (xs @ piece)) \<le> MAX_OVERALLMSGLEN"
  shows "at_piece (advance (MSG_BeginReading p (received (xs @ piece))) (length xs)) piece"
proof -
  have "msg_storage (received (xs @ piece))" using assms by (rule received_storage)
  then have "msg_storage (MSG_BeginReading p (received (xs @ piece)))"
    using begin_reading_ok by blast
  then show ?thesis
    by (simp add: at_piece_def msg_ok_def msg_storage_def MSG_BeginReading_def received_def contents_def
        advance_def msg_data_def)
qed

text \<open>\<open>Netchan_Process\<close> on such a packet, up to the reassembly.\<close>

lemma Netchan_Process_wire:
  assumes q: "length q = (if sock chan = NS_SERVER then 2 else 0)"
    and chan: "pext_fragmentation chan" "demoplayback env \<or> from_remote env"
    and seq: "h_seq h < 2 ^ 30" "h_ack h < 2 ^ 31" "unat (incoming_sequence chan) < h_seq h"
    and len: "int (length (wire (pext_stunaware chan) h q p)) \<le> MAX_OVERALLMSGLEN"
  defines "c \<equiv> chan\<lparr>bytesin := bytesin chan + int (length (wire (pext_stunaware chan) h q p))\<rparr>"
  shows "\<exists>st. at_piece st (snd (snd p)) \<and>
    Netchan_Process env chan (received (wire (pext_stunaware chan) h q p)) w =
      rbind (qw_fragment (word_of_nat (h_seq h)) (uint (ucast (frag_field (fst p) (fst (snd p))) :: u16)) c st)
        (\<lambda>(whole, chan, st).
          if \<not> whole then Inr (False, chan, st, w)
          else
            let (chan, w) = qw_accept ((packet_of h)\<lparr>pk_offset := ucast (frag_field (fst p) (fst (snd p)))\<rparr>) chan w in
            rbind (case compresstable chan of
                None \<Rightarrow> Inr (net_message st)
              | Some hf \<Rightarrow> Huff_DecompressPacket hf (net_message st) (msg_readcount st)) (\<lambda>m.
            Inr (True, chan, st\<lparr>net_message := m\<rparr>, w)))"
proof -
  let ?bs = "wire (pext_stunaware chan) h q p"
  let ?f = "frag_field (fst p) (fst (snd p))"
  let ?xs = "header_bytes (pext_stunaware chan) h @ q @ enc16 ?f"
  have bs: "?bs = ?xs @ snd (snd p)" by (simp add: wire_def)
  define st0 where "st0 = MSG_BeginReading (chan_netprim c) (received ?bs)"
  have c: "c = chan\<lparr>bytesin := bytesin chan + cursize (net_message (received ?bs))\<rparr>"
    by (simp add: c_def received_def)
  have "reads_at st0 (header_bytes (pext_stunaware c) h @ q @ enc16 ?f @ snd (snd p))"
    using received_reads [OF len] by (simp add: st0_def wire_def c_def)
  from qw_read_header_frag [OF this] have header: "qw_read_header c st0
      = Inr (Some ((packet_of h)\<lparr>pk_offset := ucast ?f\<rparr>), advance st0 (10 + length q))"
    using q chan(1) seq(1,2) by (simp add: c_def)
  have "at_piece (advance st0 (length ?xs)) (snd (snd p))"
    unfolding st0_def bs by (rule received_at_piece) (use len bs in simp)
  then have piece: "at_piece (advance st0 (10 + length q)) (snd (snd p))" by (simp add: add.commute)
  have fresh: "\<not> pk_sequence ((packet_of h)\<lparr>pk_offset := ucast ?f\<rparr>) \<le> incoming_sequence c"
    using seq by (simp add: packet_of_def c_def word_le_nat_alt unat_seq)
  have here: "\<not> (\<not> demoplayback env \<and> \<not> from_remote env)" using chan(2) by blast
  show ?thesis
    by (rule exI [of _ "advance st0 (10 + length q)"], rule conjI [OF piece],
        unfold Netchan_Process_def Let_def c [symmetric] st0_def [symmetric] if_not_P [OF here] header
          rbind_Inr prod.case option.case if_not_P [OF fresh])
      (simp add: packet_of_def)
qed

lemma gathering_bytesin [simp]: "gathering (chan\<lparr>bytesin := x\<rparr>) seq pre = gathering chan seq pre"
  by (simp add: gathering_def chan_ok_def)

lemma length_wire: "length (wire stun h q p) = 10 + length q + length (snd (snd p))"
  by (simp add: wire_def)

lemma deliver_gathers:
  fixes chan :: netchan
  assumes room: "8 \<le> room" "int room + 12 \<le> MAX_OVERALLMSGLEN"
    and env: "demoplayback env \<or> from_remote env" and seq: "h_seq h < 2 ^ 30" "h_ack h < 2 ^ 31"
  shows "length q = (if sock chan = NS_SERVER then 2 else 0) \<Longrightarrow> pext_fragmentation chan \<Longrightarrow>
    pext_stunaware chan = stun \<Longrightarrow>
    unat (incoming_sequence chan) < h_seq h \<Longrightarrow> gathering chan (word_of_nat (h_seq h)) pre \<Longrightarrow>
    8 dvd length pre \<Longrightarrow> int (length (pre @ bs)) \<le> MAX_OVERALLMSGLEN \<Longrightarrow> (pre = [] \<Longrightarrow> room < length bs) \<Longrightarrow>
    \<exists>c w'. deliver env (map (wire stun h q) (frag_pieces room (length pre) bs)) chan w = Inr ([pre @ bs], c, w')
      \<and> incoming_sequence c = word_of_nat (h_seq h) \<and> chan_ok c"
proof (induction "length bs" arbitrary: chan pre bs w rule: less_induct)
  case less
  let ?s = "room div 8 * 8" and ?seq = "word_of_nat (h_seq h) :: u32"
  have short: "length q \<le> 2" using less.prems(1) by simp
  show ?case
  proof (cases "room < length bs")
    case True
    let ?p = "(length pre, True, take ?s bs)"
    have s: "0 < ?s" "?s \<le> room" using room(1) by (simp_all add: div_greater_zero_iff)
    have pieces: "frag_pieces room (length pre) bs = ?p # frag_pieces room (length (pre @ take ?s bs)) (drop ?s bs)"
      using True room(1) s by (subst frag_pieces.simps) (simp add: min_absorb2)
    have "int (length (wire (pext_stunaware chan) h q ?p)) \<le> MAX_OVERALLMSGLEN"
      using room(2) s short by (simp add: length_wire)
    from Netchan_Process_wire [OF less.prems(1,2) env seq less.prems(4) this, of w]
    obtain st where st: "at_piece st (take ?s bs)"
      and run: "Netchan_Process env chan (received (wire stun h q ?p)) w = rbind (qw_fragment ?seq
          (uint (ucast (frag_field (length pre) True) :: u16))
          (chan\<lparr>bytesin := bytesin chan + int (length (wire stun h q ?p))\<rparr>) st)
        (\<lambda>(whole, chan, st).
          if \<not> whole then Inr (False, chan, st, w)
          else
            let (chan, w) = qw_accept ((packet_of h)\<lparr>pk_offset := ucast (frag_field (length pre) True)\<rparr>) chan w in
            rbind (case compresstable chan of
                None \<Rightarrow> Inr (net_message st)
              | Some hf \<Rightarrow> Huff_DecompressPacket hf (net_message st) (msg_readcount st)) (\<lambda>m.
            Inr (True, chan, st\<lparr>net_message := m\<rparr>, w)))"
      unfolding less.prems(3) fst_conv snd_conv by blast
    have "int (length pre + length (take ?s bs)) \<le> MAX_OVERALLMSGLEN" using less.prems(7) by simp
    from qw_fragment_gathers(1) [OF _ st less.prems(6) this, of "chan\<lparr>bytesin := bytesin chan + int (length (wire stun h q ?p))\<rparr>" ?seq True]
    obtain c where c: "qw_fragment ?seq (uint (ucast (frag_field (length pre) True) :: u16))
          (chan\<lparr>bytesin := bytesin chan + int (length (wire stun h q ?p))\<rparr>) st = Inr (False, c, st)"
        "gathering c ?seq (pre @ take ?s bs)"
        "same_sequencing (chan\<lparr>bytesin := bytesin chan + int (length (wire stun h q ?p))\<rparr>) c"
      using less.prems(5) by auto
    have "\<exists>c' w'. deliver env (map (wire stun h q) (frag_pieces room (length (pre @ take ?s bs)) (drop ?s bs))) c w
        = Inr ([(pre @ take ?s bs) @ drop ?s bs], c', w') \<and> incoming_sequence c' = ?seq \<and> chan_ok c'"
    proof (rule less.hyps)
      show "length (drop ?s bs) < length bs" using s True by simp
      show "length q = (if sock c = NS_SERVER then 2 else 0)" "pext_fragmentation c" "pext_stunaware c = stun"
          "unat (incoming_sequence c) < h_seq h"
        using c(3) less.prems(1-4) by (simp_all add: same_sequencing_def)
      show "8 dvd length (pre @ take ?s bs)"
        using less.prems(6) True s by (simp add: min_absorb2)
      show "int (length ((pre @ take ?s bs) @ drop ?s bs)) \<le> MAX_OVERALLMSGLEN" using less.prems(7) by simp
      show "pre @ take ?s bs = [] \<Longrightarrow> room < length (drop ?s bs)" using s True by simp
    qed (rule c(2))
    with run c(1) pieces show ?thesis by auto
  next
    case False
    then have pieces: "frag_pieces room (length pre) bs = [(length pre, False, bs)]"
      by (subst frag_pieces.simps) simp
    have pre: "pre \<noteq> []" using False less.prems(8) by auto
    let ?p = "(length pre, False, bs)"
    have "int (length (wire (pext_stunaware chan) h q ?p)) \<le> MAX_OVERALLMSGLEN"
      using room(2) False short by (simp add: length_wire)
    from Netchan_Process_wire [OF less.prems(1,2) env seq less.prems(4) this, of w]
    obtain st where st: "at_piece st bs"
      and run: "Netchan_Process env chan (received (wire stun h q ?p)) w = rbind (qw_fragment ?seq
          (uint (ucast (frag_field (length pre) False) :: u16))
          (chan\<lparr>bytesin := bytesin chan + int (length (wire stun h q ?p))\<rparr>) st)
        (\<lambda>(whole, chan, st).
          if \<not> whole then Inr (False, chan, st, w)
          else
            let (chan, w) = qw_accept ((packet_of h)\<lparr>pk_offset := ucast (frag_field (length pre) False)\<rparr>) chan w in
            rbind (case compresstable chan of
                None \<Rightarrow> Inr (net_message st)
              | Some hf \<Rightarrow> Huff_DecompressPacket hf (net_message st) (msg_readcount st)) (\<lambda>m.
            Inr (True, chan, st\<lparr>net_message := m\<rparr>, w)))"
      unfolding less.prems(3) fst_conv snd_conv by blast
    have "int (length pre + length bs) \<le> MAX_OVERALLMSGLEN" using less.prems(7) by simp
    from qw_fragment_gathers(2) [OF _ st less.prems(6) this, of "chan\<lparr>bytesin := bytesin chan + int (length (wire stun h q ?p))\<rparr>" ?seq False] pre
    obtain c st' where c: "qw_fragment ?seq (uint (ucast (frag_field (length pre) False) :: u16))
          (chan\<lparr>bytesin := bytesin chan + int (length (wire stun h q ?p))\<rparr>) st = Inr (True, c, st')"
        "chan_ok c" "contents (net_message st') = pre @ bs" "msg_readcount st' = 0"
      using less.prems(5) by auto
    let ?pk = "(packet_of h)\<lparr>pk_offset := ucast (frag_field (length pre) False)\<rparr>"
    obtain c2 w2 where acc: "qw_accept ?pk c w = (c2, w2)" by fastforce
    have "chan_ok c2" "incoming_sequence c2 = ?seq"
      using qw_accept_ok(1) [OF c(2), of ?pk w] qw_accept_ok(2) [of ?pk c w] acc by (simp_all add: packet_of_def)
    with run c acc pieces show ?thesis by (simp add: chan_ok_def)
  qed
qed


text \<open>A message that fits one packet is not a fragment: its field is zero.\<close>

lemma deliver_single:
  assumes "length q = (if sock chan = NS_SERVER then 2 else 0)"
    and "pext_fragmentation chan" "demoplayback env \<or> from_remote env" "chan_ok chan"
    and "h_seq h < 2 ^ 30" "h_ack h < 2 ^ 31" "unat (incoming_sequence chan) < h_seq h"
    and "int (length (wire (pext_stunaware chan) h q (0, False, bs))) \<le> MAX_OVERALLMSGLEN"
  shows "\<exists>c w'. deliver env [wire (pext_stunaware chan) h q (0, False, bs)] chan w = Inr ([bs], c, w')
    \<and> incoming_sequence c = word_of_nat (h_seq h) \<and> chan_ok c"
proof -
  let ?p = "(0, False, bs)" and ?pk = "(packet_of h)\<lparr>pk_offset := 0\<rparr>"
  define c where "c = chan\<lparr>bytesin := bytesin chan + int (length (wire (pext_stunaware chan) h q ?p)),
    incoming_unreliable := 0, in_fragment_length := 0\<rparr>"
  have c: "chan_ok c" using assms(4) by (simp add: c_def chan_ok_def)
  have f: "frag_field 0 False = 0" by (simp add: frag_field_def)
  from Netchan_Process_wire [OF assms(1-3,5-8), of w] obtain st where st: "at_piece st bs"
    and run: "Netchan_Process env chan (received (wire (pext_stunaware chan) h q ?p)) w
      = (let (chan, w) = qw_accept ?pk c w in
         rbind (case compresstable chan of None \<Rightarrow> Inr (net_message st)
             | Some hf \<Rightarrow> Huff_DecompressPacket hf (net_message st) (msg_readcount st)) (\<lambda>m.
         Inr (True, chan, st\<lparr>net_message := m\<rparr>, w)))"
    by (auto simp: f qw_fragment_def c_def)
  obtain c2 w2 where acc: "qw_accept ?pk c w = (c2, w2)" by fastforce
  have "chan_ok c2" "incoming_sequence c2 = word_of_nat (h_seq h)"
    using qw_accept_ok(1) [OF c, of ?pk w] qw_accept_ok(2) [of ?pk c w] acc by (simp_all add: packet_of_def)
  with run acc st show ?thesis by (simp add: chan_ok_def at_piece_def)
qed

lemma deliver_pieces:
  assumes "8 \<le> room" "int room + 12 \<le> MAX_OVERALLMSGLEN"
    and "length q = (if sock chan = NS_SERVER then 2 else 0)"
    and "pext_fragmentation chan" "demoplayback env \<or> from_remote env" "chan_ok chan"
    and "h_seq h < 2 ^ 30" "h_ack h < 2 ^ 31" "unat (incoming_sequence chan) < h_seq h"
    and "incoming_unreliable chan \<noteq> word_of_nat (h_seq h)" "int (length bs) \<le> MAX_OVERALLMSGLEN"
  shows "\<exists>c w'. deliver env (map (wire (pext_stunaware chan) h q) (frag_pieces room 0 bs)) chan w = Inr ([bs], c, w')
    \<and> incoming_sequence c = word_of_nat (h_seq h) \<and> chan_ok c"
proof (cases "room < length bs")
  case True
  have "gathering chan (word_of_nat (h_seq h)) []" using assms(6,10) by (simp add: gathering_def)
  then show ?thesis
    using deliver_gathers [OF assms(1,2,5,7,8,3,4) refl assms(9), of "[]" bs w] assms(11) True by simp
next
  case False
  then have "frag_pieces room 0 bs = [(0, False, bs)]" by (subst frag_pieces.simps) simp
  moreover have "int (length (wire (pext_stunaware chan) h q (0, False, bs))) \<le> MAX_OVERALLMSGLEN"
    using False assms(2,3) by (simp add: length_wire split: if_splits)
  ultimately show ?thesis using deliver_single [OF assms(3-9), of bs w] by simp
qed

section \<open>From end to end\<close>

text \<open>
  C15.  A message cut into fragments arrives whole.  Let a channel with the fragmentation
  extension send a message over a socket that takes every packet, with at least eight bytes
  of room in a packet; the packets it hands to the socket, delivered in order to a channel of
  the other side that has not seen this sequence number, make \<open>Netchan_Process\<close> accept exactly
  once, and what is then left to read in \<open>net_message\<close> is exactly the payload, whatever
  its length up to \<open>MAX_OVERALLMSGLEN\<close>.
\<close>

theorem fragments_roundtrip:
  assumes "qport_ok chan" "all_sent env" "\<not> demoplayback env" "pext_fragmentation chan" "dupe chan = 0"
    and "mtu chan = header_size chan + int room" "8 \<le> room" "int room + 12 \<le> MAX_OVERALLMSGLEN"
    and "header_size chan \<le> cursize send" "cursize send \<le> int (length (data send))"
    and "int (length (drop (nat (header_size chan)) (contents send))) \<le> MAX_OVERALLMSGLEN"
    and "pext_stunaware rchan = pext_stunaware chan" "pext_fragmentation rchan" "chan_ok rchan" "from_remote renv"
    and "length (qport_bytes chan) = (if sock rchan = NS_SERVER then 2 else 0)"
    and "le32 w1 @ le32 w2 = header_bytes (pext_stunaware chan) h" "h_seq h < 2 ^ 30" "h_ack h < 2 ^ 31"
    and "unat (incoming_sequence rchan) < h_seq h" "incoming_unreliable rchan \<noteq> word_of_nat (h_seq h)"
  shows "\<exists>n chan' w' rchan' rw'. qw_send env w1 w2 send chan w = Inr (NETERR_SENT, n, chan', w')
    \<and> deliver renv (map fst (drop (length (packets w)) (packets w'))) rchan rw
        = Inr ([drop (nat (header_size chan)) (contents send)], rchan', rw')
    \<and> incoming_sequence rchan' = word_of_nat (h_seq h)"
proof -
  let ?bs = "drop (nat (header_size chan)) (contents send)"
  have cur: "0 < cursize send" using assms(9) by (simp add: header_size_def split: if_splits)
  have "length ?bs < frag_fuel send"
    using cur by (simp add: contents_def frag_fuel_def)
  from frag_loop_pieces [OF assms(1,2,6,7), of 0 "cursize send" "data send" ?bs "frag_fuel send" w1 w2 0 w]
  obtain n where run: "frag_loop (frag_fuel send) env chan w1 w2 (header_size chan) (cursize send) 1 (data send) 0
      (NETERR_SENT, mtu chan, 0, w) = Inr (NETERR_SENT, mtu chan, n,
        w\<lparr>packets := packets w @ map (\<lambda>p. (frag_packet chan w1 w2 p, NETERR_SENT)) (frag_pieces room 0 ?bs)\<rparr>)"
    using assms(6,9,10) \<open>length ?bs < frag_fuel send\<close> by (auto simp: contents_def)
  have dupes: "nat (min (dupe chan) (max 0 (avail_bytes env) div cursize send) + 1) = 1"
    using assms(5) cur by (simp add: min_absorb1 pos_imp_zdiv_nonneg_iff)
  have send: "qw_send env w1 w2 send chan w = Inr (NETERR_SENT, n, chan\<lparr>mtu := mtu chan\<rparr>,
        w\<lparr>packets := packets w @ map (\<lambda>p. (frag_packet chan w1 w2 p, NETERR_SENT)) (frag_pieces room 0 ?bs)\<rparr>)"
    using assms(3,4) run by (simp add: qw_send_def Let_def dupes header_size_def)
  have pkt: "frag_packet chan w1 w2 = wire (pext_stunaware rchan) h (qport_bytes chan)"
    using assms(12,17) by (auto simp: fun_eq_iff frag_packet_def frag_bytes_def wire_def append_assoc [symmetric]
        simp del: append_assoc)
  have env: "demoplayback renv \<or> from_remote renv" using assms(15) by simp
  show ?thesis
    using send deliver_pieces [OF assms(7,8,16,13) env assms(14,18-21,11), of rw]
    by (auto simp: pkt comp_def)
qed

text \<open>Twenty bytes through packets with room for nine: three fragments.\<close>

definition fragment_sender :: netchan where
  "fragment_sender = (Netchan_Setup NS_SERVER 0)\<lparr>pext_fragmentation := True, mtu := 19\<rparr>"

definition fragment_receiver :: netchan where
  "fragment_receiver = (Netchan_Setup NS_CLIENT 0)\<lparr>pext_fragmentation := True\<rparr>"

definition fragment_message :: "u8 list \<Rightarrow> sizebuf" where
  "fragment_message bs = (new_buffer False (10 + length bs))\<lparr>data := replicate 10 0 @ bs, cursize := 10 + int (length bs)\<rparr>"

theorem fragments_roundtrip_witness:
  "\<forall>w. \<exists>n chan' w' rchan' rw'. qw_send plain_env 1 0 (fragment_message (replicate 20 7)) fragment_sender w
      = Inr (NETERR_SENT, n, chan', w')
    \<and> deliver plain_env (map fst (drop (length (packets w)) (packets w'))) fragment_receiver w
      = Inr ([replicate 20 7], rchan', rw')
    \<and> incoming_sequence rchan' = 1"
proof
  fix w :: networld
  let ?h = "\<lparr>h_seq = 1, h_rel = False, h_ack = 0, h_relack = False, h_msg = []\<rparr>"
  let ?m = "fragment_message (replicate 20 7)"
  have chan: "qport_ok fragment_sender" "pext_fragmentation fragment_sender" "dupe fragment_sender = 0"
      "header_size fragment_sender = 10" "mtu fragment_sender = header_size fragment_sender + int 9"
      "pext_stunaware fragment_sender = False" "qport_bytes fragment_sender = []"
    by (simp_all add: fragment_sender_def Netchan_Setup_def qport_ok_def header_size_def qport_bytes_def)
  have recv: "pext_stunaware fragment_receiver = False" "pext_fragmentation fragment_receiver"
      "chan_ok fragment_receiver" "sock fragment_receiver = NS_CLIENT" "incoming_sequence fragment_receiver = 0"
      "incoming_unreliable fragment_receiver = - 1"
    by (simp_all add: fragment_receiver_def Netchan_Setup_def chan_ok_def MAX_OVERALLMSGLEN_def)
  have env: "all_sent plain_env" "from_remote plain_env" by (simp_all add: all_sent_def plain_env_def)
  have m: "cursize ?m = 30" "length (data ?m) = 30" "drop 10 (contents ?m) = replicate 20 7"
    by (simp_all add: fragment_message_def contents_def)
  have "le32 1 @ le32 0 = header_bytes False ?h" by code_simp
  then have bytes: "le32 1 @ le32 0 = header_bytes (pext_stunaware fragment_sender) ?h" using chan(6) by simp
  have ten: "nat 10 = 10" by simp
  have small: "8 \<le> (9::nat)" "int 9 + 12 \<le> MAX_OVERALLMSGLEN" by (simp_all add: MAX_OVERALLMSGLEN_def)
  have fits: "header_size fragment_sender \<le> cursize ?m" "cursize ?m \<le> int (length (data ?m))"
      "int (length (drop (nat (header_size fragment_sender)) (contents ?m))) \<le> MAX_OVERALLMSGLEN"
      "pext_stunaware fragment_receiver = pext_stunaware fragment_sender"
    unfolding chan(4,6) recv(1) ten m by (simp_all add: MAX_OVERALLMSGLEN_def)
  have port: "length (qport_bytes fragment_sender) = (if sock fragment_receiver = NS_SERVER then 2 else 0)"
    using chan(7) recv(4) by simp
  have seq: "h_seq ?h < 2 ^ 30" "h_ack ?h < 2 ^ 31" "unat (incoming_sequence fragment_receiver) < h_seq ?h"
      "incoming_unreliable fragment_receiver \<noteq> word_of_nat (h_seq ?h)"
    using recv(5,6) by simp_all
  show "\<exists>n chan' w' rchan' rw'. qw_send plain_env 1 0 ?m fragment_sender w = Inr (NETERR_SENT, n, chan', w')
    \<and> deliver plain_env (map fst (drop (length (packets w)) (packets w'))) fragment_receiver w
      = Inr ([replicate 20 7], rchan', rw')
    \<and> incoming_sequence rchan' = 1"
    using fragments_roundtrip [OF chan(1) env(1) plain_env_ok(2) chan(2,3,5) small fits recv(2-3) env(2) port
        bytes seq, of w w]
    unfolding chan(4) ten m by simp
qed

theorem fragment_sending_terminates_witness:
  "\<forall>w. \<exists>x. qw_send (plain_env\<lparr>net_result := (\<lambda>i pkt. NETERR_MTU)\<rparr>) 1 0 (fragment_message (replicate 20 7))
     (fragment_sender\<lparr>mtu := 19\<rparr>) w = Inr x"
  using fragment_sending_terminates [of "fragment_sender\<lparr>mtu := 19\<rparr>" "fragment_message (replicate 20 7)"]
  by (simp add: fragment_sender_def fragment_message_def Netchan_Setup_def qport_ok_def header_size_def)

text \<open>
  A message whose first fragment is too long for the path is lost.  When the socket
  answers the first packet with \<open>NETERR_MTU\<close>, the channel lowers its packet size by sixteen
  and goes round again from the start of the message, but with the error still in \<open>e\<close>: nothing
  more is handed to the socket, so the socket has seen one packet only, the one it refused.
\<close>

theorem fragment_too_long_is_lost:
  assumes "qport_ok chan" "pext_fragmentation chan" "\<not> demoplayback env" "560 < mtu chan" "0 \<le> dupe chan"
    and "header_size chan \<le> cursize send" "cursize send \<le> int (length (data send))"
    and "\<And>pkt. net_result env (length (packets w)) pkt = NETERR_MTU"
  shows "\<exists>n w' pkt. qw_send env w1 w2 send chan w = Inr (NETERR_MTU, n, chan\<lparr>mtu := mtu chan - 16\<rparr>, w')
    \<and> packets w' = packets w @ [(pkt, NETERR_MTU)]"
proof -
  let ?h = "header_size chan" and ?n = "nat (min (dupe chan) (max 0 (avail_bytes env) div cursize send) + 1)"
  have cur: "0 < cursize send" using assms(6) by (simp add: header_size_def split: if_splits)
  have h: "?h + 8 \<le> mtu chan" "?h + 8 \<le> mtu chan - 16" using header_size_le [OF assms(1)] assms(4) by simp_all
  have z: "8 dvd (0::nat)" "int 0 + ?h \<le> cursize send" using assms(6) by simp_all
  obtain dat1 mf no pkt where r:
    "frag_header chan w1 w2 ?h (int 0) (int 0 + mtu chan - ?h < cursize send - ?h) (data send) = Inr dat1"
    "length dat1 = length (data send)"
    "mf \<longleftrightarrow> int 0 + mtu chan - ?h < cursize send - ?h"
    "(if mf then (int 0 + mtu chan - ?h) div 8 * 8 else cursize send - ?h) = int no"
    "Prelude.slice dat1 (int 0) (int no - int 0 + ?h) = Inr pkt"
    "int no + ?h \<le> cursize send" "mf \<longrightarrow> 0 + 8 \<le> no \<and> 8 dvd no"
    by (rule frag_round [OF assms(1) h(1) z assms(7), where ?w1.0 = w1 and ?w2.0 = w2])
  define w' where "w' = w\<lparr>packets := packets w @ [(pkt, NETERR_MTU)]\<rparr>"
  have "0 \<le> max 0 (avail_bytes env) div cursize send" using cur by (simp add: pos_imp_zdiv_nonneg_iff)
  then obtain j where "?n = Suc j" using assms(5) by (cases ?n) auto
  then have sent: "frag_sends env ?n pkt True (NETERR_SENT, mtu chan, 0, w)
      = (True, NETERR_MTU, mtu chan - 16, int (length pkt), w')"
    using assms(4,8) by (simp add: NET_SendPacket_def Let_def w'_def)
  obtain k where k: "frag_fuel send = Suc k" by (simp add: frag_fuel_def)
  have rest: "frag_loop k env chan w1 w2 ?h (cursize send) ?n dat1 (int 0) (NETERR_MTU, mtu chan - 16, int (length pkt), w')
      = Inr (NETERR_MTU, mtu chan - 16, int (length pkt), w')"
  proof (rule frag_loop_stopped [OF assms(1) h(2) _ z])
    have "int k = cursize send + 1" using k cur by (simp add: frag_fuel_def)
    then show "cursize send - ?h - int 0 < int k" by (simp add: header_size_def)
  qed (use assms(7) r(2) in simp_all)
  have "frag_loop (frag_fuel send) env chan w1 w2 ?h (cursize send) ?n (data send) (int 0) (NETERR_SENT, mtu chan, 0, w)
      = Inr (NETERR_MTU, mtu chan - 16, int (length pkt), w')"
    unfolding k frag_loop.simps Let_def r(3) [symmetric] r(4) r(1) [folded r(3)] r(5) rbind_Inr if_P [OF refl]
      of_nat_0 simp_thms by (simp add: sent) (use rest in simp)
  then show ?thesis using assms(2,3) by (simp add: qw_send_def Let_def header_size_def w'_def)
qed

theorem fragment_too_long_is_lost_witness:
  "\<forall>w. \<exists>n w' pkt. qw_send (plain_env\<lparr>net_result := (\<lambda>i pkt. NETERR_MTU)\<rparr>) 1 0 (fragment_message (replicate 20 7))
     (fragment_sender\<lparr>mtu := 1400\<rparr>) w = Inr (NETERR_MTU, n, fragment_sender\<lparr>mtu := 1384\<rparr>, w')
   \<and> packets w' = packets w @ [(pkt, NETERR_MTU)]"
proof
  fix w :: networld
  show "\<exists>n w' pkt. qw_send (plain_env\<lparr>net_result := (\<lambda>i pkt. NETERR_MTU)\<rparr>) 1 0 (fragment_message (replicate 20 7))
     (fragment_sender\<lparr>mtu := 1400\<rparr>) w = Inr (NETERR_MTU, n, fragment_sender\<lparr>mtu := 1384\<rparr>, w')
   \<and> packets w' = packets w @ [(pkt, NETERR_MTU)]"
    using fragment_too_long_is_lost [of "fragment_sender\<lparr>mtu := 1400\<rparr>" "plain_env\<lparr>net_result := (\<lambda>i pkt. NETERR_MTU)\<rparr>"
        "fragment_message (replicate 20 7)" w 1 0]
    by (simp add: fragment_sender_def fragment_message_def Netchan_Setup_def qport_ok_def header_size_def plain_env_def)
qed

end
