(* ===== verification/NetchanFaults.thy ===== *)
theory NetchanFaults
  imports NetchanFrag
begin

text \<open>
  Two things \<open>Netchan_Transmit\<close> does that its callers do not expect: the bytes of a NetQuake
  unreliable packet are not counted, and a negative packet size ends the program.
\<close>

section \<open>Unreliable data on a NetQuake channel\<close>

definition nq_unreliable_packet :: "u32 \<Rightarrow> u8 list \<Rightarrow> u8 list" where
  "nq_unreliable_packet seq dat = be32 (NETFLAG_UNRELIABLE OR word_of_nat (8 + length dat)) @ le32 (LongSwap seq) @ dat"

lemma length_be32 [simp]: "length (be32 x) = 4"
  by (simp add: be32_def)

lemma sz_put_head:
  assumes "sz_fits b (length xs)" "cursize b = 0" "length ys \<le> length xs"
  shows "sz_store (sz_put b xs) 0 ys = Inr (sz_put b (ys @ drop (length ys) xs))"
  using assms by (simp add: sz_store_def poke_def sz_put_def sz_fits_def)

lemma send_packet_put:
  assumes "sz_fits b (length xs)" "cursize b = 0"
  shows "send_packet_data (sz_put b xs) = Inr xs"
  using assms by (simp add: send_packet_data_def slice_def sz_put_def sz_fits_def)

text \<open>
  What a NetQuake channel sends for unreliable data, and what it says it sent.  For
  data that fits a packet and a channel that does not duplicate packets, one packet goes to the
  socket: the flag and the length, big-endian, the unreliable sequence number, big-endian, and
  the data; the sequence number goes up by one.  But the number of bytes the call reports, which
  the rate limit and \<open>bytesout\<close> are fed with, is zero: the counter of the duplication loop
  starts at -1 and is the factor.
\<close>

theorem nq_unreliable_packet_uncounted:
  assumes "env_ok env" "dupe chan = 0" "dat \<noteq> []" "int (length dat) \<le> MAX_NQMSGLEN"
  shows "\<exists>m. nq_send_unreliable env dat chan w = Inr (0, chan\<lparr>outgoing_unreliable := outgoing_unreliable chan + 1, mtu := m\<rparr>,
      w\<lparr>packets := packets w @ [(nq_unreliable_packet (outgoing_unreliable chan) dat,
        net_result env (length (packets w)) (nq_unreliable_packet (outgoing_unreliable chan) dat))]\<rparr>)"
proof -
  let ?b = "send_init env (MAX_NQMSGLEN + PACKET_HEADER)" and ?s = "LongSwap (outgoing_unreliable chan)"
  have fits: "sz_fits ?b n" if "n \<le> 8 + length dat" for n
    using assms(1,4) that
    by (simp add: env_ok_def sz_fits_def send_init_def PACKET_HEADER_def MAX_OVERALLMSGLEN_def MAX_NQMSGLEN_def)
  have cur: "cursize ?b = 0" by (simp add: send_init_def)
  let ?xs = "le32 0 @ le32 ?s @ dat"
  have 1: "MSG_WriteLong ?b 0 = Inr (sz_put ?b (le32 0))"
    using fits by (simp add: write_eqs SZ_Write_fits)
  have 2: "MSG_WriteLong (sz_put ?b (le32 0)) ?s = Inr (sz_put ?b (le32 0 @ le32 ?s))"
    using fits by (simp add: write_eqs SZ_Write_fits sz_put_fits sz_put_append)
  have 3: "SZ_Write (sz_put ?b (le32 0 @ le32 ?s)) dat = Inr (sz_put ?b ?xs)"
    using fits [of "length (le32 0 @ le32 ?s) + length dat"] fits [of "length (le32 0 @ le32 ?s)"]
    by (simp add: SZ_Write_fits sz_put_fits sz_put_append)
  have len: "word_of_int (cursize (sz_put ?b ?xs)) = (word_of_nat (8 + length dat) :: u32)"
    by (simp add: cur)
  have 4: "sz_store (sz_put ?b ?xs) 0 (be32 (NETFLAG_UNRELIABLE OR word_of_nat (8 + length dat)))
      = Inr (sz_put ?b (nq_unreliable_packet (outgoing_unreliable chan) dat))"
    using fits cur by (simp add: sz_put_head nq_unreliable_packet_def)
  have lp: "length (nq_unreliable_packet (outgoing_unreliable chan) dat) = 8 + length dat"
    by (simp add: nq_unreliable_packet_def)
  have 5: "send_packet_data (sz_put ?b (nq_unreliable_packet (outgoing_unreliable chan) dat))
      = Inr (nq_unreliable_packet (outgoing_unreliable chan) dat)"
    using fits cur by (simp add: send_packet_put lp)
  show ?thesis
    unfolding nq_send_unreliable_def if_not_P [OF assms(3)] 1 2 3 rbind_Inr len 4 5 assms(2)
    by (rule exI [of _ "if net_result env (length (packets w)) (nq_unreliable_packet (outgoing_unreliable chan) dat)
          = NETERR_MTU \<and> mtu chan > 560 then mtu chan - 10 else mtu chan"])
      (cases chan, simp add: NET_SendPacket_def Let_def)
qed

theorem nq_unreliable_packet_uncounted_witness:
  "\<forall>w. \<exists>m. nq_send_unreliable plain_env [1, 2, 3] (Netchan_Setup NS_CLIENT 0) w
    = Inr (0, (Netchan_Setup NS_CLIENT 0)\<lparr>outgoing_unreliable := 1, mtu := m\<rparr>,
      w\<lparr>packets := packets w @ [([0, 0x10, 0, 11, 0, 0, 0, 0, 1, 2, 3], NETERR_SENT)]\<rparr>)"
proof
  fix w :: networld
  have "nq_unreliable_packet 0 [1, 2, 3] = [0, 0x10, 0, 11, 0, 0, 0, 0, 1, 2, 3]" by code_simp
  moreover have "net_result plain_env i p = NETERR_SENT" for i p by (simp add: plain_env_def)
  ultimately show "\<exists>m. nq_send_unreliable plain_env [1, 2, 3] (Netchan_Setup NS_CLIENT 0) w
    = Inr (0, (Netchan_Setup NS_CLIENT 0)\<lparr>outgoing_unreliable := 1, mtu := m\<rparr>,
      w\<lparr>packets := packets w @ [([0, 0x10, 0, 11, 0, 0, 0, 0, 1, 2, 3], NETERR_SENT)]\<rparr>)"
    using nq_unreliable_packet_uncounted [OF plain_env_ok(1), of "Netchan_Setup NS_CLIENT 0" "[1, 2, 3]" w]
    by (simp add: Netchan_Setup_def MAX_NQMSGLEN_def)
qed

section \<open>A negative packet size\<close>

text \<open>
  A negative packet size stops the program.  On a QuakeWorld channel whose
  \<open>mtu\<close> is below zero, the header does not fit the buffer that \<open>Netchan_Transmit\<close> makes for
  the packet, and as that buffer does not allow overflow the call ends in \<open>Sys_Error\<close>, with
  nothing sent.  A server takes the value for a client without fragmentation from the client's
  user information, unchecked.
\<close>

theorem negative_mtu_is_fatal:
  assumes "chan_wf chan" "\<not> isnqprotocol chan" "\<not> overflowed (message chan)" "mtu chan < 0"
    and "env_ok env" "\<not> allowoverflow (send_local env)"
  shows "Netchan_Transmit env dat chan w = Inl (Sys_Error ''SZ_GetSpace'')"
proof -
  obtain c1 where c1: "qw_stage chan = Inr (ep_sends (abs_ep chan), c1)" "same_settings chan c1"
    using qw_stage_refines [OF assms(1)] by blast
  obtain w1 w2 where words: "qw_words (ep_sends (abs_ep chan)) c1 = (w1, w2)" by fastforce
  define c2 where "c2 = c1\<lparr>outgoing_sequence := outgoing_sequence c1 + 1\<rparr>"
  have m: "mtu c2 = mtu chan" using c1(2) by (simp add: c2_def same_settings_def)
  let ?b = "send_init env (mtu chan + PACKET_HEADER)"
  have get: "SZ_Write b (le32 x) = Inl (Sys_Error ''SZ_GetSpace'')"
    if "maxsize b < cursize b + 4" "\<not> allowoverflow b" for b x
    using that by (simp add: SZ_Write_def SZ_GetSpace_def)
  have "rbind (MSG_WriteLong ?b w1) (\<lambda>send. MSG_WriteLong send w2) = Inl (Sys_Error ''SZ_GetSpace'')"
  proof (cases "mtu chan < - 4")
    case True
    then show ?thesis using assms(6) by (simp add: write_eqs get send_init_def PACKET_HEADER_def)
  next
    case False
    then have "sz_fits ?b 4"
      using assms(4,5) by (simp add: sz_fits_def send_init_def PACKET_HEADER_def env_ok_def MAX_OVERALLMSGLEN_def)
    moreover have "SZ_Write (sz_put ?b (le32 w1)) (le32 w2) = Inl (Sys_Error ''SZ_GetSpace'')"
      using assms(4,6) by (intro get) (simp_all add: send_init_def PACKET_HEADER_def)
    ultimately show ?thesis by (simp add: write_eqs SZ_Write_fits)
  qed
  then have "qw_header env w1 w2 c2 = Inl (Sys_Error ''SZ_GetSpace'')"
    using assms(4) unfolding qw_header_def m Let_def
    by (cases "MSG_WriteLong ?b w1") simp_all
  then show ?thesis
    using assms(2,3) c1(1) words
    by (simp add: Netchan_Transmit_def qw_transmit_def Let_def c2_def)
qed

theorem negative_mtu_is_fatal_witness:
  "\<forall>w. Netchan_Transmit plain_env [] ((Netchan_Setup NS_SERVER 0)\<lparr>mtu := - 100\<rparr>) w
     = Inl (Sys_Error ''SZ_GetSpace'')"
proof
  fix w :: networld
  have "chan_wf (Netchan_Setup NS_SERVER 0)"
    using with_message_wf [of "[]" NS_SERVER 0]
    by (simp add: chan_wf_def with_message_def Netchan_Setup_def MAX_OVERALLMSGLEN_def)
  then have "chan_wf ((Netchan_Setup NS_SERVER 0)\<lparr>mtu := - 100\<rparr>)" by (simp add: chan_wf_def)
  moreover have "\<not> allowoverflow (send_local plain_env)" by (simp add: plain_env_def)
  ultimately show "Netchan_Transmit plain_env [] ((Netchan_Setup NS_SERVER 0)\<lparr>mtu := - 100\<rparr>) w
     = Inl (Sys_Error ''SZ_GetSpace'')"
    using negative_mtu_is_fatal [of "(Netchan_Setup NS_SERVER 0)\<lparr>mtu := - 100\<rparr>" plain_env] plain_env_ok(1)
    by (simp add: Netchan_Setup_def)
qed

end
