(* ===== verification/Qvm.thy ===== *)
theory Qvm
  imports Netchan "HOL-Library.Signed_Division"
begin

text \<open>
  The bytecode machine that runs Quake 3 game modules (\<open>common/qvm.c\<close>): loading an image
  and interpreting it.  The machine lives in one allocated block: the code segment, two
  32-bit words an instruction, and behind it the data segment, whose upper part is the
  stack.  A pointer into the data segment is its offset there; the block is a list of
  bytes, so that an access outside the block is the fault \<open>OutOfBounds\<close>, and one before the
  data segment reaches the code, as it does in the program.  The host is little-endian.
\<close>

section \<open>The machine\<close>

datatype (plugins only: code) qvm_op =
    OP_UNDEF | OP_NOP | OP_BREAK
  | OP_ENTER | OP_LEAVE | OP_CALL | OP_PUSH | OP_POP
  | OP_CONST | OP_LOCAL
  | OP_JUMP
  | OP_EQ | OP_NE
  | OP_LTI | OP_LEI | OP_GTI | OP_GEI
  | OP_LTU | OP_LEU | OP_GTU | OP_GEU
  | OP_EQF | OP_NEF
  | OP_LTF | OP_LEF | OP_GTF | OP_GEF
  | OP_LOAD1 | OP_LOAD2 | OP_LOAD4
  | OP_STORE1 | OP_STORE2 | OP_STORE4 | OP_ARG | OP_BLOCK_COPY
  | OP_SEX8 | OP_SEX16
  | OP_NEGI | OP_ADD | OP_SUB | OP_DIVI | OP_DIVU | OP_MODI | OP_MODU | OP_MULI | OP_MULU
  | OP_BAND | OP_BOR | OP_BXOR | OP_BCOM
  | OP_LSH | OP_RSHI | OP_RSHU
  | OP_NEGF | OP_ADDF | OP_SUBF | OP_DIVF | OP_MULF
  | OP_CVIF | OP_CVFI

text \<open>The constructors in the order of the enumeration: the number of an operation is its place.\<close>

definition qvm_ops :: "qvm_op list" where
  "qvm_ops = [OP_UNDEF, OP_NOP, OP_BREAK, OP_ENTER, OP_LEAVE, OP_CALL, OP_PUSH, OP_POP, OP_CONST, OP_LOCAL,
     OP_JUMP, OP_EQ, OP_NE, OP_LTI, OP_LEI, OP_GTI, OP_GEI, OP_LTU, OP_LEU, OP_GTU, OP_GEU,
     OP_EQF, OP_NEF, OP_LTF, OP_LEF, OP_GTF, OP_GEF, OP_LOAD1, OP_LOAD2, OP_LOAD4,
     OP_STORE1, OP_STORE2, OP_STORE4, OP_ARG, OP_BLOCK_COPY, OP_SEX8, OP_SEX16,
     OP_NEGI, OP_ADD, OP_SUB, OP_DIVI, OP_DIVU, OP_MODI, OP_MODU, OP_MULI, OP_MULU,
     OP_BAND, OP_BOR, OP_BXOR, OP_BCOM, OP_LSH, OP_RSHI, OP_RSHU,
     OP_NEGF, OP_ADDF, OP_SUBF, OP_DIVF, OP_MULF, OP_CVIF, OP_CVFI]"

definition op_of :: "u32 \<Rightarrow> qvm_op" where
  "op_of w = (if unat w < length qvm_ops then qvm_ops ! unat w else OP_BREAK)"

text \<open>
  \<open>pc\<close> counts 32-bit words from the start of the code, \<open>sp\<close>, \<open>min_sp\<close> and \<open>max_sp\<close> are byte
  offsets into the data segment, as the base pointer is.
\<close>

record qvm =
  mem_ptr :: "u8 list"
  pc :: int
  sp :: int
  bp :: u32
  min_sp :: int
  max_sp :: int
  min_bp :: u32
  max_bp :: u32
  len_cs :: u32
  len_ds :: u32
  len_ss :: u32
  ds_mask :: u32

definition ds_base :: "qvm \<Rightarrow> int" where
  "ds_base q = 8 * uint (len_cs q)"

text \<open>
  What the machine uses of its surroundings: the engine's system calls, which see the data
  segment and the arguments' place in it, and the floating-point unit on single-precision
  bit patterns.
\<close>

record qvmenv =
  syscall :: "u8 list \<Rightarrow> u32 \<Rightarrow> u32 \<Rightarrow> int \<Rightarrow> u32 \<times> u8 list"
  f_add :: "u32 \<Rightarrow> u32 \<Rightarrow> u32"
  f_sub :: "u32 \<Rightarrow> u32 \<Rightarrow> u32"
  f_div :: "u32 \<Rightarrow> u32 \<Rightarrow> u32"
  f_mul :: "u32 \<Rightarrow> u32 \<Rightarrow> u32"
  f_of_int :: "u32 \<Rightarrow> u32"
  f_to_int :: "u32 \<Rightarrow> u32"

section \<open>Memory\<close>

definition read_ds :: "qvm \<Rightarrow> int \<Rightarrow> int \<Rightarrow> u8 list res" where
  "read_ds q a n = slice (mem_ptr q) (ds_base q + a) n"

definition write_ds :: "qvm \<Rightarrow> int \<Rightarrow> u8 list \<Rightarrow> qvm res" where
  "write_ds q a bs = rbind (poke (mem_ptr q) (ds_base q + a) bs) (\<lambda>m. Inr (q\<lparr>mem_ptr := m\<rparr>))"

definition read_word :: "qvm \<Rightarrow> int \<Rightarrow> u32 res" where
  "read_word q a = rbind (read_ds q a 4) (\<lambda>bs. Inr (of_le32_list bs))"

definition write_word :: "qvm \<Rightarrow> int \<Rightarrow> u32 \<Rightarrow> qvm res" where
  "write_word q a v = write_ds q a (le32 v)"

text \<open>The macros \<open>POP\<close> and \<open>PUSH\<close>: the stack grows down, and is checked after the move.\<close>

definition qvm_pop :: "int \<Rightarrow> qvm \<Rightarrow> qvm res" where
  "qvm_pop n q = (if sp q + 4 * n > max_sp q then Inl (Sys_Error ''QVM Stack underflow'')
     else Inr (q\<lparr>sp := sp q + 4 * n\<rparr>))"

definition qvm_push :: "u32 \<Rightarrow> qvm \<Rightarrow> qvm res" where
  "qvm_push v q = (let q = q\<lparr>sp := sp q - 4\<rparr> in
     if sp q < min_sp q then Inl (Sys_Error ''QVM Stack overflow'') else write_word q (sp q) v)"

text \<open>
  \<open>PUSH(*qvm->sp)\<close>: the argument of the macro is read after the pointer has moved, so the
  word that is there already is stored again.
\<close>

definition qvm_push_same :: "qvm \<Rightarrow> qvm res" where
  "qvm_push_same q = (let q = q\<lparr>sp := sp q - 4\<rparr> in
     if sp q < min_sp q then Inl (Sys_Error ''QVM Stack overflow'')
     else rbind (read_word q (sp q)) (write_word q (sp q)))"

section \<open>Control flow\<close>

text \<open>\<open>QVM_Goto\<close>; \<open>addr*2\<close> is computed on unsigned integers.\<close>

definition QVM_Goto :: "u32 \<Rightarrow> qvm \<Rightarrow> qvm res" where
  "QVM_Goto addr q = (if addr > len_cs q then Inl (Sys_Error ''program jumped off to hyperspace'')
     else Inr (q\<lparr>pc := uint (addr * 2)\<rparr>))"

definition QVM_Call :: "qvmenv \<Rightarrow> u32 \<Rightarrow> qvm \<Rightarrow> qvm res" where
  "QVM_Call env addr q =
     (let q = q\<lparr>sp := sp q - 4\<rparr> in
      if sp q < min_sp q then Inl (Sys_Error ''QVM Stack underflow'')
      else if sint addr < 0 then
        let (v, ds) = syscall env (drop (nat (ds_base q)) (mem_ptr q)) (ds_mask q) (- addr - 1) (uint (bp q) + 8)
        in write_word (q\<lparr>mem_ptr := take (nat (ds_base q)) (mem_ptr q) @ ds\<rparr>) (sp q) v
      else if addr \<ge> len_cs q then Inl (Sys_Error ''program jumped off to hyperspace'')
      else rbind (write_word q (sp q) (word_of_int (pc q))) (\<lambda>q. Inr (q\<lparr>pc := sint addr * 2\<rparr>)))"

definition QVM_Enter :: "u32 \<Rightarrow> qvm \<Rightarrow> qvm res" where
  "QVM_Enter n q =
     (let q = q\<lparr>bp := bp q - n\<rparr> in
      if bp q < min_bp q then Inl (Sys_Error ''out of stack'')
      else
        rbind (write_word q (uint (bp q)) (word_of_int ((sp q - max_sp q) div 4))) (\<lambda>q.
        rbind (read_word q (sp q)) (\<lambda>ret.
        rbind (write_word (q\<lparr>sp := sp q + 4\<rparr>) (uint (bp q) + 4) ret) (\<lambda>q.
        if sp q > max_sp q then Inl (Sys_Error ''QVM Stack overflow'') else Inr q))))"

text \<open>\<open>False\<close>: the function returned to the engine.\<close>

definition QVM_Return :: "u32 \<Rightarrow> qvm \<Rightarrow> (bool \<times> qvm) res" where
  "QVM_Return n q =
     (let fp = uint (bp q); q = q\<lparr>bp := bp q + n\<rparr> in
      if bp q > max_bp q then Inl (Sys_Error ''freed too much stack'')
      else
        rbind (read_word q fp) (\<lambda>depth.
        if (sp q - max_sp q) div 4 \<noteq> sint depth then Inl (Sys_Error ''stack push/pop mismatch'')
        else
          rbind (read_word q (fp + 4)) (\<lambda>ret.
          let q = q\<lparr>pc := sint ret\<rparr> in
          if ret \<ge> len_cs q * 2 then
            if sint ret = - 1 then Inr (False, q)
            else Inl (Sys_Error ''program returned to hyperspace'')
          else Inr (True, q))))"

section \<open>Instructions\<close>

text \<open>Comparison of single-precision bit patterns, as the floating-point standard has it.\<close>

definition f_nan :: "u32 \<Rightarrow> bool" where
  "f_nan a \<longleftrightarrow> a AND 0x7fffffff > 0x7f800000"

text \<open>The place of a number that is not a NaN on the number line; both zeros are \<open>0\<close>.\<close>

definition f_rank :: "u32 \<Rightarrow> int" where
  "f_rank a = (if bit a 31 then - uint (a AND 0x7fffffff) else uint (a AND 0x7fffffff))"

definition f_eq :: "u32 \<Rightarrow> u32 \<Rightarrow> bool" where
  "f_eq a b \<longleftrightarrow> \<not> f_nan a \<and> \<not> f_nan b \<and> f_rank a = f_rank b"

definition f_lt :: "u32 \<Rightarrow> u32 \<Rightarrow> bool" where
  "f_lt a b \<longleftrightarrow> \<not> f_nan a \<and> \<not> f_nan b \<and> f_rank a < f_rank b"

definition f_le :: "u32 \<Rightarrow> u32 \<Rightarrow> bool" where
  "f_le a b \<longleftrightarrow> \<not> f_nan a \<and> \<not> f_nan b \<and> f_rank a \<le> f_rank b"

text \<open>The condition of a branch: the first argument is \<open>sp[1]\<close>, the second \<open>sp[0]\<close>.\<close>

definition branch_cond :: "qvm_op \<Rightarrow> (u32 \<Rightarrow> u32 \<Rightarrow> bool) option" where
  "branch_cond op = (case op of
       OP_EQ \<Rightarrow> Some (\<lambda>a b. a = b)
     | OP_NE \<Rightarrow> Some (\<lambda>a b. a \<noteq> b)
     | OP_LTI \<Rightarrow> Some (\<lambda>a b. sint a < sint b)
     | OP_LEI \<Rightarrow> Some (\<lambda>a b. sint a \<le> sint b)
     | OP_GTI \<Rightarrow> Some (\<lambda>a b. sint a > sint b)
     | OP_GEI \<Rightarrow> Some (\<lambda>a b. sint a \<ge> sint b)
     | OP_LTU \<Rightarrow> Some (\<lambda>a b. a < b)
     | OP_LEU \<Rightarrow> Some (\<lambda>a b. a \<le> b)
     | OP_GTU \<Rightarrow> Some (\<lambda>a b. a > b)
     | OP_GEU \<Rightarrow> Some (\<lambda>a b. a \<ge> b)
     | OP_EQF \<Rightarrow> Some f_eq
     | OP_NEF \<Rightarrow> Some (\<lambda>a b. \<not> f_eq a b)
     | OP_LTF \<Rightarrow> Some f_lt
     | OP_LEF \<Rightarrow> Some f_le
     | OP_GTF \<Rightarrow> Some (\<lambda>a b. f_lt b a)
     | OP_GEF \<Rightarrow> Some (\<lambda>a b. f_le b a)
     | _ \<Rightarrow> None)"

text \<open>
  The operations that replace \<open>sp[1]\<close> by a value of \<open>sp[1]\<close> and \<open>sp[0]\<close>.  A division by
  zero, the one signed division that overflows, and shifts by 32 and more have no value.
\<close>

definition div_ok :: "u32 \<Rightarrow> u32 \<Rightarrow> bool" where
  "div_ok a b \<longleftrightarrow> b \<noteq> 0 \<and> \<not> (a = 0x80000000 \<and> b = - 1)"

definition when_ok :: "bool \<Rightarrow> u32 \<Rightarrow> u32 res" where
  "when_ok b v = (if b then Inr v else Inl Undefined)"

definition binary_fun :: "qvmenv \<Rightarrow> qvm_op \<Rightarrow> (u32 \<Rightarrow> u32 \<Rightarrow> u32 res) option" where
  "binary_fun env op = (case op of
       OP_ADD \<Rightarrow> Some (\<lambda>a b. Inr (a + b))
     | OP_SUB \<Rightarrow> Some (\<lambda>a b. Inr (a - b))
     | OP_DIVI \<Rightarrow> Some (\<lambda>a b. when_ok (div_ok a b) (word_of_int (sint a sdiv sint b)))
     | OP_DIVU \<Rightarrow> Some (\<lambda>a b. when_ok (b \<noteq> 0) (a div b))
     | OP_MODI \<Rightarrow> Some (\<lambda>a b. when_ok (div_ok a b) (word_of_int (sint a smod sint b)))
     | OP_MODU \<Rightarrow> Some (\<lambda>a b. when_ok (b \<noteq> 0) (a mod b))
     | OP_MULI \<Rightarrow> Some (\<lambda>a b. Inr (a * b))
     | OP_MULU \<Rightarrow> Some (\<lambda>a b. Inr (a * b))
     | OP_BAND \<Rightarrow> Some (\<lambda>a b. Inr (a AND b))
     | OP_BOR \<Rightarrow> Some (\<lambda>a b. Inr (a OR b))
     | OP_BXOR \<Rightarrow> Some (\<lambda>a b. Inr (a XOR b))
     | OP_LSH \<Rightarrow> Some (\<lambda>a b. when_ok (b < 32) (push_bit (unat b) a))
     | OP_RSHI \<Rightarrow> Some (\<lambda>a b. when_ok (b < 32) (signed_drop_bit (unat b) a))
     | OP_RSHU \<Rightarrow> Some (\<lambda>a b. when_ok (b < 32) (drop_bit (unat b) a))
     | OP_ADDF \<Rightarrow> Some (\<lambda>a b. Inr (f_add env a b))
     | OP_SUBF \<Rightarrow> Some (\<lambda>a b. Inr (f_sub env a b))
     | OP_DIVF \<Rightarrow> Some (\<lambda>a b. Inr (f_div env a b))
     | OP_MULF \<Rightarrow> Some (\<lambda>a b. Inr (f_mul env a b))
     | _ \<Rightarrow> None)"

text \<open>The operations that replace \<open>sp[0]\<close>.\<close>

definition unary_fun :: "qvmenv \<Rightarrow> qvm_op \<Rightarrow> (u32 \<Rightarrow> u32) option" where
  "unary_fun env op = (case op of
       OP_SEX8 \<Rightarrow> Some (\<lambda>a. if a AND 0x80 \<noteq> 0 then a OR 0xffffff00 else a)
     | OP_SEX16 \<Rightarrow> Some (\<lambda>a. if a AND 0x8000 \<noteq> 0 then a OR 0xffff0000 else a)
     | OP_NEGI \<Rightarrow> Some (\<lambda>a. - a)
     | OP_BCOM \<Rightarrow> Some (\<lambda>a. NOT a)
     | OP_NEGF \<Rightarrow> Some (\<lambda>a. a XOR 0x80000000)
     | OP_CVIF \<Rightarrow> Some (f_of_int env)
     | OP_CVFI \<Rightarrow> Some (f_to_int env)
     | _ \<Rightarrow> None)"

definition qvm_branch :: "(u32 \<Rightarrow> u32 \<Rightarrow> bool) \<Rightarrow> u32 \<Rightarrow> qvm \<Rightarrow> qvm res" where
  "qvm_branch c param q =
     rbind (read_word q (sp q + 4)) (\<lambda>a. rbind (read_word q (sp q)) (\<lambda>b.
     rbind (if c a b then QVM_Goto param q else Inr q) (qvm_pop 2)))"

definition qvm_binary :: "(u32 \<Rightarrow> u32 \<Rightarrow> u32 res) \<Rightarrow> qvm \<Rightarrow> qvm res" where
  "qvm_binary f q =
     rbind (read_word q (sp q + 4)) (\<lambda>a. rbind (read_word q (sp q)) (\<lambda>b.
     rbind (f a b) (\<lambda>v. rbind (write_word q (sp q + 4) v) (qvm_pop 1))))"

definition qvm_unary :: "(u32 \<Rightarrow> u32) \<Rightarrow> qvm \<Rightarrow> qvm res" where
  "qvm_unary f q = rbind (read_word q (sp q)) (\<lambda>a. write_word q (sp q) (f a))"

text \<open>Memory access: the mask confines the first byte of an access to the data segment.\<close>

definition masked :: "qvm \<Rightarrow> u32 \<Rightarrow> int" where
  "masked q a = uint (a AND ds_mask q)"

text \<open>The value of one, two or four bytes, little-endian.\<close>

definition le_value :: "u8 list \<Rightarrow> u32" where
  "le_value bs = of_le32_list (bs @ replicate (4 - length bs) 0)"

definition qvm_load :: "nat \<Rightarrow> qvm \<Rightarrow> qvm res" where
  "qvm_load n q =
     rbind (read_word q (sp q)) (\<lambda>a. rbind (read_ds q (masked q a) (int n)) (\<lambda>bs.
     write_word q (sp q) (le_value bs)))"

definition qvm_store :: "nat \<Rightarrow> qvm \<Rightarrow> qvm res" where
  "qvm_store n q =
     rbind (read_word q (sp q + 4)) (\<lambda>a. rbind (read_word q (sp q)) (\<lambda>v.
     rbind (write_ds q (masked q a) (take n (le32 v))) (qvm_pop 2)))"

definition qvm_arg :: "u32 \<Rightarrow> qvm \<Rightarrow> qvm res" where
  "qvm_arg param q =
     rbind (read_word q (sp q)) (\<lambda>v. rbind (write_word q (masked q (param + bp q)) v) (qvm_pop 1))"

definition qvm_block_copy :: "u32 \<Rightarrow> qvm \<Rightarrow> qvm res" where
  "qvm_block_copy param q =
     rbind (read_word q (sp q + 4)) (\<lambda>dst. rbind (read_word q (sp q)) (\<lambda>src.
     rbind (if dst + param < ds_mask q \<and> src + param < ds_mask q
            then rbind (read_ds q (masked q src) (uint param)) (write_ds q (masked q dst))
            else Inr q) (qvm_pop 2)))"

text \<open>One operation; \<open>False\<close> says that the outermost function returned.\<close>

definition go_on :: "qvm res \<Rightarrow> (bool \<times> qvm) res" where
  "go_on r = rbind r (\<lambda>q. Inr (True, q))"

definition qvm_exec_op :: "qvmenv \<Rightarrow> qvm_op \<Rightarrow> u32 \<Rightarrow> qvm \<Rightarrow> (bool \<times> qvm) res" where
  "qvm_exec_op env op param q = (case op of
       OP_UNDEF \<Rightarrow> Inr (True, q)
     | OP_NOP \<Rightarrow> Inr (True, q)
     | OP_BREAK \<Rightarrow> Inl (Sys_Error ''VM hit an OP_BREAK opcode'')
     | OP_ENTER \<Rightarrow> go_on (QVM_Enter param q)
     | OP_LEAVE \<Rightarrow> QVM_Return param q
     | OP_CALL \<Rightarrow>  go_on (rbind (read_word q (sp q)) (\<lambda>a. rbind (qvm_pop 1 q) (QVM_Call env a)))
     | OP_PUSH \<Rightarrow> go_on (qvm_push_same q)
     | OP_POP \<Rightarrow> go_on (qvm_pop 1 q)
     | OP_CONST \<Rightarrow> go_on (qvm_push param q)
     | OP_LOCAL \<Rightarrow> go_on (qvm_push (param + bp q) q)
     | OP_JUMP \<Rightarrow>  go_on (rbind (read_word q (sp q)) (\<lambda>a. rbind (qvm_pop 1 q) (QVM_Goto a)))
     | OP_LOAD1 \<Rightarrow> go_on (qvm_load 1 q)
     | OP_LOAD2 \<Rightarrow> go_on (qvm_load 2 q)
     | OP_LOAD4 \<Rightarrow> go_on (qvm_load 4 q)
     | OP_STORE1 \<Rightarrow> go_on (qvm_store 1 q)
     | OP_STORE2 \<Rightarrow> go_on (qvm_store 2 q)
     | OP_STORE4 \<Rightarrow> go_on (qvm_store 4 q)
     | OP_ARG \<Rightarrow> go_on (qvm_arg param q)
     | OP_BLOCK_COPY \<Rightarrow> go_on (qvm_block_copy param q)
     | _ \<Rightarrow> go_on (case branch_cond op of Some c \<Rightarrow> qvm_branch c param q | None \<Rightarrow> (case binary_fun env op of Some f \<Rightarrow> qvm_binary f q | None \<Rightarrow> (case unary_fun env op of Some f \<Rightarrow> qvm_unary f q | None \<Rightarrow> Inr q))))"

section \<open>Execution\<close>

text \<open>Fetching the two words of an instruction.\<close>

definition read_code :: "qvm \<Rightarrow> int \<Rightarrow> u32 res" where
  "read_code q i = rbind (slice (mem_ptr q) (4 * i) 4) (\<lambda>bs. Inr (of_le32_list bs))"

definition qvm_step :: "qvmenv \<Rightarrow> qvm \<Rightarrow> (bool \<times> qvm) res" where
  "qvm_step env q =
     rbind (read_code q (pc q)) (\<lambda>op. rbind (read_code q (pc q + 1)) (\<lambda>param.
     qvm_exec_op env (op_of op) param (q\<lparr>pc := pc q + 2\<rparr>)))"

text \<open>The interpreter loop, which the program alone decides to leave, with fuel.\<close>

fun qvm_run :: "nat \<Rightarrow> qvmenv \<Rightarrow> qvm \<Rightarrow> qvm res" where
  "qvm_run 0 env q = Inl OutOfFuel"
| "qvm_run (Suc k) env q =
     rbind (qvm_step env q) (\<lambda>(continues, q). if continues then qvm_run k env q else Inr q)"

text \<open>\<open>QVM_ExecVM\<close>: \<open>args\<close> are the command and its eight arguments.\<close>

definition qvm_frame :: "u32 list \<Rightarrow> u8 list" where
  "qvm_frame args = concat (map le32 ([0, 0] @ args @ [0, 0, 0, 0]))"

definition QVM_ExecVM :: "nat \<Rightarrow> qvmenv \<Rightarrow> qvm \<Rightarrow> u32 list \<Rightarrow> (u32 \<times> qvm) res" where
  "QVM_ExecVM fuel env q args =
     (let oldpc = pc q; q = q\<lparr>pc := - 1, bp := bp q - 60\<rparr> in
      rbind (write_ds q (uint (bp q)) (qvm_frame args)) (\<lambda>q.
      rbind (QVM_Call env 0 q) (\<lambda>q.
      rbind (qvm_run fuel env q) (\<lambda>q.
      rbind (read_word q (sp q)) (\<lambda>v.
      rbind (qvm_pop 1 (q\<lparr>pc := oldpc, bp := bp q + 60\<rparr>)) (\<lambda>q.
      Inr (v, q)))))))"

section \<open>Loading\<close>

definition VM_MAGIC :: u32 where "VM_MAGIC = 0x12721444"
definition VM_MAGIC2 :: u32 where "VM_MAGIC2 = 0x12721445"

record vmHeader =
  vmMagic :: u32
  instructionCount :: u32
  codeOffset :: u32
  codeLength :: u32
  dataOffset :: u32
  dataLength :: u32
  litLength :: u32
  bssLength :: u32

definition header_word :: "u8 list \<Rightarrow> nat \<Rightarrow> u32 res" where
  "header_word raw k = rbind (slice raw (4 * int k) 4) (\<lambda>bs. Inr (of_le32_list bs))"

text \<open>A header of the second version has one more word, which is read and not used.\<close>

definition read_vmHeader :: "u8 list \<Rightarrow> vmHeader res" where
  "read_vmHeader raw =
     rbind (header_word raw 0) (\<lambda>m. rbind (header_word raw 1) (\<lambda>ic. rbind (header_word raw 2) (\<lambda>co.
     rbind (header_word raw 3) (\<lambda>cl. rbind (header_word raw 4) (\<lambda>dof. rbind (header_word raw 5) (\<lambda>dl.
     rbind (header_word raw 6) (\<lambda>ll. rbind (header_word raw 7) (\<lambda>bl.
     rbind (if m = VM_MAGIC2 then header_word raw 8 else Inr 0) (\<lambda>_.
     Inr \<lparr>vmMagic = m, instructionCount = ic, codeOffset = co, codeLength = cl, dataOffset = dof,
       dataLength = dl, litLength = ll, bssLength = bl\<rparr>)))))))))"

definition header_ok :: "vmHeader \<Rightarrow> bool" where
  "header_ok h \<longleftrightarrow> (vmMagic h = VM_MAGIC \<or> vmMagic h = VM_MAGIC2) \<and> 0 < sint (instructionCount h)
     \<and> 0 < sint (codeLength h)"

text \<open>The operations with a 32-bit operand.\<close>

definition has_b32 :: "qvm_op \<Rightarrow> bool" where
  "has_b32 op \<longleftrightarrow> op \<in> {OP_ENTER, OP_LEAVE, OP_CONST, OP_LOCAL, OP_EQ, OP_NE, OP_LTI, OP_LEI, OP_GTI, OP_GEI,
     OP_LTU, OP_LEU, OP_GTU, OP_GEU, OP_EQF, OP_NEF, OP_LTF, OP_LEF, OP_GTF, OP_GEF, OP_BLOCK_COPY}"

text \<open>The operand of the operation \<open>op\<close> at \<open>src\<close> and the bytes it takes.\<close>

definition operand :: "u8 list \<Rightarrow> u8 \<Rightarrow> int \<Rightarrow> (u32 \<times> int) res" where
  "operand raw op src =
     (if has_b32 (op_of (ucast op)) then rbind (slice raw src 4) (\<lambda>bs. Inr (of_le32_list bs, 4))
      else if op_of (ucast op) = OP_ARG then rbind (peek raw src) (\<lambda>b. Inr (ucast b, 1))
      else Inr (0, 0))"

fun load_code :: "nat \<Rightarrow> u8 list \<Rightarrow> int \<Rightarrow> int \<Rightarrow> u8 list \<Rightarrow> u8 list res" where
  "load_code 0 raw src dst m = poke m dst (le32 2 @ le32 0)"
| "load_code (Suc n) raw src dst m =
     rbind (peek raw src) (\<lambda>op. rbind (operand raw op (src + 1)) (\<lambda>(v, k).
     rbind (poke m dst (le32 (ucast op) @ le32 v)) (load_code n raw (src + 1 + k) (dst + 8))))"

definition copy_in :: "u8 list \<Rightarrow> int \<Rightarrow> int \<Rightarrow> u8 list \<Rightarrow> int \<Rightarrow> u8 list res" where
  "copy_in raw src n m dst = (if n = 0 then Inr m else rbind (slice raw src n) (poke m dst))"

text \<open>The initialised data and, behind it, the literals.\<close>

definition load_data :: "vmHeader \<Rightarrow> u8 list \<Rightarrow> int \<Rightarrow> u8 list \<Rightarrow> u8 list res" where
  "load_data h raw base m =
     (let n = 4 * max 0 (sint (dataLength h) sdiv 4); src = sint (dataOffset h) in
      rbind (copy_in raw src n m base) (\<lambda>m. copy_in raw (src + n) (sint (litLength h)) m (base + n)))"

text \<open>The exponent of the smallest power of two that is big enough, 31 at most.\<close>

function mask_shift :: "nat \<Rightarrow> u32 \<Rightarrow> nat" where
  "mask_shift i m = (if i < 31 \<and> push_bit i 1 < m then mask_shift (i + 1) m else i)"
  by pat_completeness auto
termination by (relation "measure (\<lambda>(i, m). 31 - i)") auto

declare mask_shift.simps [simp del]

text \<open>The empty machine for a header: the sizes of the segments and the registers.\<close>

definition qvm_layout :: "vmHeader \<Rightarrow> qvm" where
  "qvm_layout h =
     (let cs = instructionCount h + 1; ds = dataLength h + litLength h + bssLength h;
          i = mask_shift 0 (ds + (256 * 1024 + 16 * 4));
          ss = push_bit i 1 - ds - 4;
          mask = ds + (ss + 4);
          ss = ss - (ss AND 7);
          size = cs * 8 + mask
      in \<lparr>mem_ptr = replicate (unat size) 0, pc = 0, sp = uint ds + uint ss, bp = ds + ss div 2,
          min_sp = uint ds + uint (ss div 2), max_sp = uint ds + uint ss,
          min_bp = ds, max_bp = ds + ss div 2,
          len_cs = cs, len_ds = ds, len_ss = ss, ds_mask = mask - 1\<rparr>)"

text \<open>\<open>QVM_LoadVM\<close> on the contents of the file, if there is one; \<open>None\<close>: there is no machine.\<close>

definition QVM_LoadVM :: "u8 list option \<Rightarrow> qvm option res" where
  "QVM_LoadVM file =
     (case file of None \<Rightarrow> Inr None | Some raw \<Rightarrow>
        rbind (read_vmHeader raw) (\<lambda>h.
        if \<not> header_ok h then Inr None
        else
          let q = qvm_layout h in
          rbind (load_code (nat (sint (instructionCount h))) raw (sint (codeOffset h)) 0 (mem_ptr q)) (\<lambda>m.
          rbind (load_data h raw (ds_base q) m) (\<lambda>m.
          Inr (Some (q\<lparr>mem_ptr := m\<rparr>))))))"

section \<open>The interface\<close>

text \<open>
  \<open>vm_t\<close>: what a module is.  Native code is an argument, as a function of the command and
  its arguments.
\<close>

datatype vm_type = VM_NONE | VM_NATIVE | VM_BYTECODE | VM_BUILTIN

record vm =
  vm_kind :: vm_type
  vm_qvm :: "qvm option"

definition VM_MemoryMask :: "vm \<Rightarrow> u64 res" where
  "VM_MemoryMask vm = (case vm_kind vm of
       VM_BYTECODE \<Rightarrow> (case vm_qvm vm of None \<Rightarrow> Inl NullDeref | Some q \<Rightarrow> Inr (ucast (ds_mask q)))
     | _ \<Rightarrow> Inr (- 1))"

definition VM_NonNative :: "vm \<Rightarrow> bool" where
  "VM_NonNative vm = (case vm_kind vm of VM_BYTECODE \<Rightarrow> True | _ \<Rightarrow> False)"

text \<open>
  Making a module: native code first, where the caller allows it and the command line does
  not forbid it (\<open>dll\<close> says whether one was loaded), bytecode otherwise.
\<close>

definition VM_Create :: "bool \<Rightarrow> bool \<Rightarrow> bool \<Rightarrow> bool \<Rightarrow> u8 list option \<Rightarrow> vm option res" where
  "VM_Create syscalldll nodlls dll syscallqvm file =
     (if syscalldll \<and> \<not> nodlls \<and> dll then Inr (Some \<lparr>vm_kind = VM_NATIVE, vm_qvm = None\<rparr>)
      else if syscallqvm then rbind (QVM_LoadVM file) (\<lambda>q. Inr (case q of None \<Rightarrow> None
          | Some q \<Rightarrow> Some \<lparr>vm_kind = VM_BYTECODE, vm_qvm = Some q\<rparr>))
      else Inr None)"

text \<open>
  \<open>VM_Call\<close> with eight arguments, cut to 32 bits for bytecode; the effect of native and
  built-in code on the engine is that code's own.
\<close>

definition VM_Call :: "nat \<Rightarrow> qvmenv \<Rightarrow> (u64 \<Rightarrow> u64 list \<Rightarrow> u64) \<Rightarrow> vm \<Rightarrow> u64 \<Rightarrow> u64 list \<Rightarrow> (u64 \<times> vm) res" where
  "VM_Call fuel env native vm cmd args = (case vm_kind vm of
       VM_NATIVE \<Rightarrow> Inr (native cmd args, vm)
     | VM_BUILTIN \<Rightarrow> Inr (native cmd args, vm)
     | VM_NONE \<Rightarrow> Inr (0, vm)
     | VM_BYTECODE \<Rightarrow> (case vm_qvm vm of None \<Rightarrow> Inl NullDeref
         | Some q \<Rightarrow> rbind (QVM_ExecVM fuel env q (ucast cmd # map (\<lambda>a. ucast (a AND 0xffffffff)) args)) (\<lambda>(v, q).
             Inr (scast v, vm\<lparr>vm_qvm := Some q\<rparr>))))"

end
