(* ===== verification/QvmSafe.thy ===== *)
theory QvmSafe
  imports Qvm
begin

text \<open>
  How far the bytecode machine confines its program: an invariant of the machine, the
  conditions under which an instruction stays inside the machine's memory, and the
  instructions that leave it when they do not hold.
\<close>

section \<open>Results that do not leave memory\<close>

definition safe :: "('a \<Rightarrow> bool) \<Rightarrow> 'a res \<Rightarrow> bool" where
  "safe P r = (case r of Inl f \<Rightarrow> f \<noteq> OutOfBounds \<and> f \<noteq> NullDeref | Inr x \<Rightarrow> P x)"

named_theorems safe_intros \<open>introduction rules for results that stay in memory\<close>

lemma safe_Inr [safe_intros]: "P x \<Longrightarrow> safe P (Inr x)"
  by (simp add: safe_def)

lemma safe_Sys_Error [safe_intros, simp]: "safe P (Inl (Sys_Error s))"
  by (simp add: safe_def)

lemma safe_Undefined [safe_intros, simp]: "safe P (Inl Undefined)"
  by (simp add: safe_def)

lemma safe_bind: "safe P m \<Longrightarrow> (\<And>x. P x \<Longrightarrow> safe Q (f x)) \<Longrightarrow> safe Q (rbind m f)"
  by (cases m) (simp_all add: safe_def)

lemma safe_if [safe_intros]: "(b \<Longrightarrow> safe P x) \<Longrightarrow> (\<not> b \<Longrightarrow> safe P y) \<Longrightarrow> safe P (if b then x else y)"
  by simp

lemma safe_mono: "safe P r \<Longrightarrow> (\<And>x. P x \<Longrightarrow> Q x) \<Longrightarrow> safe Q r"
  by (cases r) (simp_all add: safe_def)

section \<open>The invariant\<close>

definition ds_size :: "qvm \<Rightarrow> int" where
  "ds_size q = uint (ds_mask q) + 1"

text \<open>
  The block holds code and data; above the stack is one word, and the frame that the
  base pointer may address at most is inside.
\<close>

definition layout_ok :: "qvm \<Rightarrow> bool" where
  "layout_ok q \<longleftrightarrow> int (length (mem_ptr q)) = ds_base q + ds_size q
     \<and> 0 \<le> min_sp q \<and> min_sp q \<le> max_sp q \<and> max_sp q + 8 \<le> ds_size q \<and> uint (max_bp q) + 8 \<le> ds_size q"

definition qvm_ok :: "qvm \<Rightarrow> bool" where
  "qvm_ok q \<longleftrightarrow> layout_ok q \<and> min_sp q \<le> sp q \<and> sp q \<le> max_sp q \<and> bp q \<le> max_bp q"

text \<open>What no operation changes: the sizes, and the code.\<close>

definition same_layout :: "qvm \<Rightarrow> qvm \<Rightarrow> bool" where
  "same_layout q q' \<longleftrightarrow> length (mem_ptr q') = length (mem_ptr q) \<and> min_sp q' = min_sp q \<and> max_sp q' = max_sp q
     \<and> min_bp q' = min_bp q \<and> max_bp q' = max_bp q \<and> len_cs q' = len_cs q \<and> len_ds q' = len_ds q
     \<and> len_ss q' = len_ss q \<and> ds_mask q' = ds_mask q
     \<and> take (nat (ds_base q)) (mem_ptr q') = take (nat (ds_base q)) (mem_ptr q)"

text \<open>Additionally the same registers: only memory was written.\<close>

definition same_regs :: "qvm \<Rightarrow> qvm \<Rightarrow> bool" where
  "same_regs q q' \<longleftrightarrow> same_layout q q' \<and> pc q' = pc q \<and> sp q' = sp q \<and> bp q' = bp q"

lemmas same_defs = same_layout_def same_regs_def

lemma same_layout_ok: "same_layout q q' \<Longrightarrow> layout_ok q' = layout_ok q"
  by (simp add: layout_ok_def same_layout_def ds_base_def ds_size_def)

lemma same_regs_ok: "same_regs q q' \<Longrightarrow> qvm_ok q' = qvm_ok q"
  using same_layout_ok [of q q'] by (simp add: qvm_ok_def same_regs_def) (simp add: same_layout_def)

lemma same_regs_refl [simp]: "same_regs q q" "same_layout q q"
  by (simp_all add: same_defs)

section \<open>Memory access\<close>

definition in_ds :: "qvm \<Rightarrow> int \<Rightarrow> int \<Rightarrow> bool" where
  "in_ds q a n \<longleftrightarrow> 0 \<le> a \<and> 0 \<le> n \<and> a + n \<le> ds_size q"

lemma slice_length: "slice m i n = Inr bs \<Longrightarrow> int (length bs) = n"
  by (auto simp: slice_def min_def split: if_splits)

lemma read_ds_safe:
  assumes "layout_ok q" "in_ds q a n"
  shows "safe (\<lambda>bs. int (length bs) = n) (read_ds q a n)"
proof -
  have "0 \<le> ds_base q + a \<and> 0 \<le> n \<and> ds_base q + a + n \<le> int (length (mem_ptr q))"
    using assms by (simp add: layout_ok_def in_ds_def ds_base_def)
  then obtain bs where "slice (mem_ptr q) (ds_base q + a) n = Inr bs" by (simp add: slice_def)
  then show ?thesis by (simp add: read_ds_def safe_def slice_length)
qed

lemma write_ds_safe:
  assumes "layout_ok q" "in_ds q a (int (length bs))"
  shows "safe (same_regs q) (write_ds q a bs)"
proof -
  have "0 \<le> ds_base q + a \<and> ds_base q + a + int (length bs) \<le> int (length (mem_ptr q))"
    using assms by (simp add: layout_ok_def in_ds_def ds_base_def)
  then obtain m where m: "poke (mem_ptr q) (ds_base q + a) bs = Inr m" by (simp add: poke_def)
  have "nat (ds_base q) \<le> nat (ds_base q + a)" using assms(2) by (intro nat_mono) (simp add: in_ds_def)
  then have "take (nat (ds_base q)) x = take (nat (ds_base q)) (take (nat (ds_base q + a)) x)" for x :: "u8 list"
    by (simp add: min_absorb1)
  then have "take (nat (ds_base q)) m = take (nat (ds_base q)) (mem_ptr q)" by (metis poke_take m)
  then show ?thesis using m by (simp add: write_ds_def safe_def same_defs poke_length [OF m])
qed

lemma read_word_safe: "layout_ok q \<Longrightarrow> in_ds q a 4 \<Longrightarrow> safe (\<lambda>v. True) (read_word q a)"
  unfolding read_word_def by (rule safe_bind [OF read_ds_safe]) (auto simp: safe_def)

lemma write_word_safe: "layout_ok q \<Longrightarrow> in_ds q a 4 \<Longrightarrow> safe (same_regs q) (write_word q a v)"
  unfolding write_word_def by (rule write_ds_safe) simp_all

text \<open>The two words a two-operand instruction looks at are always there.\<close>

lemma stack_in_ds:
  assumes "qvm_ok q"
  shows "in_ds q (sp q) 4" "in_ds q (sp q + 4) 4"
  using assms by (simp_all add: qvm_ok_def layout_ok_def in_ds_def)

lemma frame_in_ds:
  assumes "qvm_ok q"
  shows "in_ds q (uint (bp q)) 4" "in_ds q (uint (bp q) + 4) 4"
  using assms by (simp_all add: qvm_ok_def layout_ok_def in_ds_def word_le_def)

lemma qvm_ok_layout: "qvm_ok q \<Longrightarrow> layout_ok q"
  by (simp add: qvm_ok_def)

lemma top_safe: "qvm_ok q \<Longrightarrow> safe (\<lambda>v. True) (read_word q (sp q))"
  by (rule read_word_safe [OF qvm_ok_layout stack_in_ds(1)])

lemma second_safe: "qvm_ok q \<Longrightarrow> safe (\<lambda>v. True) (read_word q (sp q + 4))"
  by (rule read_word_safe [OF qvm_ok_layout stack_in_ds(2)])

section \<open>Operations keep the invariant\<close>

text \<open>The invariant and the layout of the machine the operation started on.\<close>

definition keeps :: "qvm \<Rightarrow> qvm \<Rightarrow> bool" where
  "keeps q q' \<longleftrightarrow> qvm_ok q' \<and> same_layout q q'"

lemma keeps_trans: "keeps q q1 \<Longrightarrow> keeps q1 q2 \<Longrightarrow> keeps q q2"
  by (simp add: keeps_def same_layout_def ds_base_def)

lemma keeps_regs: "qvm_ok q \<Longrightarrow> same_regs q q' \<Longrightarrow> keeps q q'"
  using same_regs_ok [of q q'] by (simp add: keeps_def) (simp add: same_regs_def)

lemma qvm_pop_safe: "qvm_ok q \<Longrightarrow> 0 \<le> n \<Longrightarrow> safe (keeps q) (qvm_pop n q)"
  by (auto simp: qvm_pop_def safe_def keeps_def qvm_ok_def layout_ok_def same_layout_def ds_base_def ds_size_def)

lemma pushed_ok:
  "qvm_ok q \<Longrightarrow> min_sp q \<le> sp q - 4 \<Longrightarrow> keeps q (q\<lparr>sp := sp q - 4\<rparr>)"
  by (simp add: keeps_def qvm_ok_def layout_ok_def same_layout_def ds_base_def ds_size_def)

lemma write_top_safe: "qvm_ok q \<Longrightarrow> safe (keeps q) (write_word q (sp q) v)"
  by (rule safe_mono [OF write_word_safe [OF qvm_ok_layout stack_in_ds(1)]]) (auto intro: keeps_regs)

lemma write_second_safe: "qvm_ok q \<Longrightarrow> safe (keeps q) (write_word q (sp q + 4) v)"
  by (rule safe_mono [OF write_word_safe [OF qvm_ok_layout stack_in_ds(2)]]) (auto intro: keeps_regs)

lemma keepsD: "keeps q q' \<Longrightarrow> qvm_ok q'"
  by (simp add: keeps_def)

lemma safe_keeps_trans: "keeps q q1 \<Longrightarrow> safe (keeps q1) r \<Longrightarrow> safe (keeps q) r"
  by (erule safe_mono) (rule keeps_trans)

lemma safe_keeps_bind:
  "safe (keeps q) m \<Longrightarrow> (\<And>q1. keeps q q1 \<Longrightarrow> qvm_ok q1 \<Longrightarrow> safe (keeps q1) (f q1)) \<Longrightarrow> safe (keeps q) (rbind m f)"
  by (erule safe_bind) (rule safe_keeps_trans, assumption, simp add: keepsD)

lemma qvm_push_safe:
  assumes "qvm_ok q"
  shows "safe (keeps q) (qvm_push v q)"
proof (cases "sp q - 4 < min_sp q")
  case False
  then have "keeps q (q\<lparr>sp := sp q - 4\<rparr>)" using assms by (intro pushed_ok) simp_all
  then have "safe (keeps q) (write_word (q\<lparr>sp := sp q - 4\<rparr>) (sp (q\<lparr>sp := sp q - 4\<rparr>)) v)"
    by (rule safe_keeps_trans) (rule write_top_safe, rule keepsD, fact)
  with False show ?thesis by (simp add: qvm_push_def)
qed (simp add: qvm_push_def)

lemma qvm_push_same_safe:
  assumes "qvm_ok q"
  shows "safe (keeps q) (qvm_push_same q)"
proof (cases "sp q - 4 < min_sp q")
  case False
  let ?q = "q\<lparr>sp := sp q - 4\<rparr>"
  have k: "keeps q ?q" using assms False by (intro pushed_ok) simp_all
  have "safe (keeps ?q) (rbind (read_word ?q (sp ?q)) (write_word ?q (sp ?q)))"
    by (rule safe_bind [OF top_safe [OF keepsD [OF k]]]) (rule write_top_safe [OF keepsD [OF k]])
  from safe_keeps_trans [OF k this] False show ?thesis by (simp add: qvm_push_same_def Let_def)
qed (simp add: qvm_push_same_def)

lemma qvm_unary_safe: "qvm_ok q \<Longrightarrow> safe (keeps q) (qvm_unary f q)"
  unfolding qvm_unary_def by (rule safe_bind [OF top_safe]) (simp_all add: write_top_safe)

lemma qvm_binary_safe:
  assumes "qvm_ok q" "\<And>a b. safe (\<lambda>v. True) (f a b)"
  shows "safe (keeps q) (qvm_binary f q)"
  unfolding qvm_binary_def
  by (rule safe_bind [OF second_safe [OF assms(1)]], rule safe_bind [OF top_safe [OF assms(1)]],
      rule safe_bind [OF assms(2)], rule safe_keeps_bind [OF write_second_safe [OF assms(1)]])
    (simp add: qvm_pop_safe)

lemma Goto_safe: "qvm_ok q \<Longrightarrow> safe (keeps q) (QVM_Goto addr q)"
  by (simp add: QVM_Goto_def safe_def keeps_def qvm_ok_def layout_ok_def same_layout_def ds_base_def ds_size_def)

lemma qvm_branch_safe:
  assumes "qvm_ok q"
  shows "safe (keeps q) (qvm_branch c param q)"
  unfolding qvm_branch_def
  by (rule safe_bind [OF second_safe [OF assms]], rule safe_bind [OF top_safe [OF assms]],
      rule safe_keeps_bind)
    (simp_all add: qvm_pop_safe safe_intros Goto_safe assms keeps_def)

lemma qvm_jump_safe:
  "qvm_ok q \<Longrightarrow> safe (keeps q) (rbind (read_word q (sp q)) (\<lambda>a. rbind (qvm_pop 1 q) (QVM_Goto a)))"
  by (rule safe_bind [OF top_safe], assumption, rule safe_keeps_bind [OF qvm_pop_safe]) (simp_all add: Goto_safe)

section \<open>Memory instructions\<close>

text \<open>The mask confines the first byte of an access; the others are the program's affair.\<close>

definition fits :: "qvm \<Rightarrow> u32 \<Rightarrow> int \<Rightarrow> bool" where
  "fits q a n \<longleftrightarrow> masked q a + n \<le> ds_size q"

lemma masked_bounds: "0 \<le> masked q a" "masked q a \<le> uint (ds_mask q)"
  by (simp_all add: masked_def unsigned_and_eq AND_upper2)

lemma fits_one [simp]: "fits q a 1"
  using masked_bounds [of q a] by (simp add: fits_def ds_size_def)

lemma fits_in_ds: "fits q a n \<Longrightarrow> 0 \<le> n \<Longrightarrow> in_ds q (masked q a) n"
  using masked_bounds [of q a] by (simp add: fits_def in_ds_def)

definition word_at :: "qvm \<Rightarrow> int \<Rightarrow> u32" where
  "word_at q a = (case read_word q a of Inr v \<Rightarrow> v | Inl f \<Rightarrow> 0)"

lemma read_word_at: "layout_ok q \<Longrightarrow> in_ds q a 4 \<Longrightarrow> read_word q a = Inr (word_at q a)"
  using read_word_safe [of q a] read_ds_safe [of q a 4]
  by (auto simp: word_at_def read_word_def safe_def read_ds_def slice_def layout_ok_def in_ds_def ds_base_def
      split: sum.splits if_splits)

lemma read_top: "qvm_ok q \<Longrightarrow> read_word q (sp q) = Inr (word_at q (sp q))"
  and read_second: "qvm_ok q \<Longrightarrow> read_word q (sp q + 4) = Inr (word_at q (sp q + 4))"
  by (simp_all add: read_word_at qvm_ok_layout stack_in_ds)

lemma qvm_load_safe:
  assumes "qvm_ok q" "fits q (word_at q (sp q)) (int n)"
  shows "safe (keeps q) (qvm_load n q)"
  unfolding qvm_load_def read_top [OF assms(1)] rbind_Inr
  by (rule safe_bind [OF read_ds_safe [OF qvm_ok_layout [OF assms(1)] fits_in_ds [OF assms(2)]]])
    (simp_all add: write_top_safe assms(1))

lemma write_ds_keeps:
  "qvm_ok q \<Longrightarrow> in_ds q a (int (length bs)) \<Longrightarrow> safe (keeps q) (write_ds q a bs)"
  by (rule safe_mono [OF write_ds_safe [OF qvm_ok_layout]]) (auto intro: keeps_regs)

lemma qvm_store_safe:
  assumes "qvm_ok q" "fits q (word_at q (sp q + 4)) (int n)" "n \<le> 4"
  shows "safe (keeps q) (qvm_store n q)"
  unfolding qvm_store_def read_second [OF assms(1)] read_top [OF assms(1)] rbind_Inr
  by (rule safe_keeps_bind [OF write_ds_keeps [OF assms(1)]])
    (use assms in \<open>simp_all add: fits_in_ds qvm_pop_safe min_absorb2\<close>)

lemma qvm_arg_safe:
  assumes "qvm_ok q" "fits q (param + bp q) 4"
  shows "safe (keeps q) (qvm_arg param q)"
  unfolding qvm_arg_def read_top [OF assms(1)] rbind_Inr write_word_def
  by (rule safe_keeps_bind [OF write_ds_keeps [OF assms(1)]])
    (use assms in \<open>simp_all add: fits_in_ds qvm_pop_safe\<close>)

definition copy_fits :: "u32 \<Rightarrow> qvm \<Rightarrow> bool" where
  "copy_fits param q \<longleftrightarrow> (let dst = word_at q (sp q + 4); src = word_at q (sp q) in
     dst + param < ds_mask q \<longrightarrow> src + param < ds_mask q \<longrightarrow> fits q dst (uint param) \<and> fits q src (uint param))"

lemma qvm_block_copy_safe:
  assumes "qvm_ok q" "copy_fits param q"
  shows "safe (keeps q) (qvm_block_copy param q)"
proof -
  let ?dst = "word_at q (sp q + 4)" and ?src = "word_at q (sp q)"
  have "safe (keeps q) (if ?dst + param < ds_mask q \<and> ?src + param < ds_mask q
      then rbind (read_ds q (masked q ?src) (uint param)) (write_ds q (masked q ?dst)) else Inr q)"
  proof (rule safe_if)
    assume "?dst + param < ds_mask q \<and> ?src + param < ds_mask q"
    then have f: "fits q ?dst (uint param)" "fits q ?src (uint param)"
      using assms(2) by (simp_all add: copy_fits_def Let_def)
    show "safe (keeps q) (rbind (read_ds q (masked q ?src) (uint param)) (write_ds q (masked q ?dst)))"
      by (rule safe_bind [OF read_ds_safe [OF qvm_ok_layout [OF assms(1)] fits_in_ds [OF f(2)]]], simp)
        (rule write_ds_keeps [OF assms(1)], simp add: fits_in_ds [OF f(1)])
  qed (simp add: safe_Inr keeps_def assms(1))
  then show ?thesis
    unfolding qvm_block_copy_def read_second [OF assms(1)] read_top [OF assms(1)] rbind_Inr
    by (rule safe_keeps_bind) (simp add: qvm_pop_safe)
qed

section \<open>Calls\<close>

lemma QVM_Enter_safe:
  assumes ok: "qvm_ok q" and n: "n \<le> bp q"
  shows "safe (keeps q) (QVM_Enter n q)"
proof (cases "bp q - n < min_bp q")
  case False
  let ?q = "q\<lparr>bp := bp q - n\<rparr>"
  have le: "bp q - n \<le> bp q" using n by (simp add: word_sub_le)
  moreover have "bp q \<le> max_bp q" using ok by (simp add: qvm_ok_def)
  ultimately have "bp q - n \<le> max_bp q" by (rule order_trans)
  then have q: "qvm_ok ?q" using ok by (simp add: qvm_ok_def layout_ok_def ds_base_def ds_size_def)
  have k: "keeps q ?q" using q by (simp add: keeps_def same_layout_def)
  have "safe (keeps ?q) (rbind (write_word ?q (uint (bp ?q)) (word_of_int ((sp ?q - max_sp ?q) div 4))) (\<lambda>q.
        rbind (read_word q (sp q)) (\<lambda>ret.
        rbind (write_word (q\<lparr>sp := sp q + 4\<rparr>) (uint (bp q) + 4) ret) (\<lambda>q.
        if sp q > max_sp q then Inl (Sys_Error ''QVM Stack overflow'') else Inr q))))"
  proof (rule safe_bind [OF write_word_safe [OF qvm_ok_layout [OF q] frame_in_ds(1) [OF q]]])
    fix q1 assume r1: "same_regs ?q q1"
    have q1: "qvm_ok q1" using r1 q by (simp add: same_regs_ok)
    have l1: "layout_ok (q1\<lparr>sp := sp q1 + 4\<rparr>)" "in_ds (q1\<lparr>sp := sp q1 + 4\<rparr>) (uint (bp q1) + 4) 4"
      using q1 frame_in_ds(2) [OF q1] by (simp_all add: qvm_ok_def layout_ok_def ds_base_def ds_size_def in_ds_def)
    show "safe (keeps ?q) (rbind (read_word q1 (sp q1)) (\<lambda>ret.
        rbind (write_word (q1\<lparr>sp := sp q1 + 4\<rparr>) (uint (bp q1) + 4) ret) (\<lambda>q.
        if sp q > max_sp q then Inl (Sys_Error ''QVM Stack overflow'') else Inr q)))"
      unfolding read_top [OF q1] rbind_Inr
    proof (rule safe_bind [OF write_word_safe [OF l1]])
      fix q2 assume r2: "same_regs (q1\<lparr>sp := sp q1 + 4\<rparr>) q2"
      show "safe (keeps ?q) (if sp q2 > max_sp q2 then Inl (Sys_Error ''QVM Stack overflow'') else Inr q2)"
      proof (cases "sp q2 > max_sp q2")
        case False
        have "layout_ok q2" using r2 l1(1) same_layout_ok [of "q1\<lparr>sp := sp q1 + 4\<rparr>" q2] by (simp add: same_regs_def)
        then have "qvm_ok q2" using r2 q1 False by (auto simp: qvm_ok_def same_defs)
        moreover have "same_layout ?q q2" using r1 r2 by (simp add: same_defs ds_base_def)
        ultimately show ?thesis using False by (simp add: safe_def keeps_def)
      qed simp
    qed
  qed
  from safe_keeps_trans [OF k this] False show ?thesis by (simp add: QVM_Enter_def Let_def)
qed (simp add: QVM_Enter_def Let_def)

lemma QVM_Return_safe:
  assumes ok: "qvm_ok q"
  shows "safe (\<lambda>(b, q'). keeps q q') (QVM_Return n q)"
proof (cases "bp q + n > max_bp q")
  case False
  let ?q = "q\<lparr>bp := bp q + n\<rparr>"
  have l: "layout_ok ?q" "in_ds ?q (uint (bp q)) 4" "in_ds ?q (uint (bp q) + 4) 4"
    using ok frame_in_ds [OF ok] by (simp_all add: qvm_ok_def layout_ok_def ds_base_def ds_size_def in_ds_def)
  have q2: "keeps q (?q\<lparr>pc := x\<rparr>)" for x
    using ok False by (simp add: keeps_def qvm_ok_def layout_ok_def ds_base_def ds_size_def same_layout_def)
  then show ?thesis
    using False unfolding QVM_Return_def Let_def
    by (simp add: read_word_at [OF l(1,2)] read_word_at [OF l(1,3)] safe_def)
qed (simp add: QVM_Return_def Let_def)

text \<open>System calls return a data segment of the size they were given.\<close>

definition syscalls_ok :: "qvmenv \<Rightarrow> bool" where
  "syscalls_ok env \<longleftrightarrow> (\<forall>ds m f a. length (snd (syscall env ds m f a)) = length ds)"

lemma QVM_Call_safe:
  assumes ok: "qvm_ok q" and env: "syscalls_ok env"
  shows "safe (keeps q) (QVM_Call env addr q)"
proof (cases "sp q - 4 < min_sp q")
  case False
  let ?q = "q\<lparr>sp := sp q - 4\<rparr>"
  have k: "keeps q ?q" using ok False by (intro pushed_ok) simp_all
  note q = keepsD [OF k]
  show ?thesis
  proof (cases "sint addr < 0")
    case True
    obtain v ds where r: "syscall env (drop (nat (ds_base ?q)) (mem_ptr ?q)) (ds_mask ?q) (- addr - 1) (uint (bp ?q) + 8)
        = (v, ds)" by fastforce
    have "length ds = length (drop (nat (ds_base ?q)) (mem_ptr ?q))"
      using env r unfolding syscalls_ok_def by (metis snd_conv)
    moreover have "nat (ds_base ?q) \<le> length (mem_ptr ?q)"
      using q by (simp add: qvm_ok_def layout_ok_def ds_base_def ds_size_def nat_le_iff)
    ultimately have "length (take (nat (ds_base ?q)) (mem_ptr ?q) @ ds) = length (mem_ptr q)" by simp
    with \<open>nat (ds_base ?q) \<le> _\<close> have m: "keeps ?q (?q\<lparr>mem_ptr := take (nat (ds_base ?q)) (mem_ptr ?q) @ ds\<rparr>)"
      using q by (intro keeps_regs) (simp_all add: same_defs)
    have "safe (keeps ?q) (write_word (?q\<lparr>mem_ptr := take (nat (ds_base ?q)) (mem_ptr ?q) @ ds\<rparr>)
        (sp (?q\<lparr>mem_ptr := take (nat (ds_base ?q)) (mem_ptr ?q) @ ds\<rparr>)) v)"
      by (rule safe_keeps_trans [OF m write_top_safe [OF keepsD [OF m]]])
    from safe_keeps_trans [OF k this] show ?thesis
      using False True r by (simp add: QVM_Call_def Let_def)
  next
    case pos: False
    show ?thesis
    proof (cases "len_cs q \<le> addr")
      case False
      have "safe (keeps ?q) (rbind (write_word ?q (sp ?q) (word_of_int (pc ?q))) (\<lambda>q. Inr (q\<lparr>pc := sint addr * 2\<rparr>)))"
        by (rule safe_keeps_bind [OF write_top_safe [OF q]])
          (simp add: safe_def keeps_def qvm_ok_def layout_ok_def ds_base_def ds_size_def same_layout_def)
      from safe_keeps_trans [OF k this] show ?thesis
        using \<open>\<not> sp q - 4 < min_sp q\<close> pos False by (simp add: QVM_Call_def Let_def)
    qed (use \<open>\<not> sp q - 4 < min_sp q\<close> pos in \<open>simp add: QVM_Call_def Let_def\<close>)
  qed
qed (simp add: QVM_Call_def Let_def)

section \<open>One instruction\<close>

text \<open>
  What an instruction must satisfy to stay inside: a frame is not of negative size, and an
  access through the mask does not run over the end.
\<close>

definition tame_op :: "qvm_op \<Rightarrow> u32 \<Rightarrow> qvm \<Rightarrow> bool" where
  "tame_op op param q = (case op of
       OP_ENTER \<Rightarrow> param \<le> bp q
     | OP_LOAD2 \<Rightarrow> fits q (word_at q (sp q)) 2
     | OP_LOAD4 \<Rightarrow> fits q (word_at q (sp q)) 4
     | OP_STORE2 \<Rightarrow> fits q (word_at q (sp q + 4)) 2
     | OP_STORE4 \<Rightarrow> fits q (word_at q (sp q + 4)) 4
     | OP_ARG \<Rightarrow> fits q (param + bp q) 4
     | OP_BLOCK_COPY \<Rightarrow> copy_fits param q
     | _ \<Rightarrow> True)"

lemma binary_fun_safe: "binary_fun env op = Some f \<Longrightarrow> safe (\<lambda>v. True) (f a b)"
  by (cases op) (auto simp: binary_fun_def when_ok_def safe_def)

definition keeps_on :: "qvm \<Rightarrow> bool \<times> qvm \<Rightarrow> bool" where
  "keeps_on q r \<longleftrightarrow> keeps q (snd r)"

lemma go_on_safe: "safe (keeps q) r \<Longrightarrow> safe (keeps_on q) (go_on r)"
  unfolding go_on_def by (erule safe_bind) (simp add: safe_def keeps_on_def)

lemma alu_safe:
  assumes "qvm_ok q"
  shows "safe (keeps q) (case branch_cond op of Some c \<Rightarrow> qvm_branch c param q
      | None \<Rightarrow> (case binary_fun env op of Some f \<Rightarrow> qvm_binary f q
      | None \<Rightarrow> (case unary_fun env op of Some f \<Rightarrow> qvm_unary f q
      | None \<Rightarrow> Inr q)))"
  using assms qvm_branch_safe qvm_binary_safe [OF assms binary_fun_safe] qvm_unary_safe
  by (auto split: option.split simp: safe_Inr keeps_def)

lemma qvm_call_safe:
  "qvm_ok q \<Longrightarrow> syscalls_ok env \<Longrightarrow>
   safe (keeps q) (rbind (read_word q (sp q)) (\<lambda>a. rbind (qvm_pop 1 q) (QVM_Call env a)))"
  by (rule safe_bind [OF top_safe], assumption, rule safe_keeps_bind [OF qvm_pop_safe]) (simp_all add: QVM_Call_safe)

lemma stay_safe: "qvm_ok q \<Longrightarrow> safe (keeps_on q) (Inr (b, q))"
  by (simp add: safe_def keeps_on_def keeps_def)

lemma return_safe: "qvm_ok q \<Longrightarrow> safe (keeps_on q) (QVM_Return n q)"
  by (rule safe_mono [OF QVM_Return_safe]) (auto simp: keeps_on_def)

lemma exec_op_safe:
  assumes ok: "qvm_ok q" and env: "syscalls_ok env" and tame: "tame_op op param q"
  shows "safe (keeps_on q) (qvm_exec_op env op param q)"
  using tame
  by (cases op) (simp_all only: qvm_exec_op_def tame_op_def qvm_op.case go_on_safe alu_safe QVM_Enter_safe
      qvm_call_safe qvm_push_same_safe qvm_pop_safe qvm_push_safe qvm_jump_safe qvm_load_safe qvm_store_safe
      qvm_arg_safe qvm_block_copy_safe safe_Sys_Error stay_safe return_safe ok env fits_one of_nat_1 of_nat_numeral
      order_refl zero_le_numeral zero_le_one one_le_numeral numeral_le_iff le_num_simps)

section \<open>Runs\<close>

text \<open>The next instruction is in the code segment and stays inside.\<close>

definition tame :: "qvm \<Rightarrow> bool" where
  "tame q \<longleftrightarrow> 0 \<le> pc q \<and> pc q < 2 * uint (len_cs q)
     \<and> (case read_code q (pc q) of Inl f \<Rightarrow> True | Inr op \<Rightarrow>
        (case read_code q (pc q + 1) of Inl f \<Rightarrow> True | Inr param \<Rightarrow>
           tame_op (op_of op) param (q\<lparr>pc := pc q + 2\<rparr>)))"

fun tame_run :: "nat \<Rightarrow> qvmenv \<Rightarrow> qvm \<Rightarrow> bool" where
  "tame_run 0 env q = True"
| "tame_run (Suc k) env q \<longleftrightarrow> tame q \<and> (case qvm_step env q of Inl f \<Rightarrow> True
     | Inr (continues, q') \<Rightarrow> (continues \<longrightarrow> tame_run k env q'))"

lemma read_code_safe:
  assumes "layout_ok q" "0 \<le> i" "i \<le> 2 * uint (len_cs q)"
  shows "safe (\<lambda>v. True) (read_code q i)"
proof -
  have "4 * i + 4 \<le> int (length (mem_ptr q))"
    using assms by (simp add: layout_ok_def ds_base_def)
  then show ?thesis using assms(2) by (simp add: read_code_def slice_def safe_def)
qed

lemma pc_keeps: "qvm_ok q \<Longrightarrow> keeps q (q\<lparr>pc := x\<rparr>)"
  by (simp add: keeps_def qvm_ok_def layout_ok_def same_layout_def ds_base_def ds_size_def)

lemma step_safe:
  assumes ok: "qvm_ok q" and env: "syscalls_ok env" and tame: "tame q"
  shows "safe (keeps_on q) (qvm_step env q)"
proof -
  have pc: "0 \<le> pc q" "pc q \<le> 2 * uint (len_cs q)" "0 \<le> pc q + 1" "pc q + 1 \<le> 2 * uint (len_cs q)"
    using tame by (simp_all add: tame_def)
  show ?thesis
    unfolding qvm_step_def
  proof (rule safe_bind)
    show "safe (\<lambda>op. read_code q (pc q) = Inr op) (read_code q (pc q))"
      using read_code_safe [OF qvm_ok_layout [OF ok] pc(1,2)] by (auto simp: safe_def split: sum.splits)
  next
    fix op assume op: "read_code q (pc q) = Inr op"
    show "safe (keeps_on q) (rbind (read_code q (pc q + 1)) (\<lambda>param.
        qvm_exec_op env (op_of op) param (q\<lparr>pc := pc q + 2\<rparr>)))"
    proof (rule safe_bind)
      show "safe (\<lambda>v. read_code q (pc q + 1) = Inr v) (read_code q (pc q + 1))"
        using read_code_safe [OF qvm_ok_layout [OF ok] pc(3,4)] by (auto simp: safe_def split: sum.splits)
    next
      fix v assume "read_code q (pc q + 1) = Inr v"
      then have "tame_op (op_of op) v (q\<lparr>pc := pc q + 2\<rparr>)" using op tame by (simp add: tame_def)
      then have "safe (keeps_on (q\<lparr>pc := pc q + 2\<rparr>)) (qvm_exec_op env (op_of op) v (q\<lparr>pc := pc q + 2\<rparr>))"
        using exec_op_safe [OF keepsD [OF pc_keeps [OF ok]] env] by blast
      then show "safe (keeps_on q) (qvm_exec_op env (op_of op) v (q\<lparr>pc := pc q + 2\<rparr>))"
        by (rule safe_mono) (auto simp: keeps_on_def intro: keeps_trans [OF pc_keeps [OF ok]])
    qed
  qed
qed

lemma run_safe: "qvm_ok q \<Longrightarrow> syscalls_ok env \<Longrightarrow> tame_run k env q \<Longrightarrow> safe (keeps q) (qvm_run k env q)"
proof (induction k arbitrary: q)
  case (Suc k)
  have step: "safe (keeps_on q) (qvm_step env q)" using Suc.prems by (simp add: step_safe)
  show ?case
  proof (cases "qvm_step env q")
    case (Inr r)
    obtain b q1 where r: "r = (b, q1)" by fastforce
    have k: "keeps q q1" using step Inr r by (simp add: safe_def keeps_on_def)
    have "b \<Longrightarrow> safe (keeps q1) (qvm_run k env q1)"
      using Suc.IH [OF keepsD [OF k] Suc.prems(2)] Suc.prems(3) Inr r by simp
    then show ?thesis using Inr r k by (cases b) (auto intro: safe_keeps_trans safe_Inr)
  qed (use step in \<open>simp add: safe_def\<close>)
qed (simp add: safe_def)

text \<open>
  C17.  The machine confines tame programs.  Start the interpreter on a machine in its
  invariant, with system calls that return the data segment they were given at its size, and
  let every instruction on the way be fetched from the code segment, open no frame of
  negative size and make no access that starts inside the mask and runs over its end.  Then the
  interpreter never reads or writes outside the machine's block, and if it returns, the
  invariant holds again, no size or limit has changed, and no instruction of the code
  segment has been overwritten.
\<close>

theorem qvm_sandbox:
  assumes "qvm_ok q" "syscalls_ok env" "tame_run k env q"
  shows "qvm_run k env q \<noteq> Inl OutOfBounds \<and> (\<forall>q'. qvm_run k env q = Inr q' \<longrightarrow> qvm_ok q'
    \<and> length (mem_ptr q') = length (mem_ptr q) \<and> ds_mask q' = ds_mask q \<and> len_cs q' = len_cs q
    \<and> take (nat (ds_base q)) (mem_ptr q') = take (nat (ds_base q)) (mem_ptr q))"
  using run_safe [OF assms] by (auto simp: safe_def keeps_def same_layout_def)

text \<open>A function that adds two numbers, called with the return address of the engine on the stack.\<close>

definition plain_qvmenv :: qvmenv where
  "plain_qvmenv = \<lparr>syscall = (\<lambda>ds m f a. (f, ds)), f_add = (\<lambda>a b. a), f_sub = (\<lambda>a b. a), f_div = (\<lambda>a b. a),
     f_mul = (\<lambda>a b. a), f_of_int = (\<lambda>a. a), f_to_int = (\<lambda>a. a)\<rparr>"

definition adding_machine :: qvm where
  "adding_machine = \<lparr>mem_ptr = concat (map le32 [3, 8, 8, 5, 8, 7, 38, 0, 4, 8, 2, 0])
       @ replicate 48 0 @ replicate 4 255 @ replicate 12 0,
     pc = 0, sp = 48, bp = 24, min_sp = 24, max_sp = 56, min_bp = 0, max_bp = 24,
     len_cs = 6, len_ds = 0, len_ss = 56, ds_mask = 63\<rparr>"

theorem qvm_sandbox_witness:
  "qvm_run 10 plain_qvmenv adding_machine \<noteq> Inl OutOfBounds
   \<and> (\<exists>q'. qvm_run 10 plain_qvmenv adding_machine = Inr q' \<and> qvm_ok q' \<and> word_at q' (sp q') = 12)"
proof -
  have ok: "qvm_ok adding_machine" by code_simp
  have env: "syscalls_ok plain_qvmenv" by (simp add: syscalls_ok_def plain_qvmenv_def)
  have run: "tame_run 10 plain_qvmenv adding_machine" by code_simp
  have "map_sum id (\<lambda>q'. word_at q' (sp q')) (qvm_run 10 plain_qvmenv adding_machine) = Inr 12" by code_simp
  then obtain q' where "qvm_run 10 plain_qvmenv adding_machine = Inr q'" "word_at q' (sp q') = 12"
    by (cases "qvm_run 10 plain_qvmenv adding_machine") auto
  then show ?thesis using qvm_sandbox [OF ok env run] by auto
qed

section \<open>Ways out\<close>

lemma write_outside:
  "layout_ok q \<Longrightarrow> 0 \<le> a \<Longrightarrow> ds_size q < a + int (length bs) \<Longrightarrow> write_ds q a bs = Inl OutOfBounds"
  by (simp add: write_ds_def poke_def layout_ok_def)

lemma enter_escapes:
  assumes "qvm_ok q" "min_bp q \<le> bp q - n" "ds_size q \<le> uint (bp q - n)"
  shows "QVM_Enter n q = Inl OutOfBounds"
proof -
  let ?q = "q\<lparr>bp := bp q - n\<rparr>"
  have "layout_ok ?q" using assms(1) by (simp add: qvm_ok_def layout_ok_def ds_base_def ds_size_def)
  then have "write_word ?q (uint (bp ?q)) v = Inl OutOfBounds" for v
    unfolding write_word_def using assms(3) by (intro write_outside) (simp_all add: ds_size_def)
  then show ?thesis using assms(2) by (simp add: QVM_Enter_def Let_def not_less)
qed

lemma store_escapes:
  assumes "qvm_ok q" "ds_size q < masked q (word_at q (sp q + 4)) + 4"
  shows "qvm_store 4 q = Inl OutOfBounds"
proof -
  have "write_ds q (masked q (word_at q (sp q + 4))) (take 4 (le32 v)) = Inl OutOfBounds" for v
    using assms masked_bounds by (intro write_outside) (simp_all add: qvm_ok_def)
  then show ?thesis by (simp add: qvm_store_def read_second [OF assms(1)] read_top [OF assms(1)])
qed

text \<open>
  C20.  The conditions of the sandbox are not checked by the machine.  From any machine in its
  invariant, \<open>OP_ENTER\<close> with an operand that, taken from the base pointer, wraps around to
  an address behind the block writes there: the check against the lower end of the stack
  lets it through.  And a store of four bytes whose masked address is one of the last three
  writes over the end of the block.
\<close>

theorem qvm_escapes:
  assumes "qvm_ok q"
  shows "(min_bp q \<le> bp q - n \<and> ds_size q \<le> uint (bp q - n) \<longrightarrow> QVM_Enter n q = Inl OutOfBounds)
    \<and> (ds_size q < masked q (word_at q (sp q + 4)) + 4 \<longrightarrow> qvm_store 4 q = Inl OutOfBounds)"
  using enter_escapes [OF assms] store_escapes [OF assms] by blast

theorem qvm_escapes_witness:
  "QVM_Enter 0xc0000000 adding_machine = Inl OutOfBounds
   \<and> qvm_store 4 (adding_machine\<lparr>sp := 44\<rparr>) = Inl OutOfBounds"
proof -
  have 1: "qvm_ok adding_machine" "min_bp adding_machine \<le> bp adding_machine - 0xc0000000"
      "ds_size adding_machine \<le> uint (bp adding_machine - 0xc0000000)" by code_simp+
  have 2: "qvm_ok (adding_machine\<lparr>sp := 44\<rparr>)" "ds_size (adding_machine\<lparr>sp := 44\<rparr>)
      < masked (adding_machine\<lparr>sp := 44\<rparr>) (word_at (adding_machine\<lparr>sp := 44\<rparr>) (sp (adding_machine\<lparr>sp := 44\<rparr>) + 4)) + 4"
    by code_simp+
  show ?thesis using qvm_escapes [OF 1(1), of "0xc0000000"] qvm_escapes [OF 2(1), of 0] 1 2 by blast
qed

text \<open>
   A jump to the end of the code runs data.  \<open>QVM_Goto\<close> lets a jump to the address
  \<open>len_cs\<close> through, one past the last instruction; the next instruction is then fetched from the first two
  words of the data segment, which the program can write.
\<close>

theorem qvm_goto_runs_data:
  assumes "qvm_ok q" "len_cs q < 0x80000000"
  shows "\<exists>q'. QVM_Goto (len_cs q) q = Inr q' \<and> mem_ptr q' = mem_ptr q
    \<and> qvm_step env q' = qvm_exec_op env (op_of (word_at q 0)) (word_at q 4) (q'\<lparr>pc := pc q' + 2\<rparr>)"
proof -
  let ?q = "q\<lparr>pc := uint (len_cs q * 2)\<rparr>"
  have "uint (len_cs q) < 2147483648" using assms(2) by (simp add: word_less_def)
  then have pc: "uint (len_cs q * 2) = 2 * uint (len_cs q)"
    by (simp add: uint_word_ariths)
  have code: "read_code ?q (2 * uint (len_cs q) + i) = read_word q (4 * i)" for i
    by (simp add: read_code_def read_word_def read_ds_def ds_base_def algebra_simps)
  have "read_word q (4 * 0) = Inr (word_at q 0)" "read_word q (4 * 1) = Inr (word_at q 4)"
    using assms(1) by (auto intro!: read_word_at simp: qvm_ok_def layout_ok_def in_ds_def)
  then show ?thesis
    using code [of 0] code [of 1] pc by (simp add: QVM_Goto_def qvm_step_def)
qed

theorem qvm_goto_runs_data_witness:
  "\<exists>q'. QVM_Goto 6 adding_machine = Inr q' \<and> mem_ptr q' = mem_ptr adding_machine
    \<and> qvm_step plain_qvmenv q' = Inr (True, q'\<lparr>pc := pc q' + 2\<rparr>)"
proof -
  have 1: "qvm_ok adding_machine" "len_cs adding_machine < 0x80000000" by code_simp+
  have 2: "op_of (word_at adding_machine 0) = OP_UNDEF" "len_cs adding_machine = 6" by code_simp+
  show ?thesis using qvm_goto_runs_data [OF 1, of plain_qvmenv] unfolding 2 by (simp add: qvm_exec_op_def)
qed

end
