(* ===== verification/QvmExpr.thy ===== *)
theory QvmExpr
  imports QvmSafe
begin

text \<open>
  The bytecode machine as an evaluator: the code a compiler makes of an expression over
  32-bit constants and local variables leaves the value of the expression on the stack.
\<close>

section \<open>What a piece of code leaves alone\<close>

text \<open>The data segment from \<open>lo\<close> to \<open>hi\<close> may have changed, nothing else has but \<open>pc\<close> and \<open>sp\<close>.\<close>

definition changes :: "int \<Rightarrow> int \<Rightarrow> qvm \<Rightarrow> qvm \<Rightarrow> bool" where
  "changes lo hi q q' \<longleftrightarrow> same_layout q q' \<and> bp q' = bp q
     \<and> (\<forall>a n. in_ds q a n \<and> (a + n \<le> lo \<or> hi \<le> a) \<longrightarrow> read_ds q' a n = read_ds q a n)"

lemma changes_refl: "changes lo hi q (q\<lparr>pc := i, sp := s\<rparr>)"
  by (simp add: changes_def same_layout_def read_ds_def ds_base_def)

lemma changes_pc: "changes lo hi q (q\<lparr>pc := i\<rparr>)"
  by (simp add: changes_def same_layout_def read_ds_def ds_base_def)

lemma changes_sp: "changes lo hi q (q\<lparr>sp := i\<rparr>)"
  by (simp add: changes_def same_layout_def read_ds_def ds_base_def)

lemma changes_trans:
  "changes lo hi q q1 \<Longrightarrow> changes lo hi q1 q2 \<Longrightarrow> changes lo hi q q2"
  by (simp add: changes_def same_layout_def in_ds_def ds_size_def ds_base_def)

lemma changes_mono:
  "changes lo hi q q' \<Longrightarrow> lo' \<le> lo \<Longrightarrow> hi \<le> hi' \<Longrightarrow> changes lo' hi' q q'"
  by (auto simp: changes_def)

lemma changes_read_word:
  "changes lo hi q q' \<Longrightarrow> in_ds q a 4 \<Longrightarrow> a + 4 \<le> lo \<or> hi \<le> a \<Longrightarrow> word_at q' a = word_at q a"
  by (auto simp: changes_def word_at_def read_word_def)

lemma changes_code:
  assumes "changes lo hi q q'" "0 \<le> i" "i < 2 * uint (len_cs q)" "layout_ok q"
  shows "read_code q' i = read_code q i"
proof -
  have t: "take (nat (ds_base q)) (mem_ptr q') = take (nat (ds_base q)) (mem_ptr q)"
      "length (mem_ptr q') = length (mem_ptr q)"
    using assms(1) by (simp_all add: changes_def same_layout_def)
  have le: "4 * nat i + 4 \<le> nat (ds_base q)" using assms(2,3) by (simp add: ds_base_def)
  have "take 4 (drop (4 * nat i) m) = take 4 (drop (4 * nat i) (take (nat (ds_base q)) m))" for m :: "u8 list"
    using le by (simp add: take_drop min_absorb1)
  then have "take 4 (drop (4 * nat i) (mem_ptr q')) = take 4 (drop (4 * nat i) (mem_ptr q))"
    using t(1) by metis
  then show ?thesis
    using t(2) assms(2) by (simp add: read_code_def slice_def nat_mult_distrib)
qed

lemma slice_poke_disjoint:
  assumes "poke m i bs = Inr m'" "0 \<le> j" "j + n \<le> i \<or> i + int (length bs) \<le> j"
  shows "slice m' j n = slice m j n"
proof -
  have b: "0 \<le> i" "i + int (length bs) \<le> int (length m)" and m': "m' = take (nat i) m @ bs @ drop (nat i + length bs) m"
    using assms(1) by (auto simp: poke_def split: if_splits)
  have l: "length m' = length m" by (rule poke_length [OF assms(1)])
  have "take (nat n) (drop (nat j) m') = take (nat n) (drop (nat j) m)" if "0 \<le> n"
    using assms(3)
  proof
    assume "j + n \<le> i"
    then have "nat j + nat n \<le> nat i" using assms(2) that by linarith
    then have "take (nat n) (drop (nat j) x) = take (nat n) (drop (nat j) (take (nat i) x))" for x :: "u8 list"
      by (simp add: take_drop min_absorb1 add.commute)
    then show ?thesis by (metis poke_take [OF assms(1)])
  next
    assume "i + int (length bs) \<le> j"
    then have "nat i + length bs \<le> nat j" using b by linarith
    then have "drop (nat j) m' = drop (nat j) m"
      using b by (simp add: m' min_absorb2)
    then show ?thesis by simp
  qed
  then show ?thesis using l by (simp add: slice_def)
qed

lemma write_word_changes:
  assumes "layout_ok q" "in_ds q a 4"
  obtains q' where "write_word q a v = Inr q'" "changes a (a + 4) q q'" "pc q' = pc q" "sp q' = sp q" "word_at q' a = v"
proof -
  have "0 \<le> ds_base q + a \<and> ds_base q + a + int (length (le32 v)) \<le> int (length (mem_ptr q))"
    using assms by (simp add: layout_ok_def in_ds_def ds_base_def)
  then obtain m where m0: "poke (mem_ptr q) (ds_base q + a) (le32 v) = Inr m" by (simp add: poke_def)
  define q' where "q' = q\<lparr>mem_ptr := m\<rparr>"
  note m = m0 q'_def
  have "write_word q a v = Inr q'" by (simp add: write_word_def write_ds_def m)
  moreover have "same_regs q q'"
    using write_word_safe [OF assms, of v] calculation by (simp add: safe_def)
  ultimately have q': "write_word q a v = Inr q'" "same_regs q q'" .
  have "read_ds q' b n = read_ds q b n" if "in_ds q b n" "b + n \<le> a \<or> a + 4 \<le> b" for b n
    unfolding read_ds_def using slice_poke_disjoint [OF m(1), of "ds_base q + b" n] that m(2)
    by (simp add: in_ds_def ds_base_def)
  then have "changes a (a + 4) q q'" using q'(2) by (simp add: changes_def same_regs_def)
  moreover have "word_at q' a = v"
    using slice_poke [OF m(1)] m(2) by (simp add: word_at_def read_word_def read_ds_def ds_base_def)
  ultimately show thesis using that q' by (simp add: same_regs_def)
qed

section \<open>Expressions\<close>

datatype qexp = Const u32 | Local u32 | Unary qvm_op qexp | Binary qvm_op qexp qexp

fun qeval :: "qvmenv \<Rightarrow> (u32 \<Rightarrow> u32) \<Rightarrow> qexp \<Rightarrow> u32 res" where
  "qeval env l (Const v) = Inr v"
| "qeval env l (Local x) = Inr (l x)"
| "qeval env l (Unary op e) = (case unary_fun env op of None \<Rightarrow> Inl Undefined
     | Some f \<Rightarrow> rbind (qeval env l e) (\<lambda>a. Inr (f a)))"
| "qeval env l (Binary op d e) = (case binary_fun env op of None \<Rightarrow> Inl Undefined
     | Some f \<Rightarrow> rbind (qeval env l d) (\<lambda>a. rbind (qeval env l e) (f a)))"

fun qcompile :: "qexp \<Rightarrow> (qvm_op \<times> u32) list" where
  "qcompile (Const v) = [(OP_CONST, v)]"
| "qcompile (Local x) = [(OP_LOCAL, x), (OP_LOAD4, 0)]"
| "qcompile (Unary op e) = qcompile e @ [(op, 0)]"
| "qcompile (Binary op d e) = qcompile d @ qcompile e @ [(op, 0)]"

text \<open>The words of stack the code needs.\<close>

fun depth :: "qexp \<Rightarrow> int" where
  "depth (Const v) = 1"
| "depth (Local x) = 1"
| "depth (Unary op e) = depth e"
| "depth (Binary op d e) = max (depth d) (1 + depth e)"

fun vars :: "qexp \<Rightarrow> u32 set" where
  "vars (Const v) = {}"
| "vars (Local x) = {x}"
| "vars (Unary op e) = vars e"
| "vars (Binary op d e) = vars d \<union> vars e"

lemma depth_pos: "1 \<le> depth e"
  by (induction e) auto

lemma qeval_cong: "\<forall>x\<in>vars e. l x = l' x \<Longrightarrow> qeval env l e = qeval env l' e"
  by (induction e) (auto split: option.splits)

text \<open>The value of a local variable, and that it lies below the stack.\<close>

definition local_at :: "qvm \<Rightarrow> u32 \<Rightarrow> int" where
  "local_at q x = masked q (x + bp q)"

definition local_value :: "qvm \<Rightarrow> u32 \<Rightarrow> u32" where
  "local_value q x = word_at q (local_at q x)"

definition locals_ok :: "qvm \<Rightarrow> u32 set \<Rightarrow> bool" where
  "locals_ok q X \<longleftrightarrow> (\<forall>x\<in>X. local_at q x + 4 \<le> min_sp q)"

section \<open>Running straight-line code\<close>

definition instr_at :: "qvm \<Rightarrow> int \<Rightarrow> qvm_op \<times> u32 \<Rightarrow> bool" where
  "instr_at q i x \<longleftrightarrow> 0 \<le> i \<and> i + 1 < 2 * uint (len_cs q)
     \<and> (case read_code q i of Inl f \<Rightarrow> False | Inr w \<Rightarrow> op_of w = fst x)
     \<and> read_code q (i + 1) = Inr (snd x)"

fun code_at :: "qvm \<Rightarrow> int \<Rightarrow> (qvm_op \<times> u32) list \<Rightarrow> bool" where
  "code_at q i [] = True"
| "code_at q i (x # xs) \<longleftrightarrow> instr_at q i x \<and> code_at q (i + 2) xs"

lemma code_at_append:
  "code_at q i (xs @ ys) \<longleftrightarrow> code_at q i xs \<and> code_at q (i + 2 * int (length xs)) ys"
  by (induction xs arbitrary: i) (simp_all add: algebra_simps)

lemma changes_instr: "changes lo hi q q' \<Longrightarrow> layout_ok q \<Longrightarrow> instr_at q i x \<Longrightarrow> instr_at q' i x"
  using changes_code [of lo hi q q' i] changes_code [of lo hi q q' "i + 1"]
  by (simp add: instr_at_def) (simp add: changes_def same_layout_def)

lemma changes_code_at: "changes lo hi q q' \<Longrightarrow> layout_ok q \<Longrightarrow> code_at q i xs \<Longrightarrow> code_at q' i xs"
  by (induction xs arbitrary: i) (auto intro: changes_instr)

text \<open>\<open>runs env n q q'\<close>: the next \<open>n\<close> instructions lead from \<open>q\<close> to \<open>q'\<close>.\<close>

definition runs :: "qvmenv \<Rightarrow> nat \<Rightarrow> qvm \<Rightarrow> qvm \<Rightarrow> bool" where
  "runs env n q q' \<longleftrightarrow> (\<forall>k. qvm_run (n + k) env q = qvm_run k env q')"

lemma runs_trans: "runs env m q q1 \<Longrightarrow> runs env n q1 q2 \<Longrightarrow> runs env (m + n) q q2"
  by (simp add: runs_def add.assoc)

lemma runs_step:
  assumes "instr_at q (pc q) (op, param)" "qvm_exec_op env op param (q\<lparr>pc := pc q + 2\<rparr>) = Inr (True, q')"
  shows "runs env 1 q q'"
  using assms by (auto simp: runs_def qvm_step_def instr_at_def split: sum.splits)

lemma exec_unary: "unary_fun env op = Some f \<Longrightarrow> qvm_exec_op env op param q = go_on (qvm_unary f q)"
  by (cases op) (simp_all add: unary_fun_def branch_cond_def binary_fun_def qvm_exec_op_def)

lemma exec_binary: "binary_fun env op = Some f \<Longrightarrow> qvm_exec_op env op param q = go_on (qvm_binary f q)"
  by (cases op) (simp_all add: branch_cond_def binary_fun_def qvm_exec_op_def)

section \<open>Compiled expressions\<close>

text \<open>One instruction that writes the word at the new top of the stack.\<close>

lemma push_runs:
  assumes ok: "qvm_ok q" "min_sp q \<le> sp q - 4" and at: "instr_at q (pc q) (op, param)"
    and op: "qvm_exec_op env op param (q\<lparr>pc := pc q + 2\<rparr>) = go_on (qvm_push v (q\<lparr>pc := pc q + 2\<rparr>))"
  obtains q' where "runs env 1 q q'" "changes (sp q - 4) (sp q) q q'" "pc q' = pc q + 2" "sp q' = sp q - 4"
    "word_at q' (sp q') = v" "qvm_ok q'"
proof -
  let ?q = "q\<lparr>pc := pc q + 2, sp := sp q - 4\<rparr>"
  have k: "keeps (q\<lparr>pc := pc q + 2\<rparr>) ?q"
    using pushed_ok [OF keepsD [OF pc_keeps [OF ok(1)]], of "pc q + 2"] ok(2) by simp
  note q = keepsD [OF k]
  obtain q' where q': "write_word ?q (sp ?q) v = Inr q'" "changes (sp ?q) (sp ?q + 4) ?q q'" "pc q' = pc ?q"
      "sp q' = sp ?q" "word_at q' (sp ?q) = v"
    using write_word_changes [OF qvm_ok_layout [OF q] stack_in_ds(1) [OF q]] by blast
  have "safe (keeps ?q) (write_word ?q (sp ?q) v)" by (rule write_top_safe [OF q])
  then have "qvm_ok q'" using q'(1) by (simp add: safe_def keeps_def)
  moreover have "qvm_exec_op env op param (q\<lparr>pc := pc q + 2\<rparr>) = Inr (True, q')"
    using op q'(1) ok(2) by (simp add: qvm_push_def Let_def go_on_def)
  then have "runs env 1 q q'" by (rule runs_step [OF at])
  moreover have "changes (sp q - 4) (sp q) q q'"
    by (rule changes_trans [OF changes_refl]) (use q'(2) in simp)
  ultimately show thesis using that q' by simp
qed

text \<open>One instruction that replaces the top of the stack.\<close>

lemma top_runs:
  assumes ok: "qvm_ok q" and at: "instr_at q (pc q) (op, param)"
    and op: "qvm_exec_op env op param (q\<lparr>pc := pc q + 2\<rparr>)
      = go_on (write_word (q\<lparr>pc := pc q + 2\<rparr>) (sp q) v)"
  obtains q' where "runs env 1 q q'" "changes (sp q) (sp q + 4) q q'" "pc q' = pc q + 2" "sp q' = sp q"
    "word_at q' (sp q') = v" "qvm_ok q'"
proof -
  let ?q = "q\<lparr>pc := pc q + 2\<rparr>"
  note q = keepsD [OF pc_keeps [OF ok, of "pc q + 2"]]
  obtain q' where q': "write_word ?q (sp ?q) v = Inr q'" "changes (sp ?q) (sp ?q + 4) ?q q'" "pc q' = pc ?q"
      "sp q' = sp ?q" "word_at q' (sp ?q) = v"
    using write_word_changes [OF qvm_ok_layout [OF q] stack_in_ds(1) [OF q]] by blast
  have "safe (keeps ?q) (write_word ?q (sp ?q) v)" by (rule write_top_safe [OF q])
  then have "qvm_ok q'" using q'(1) by (simp add: safe_def keeps_def)
  moreover have "qvm_exec_op env op param ?q = Inr (True, q')" using op q'(1) by (simp add: go_on_def)
  then have "runs env 1 q q'" by (rule runs_step [OF at])
  moreover have "changes (sp q) (sp q + 4) q q'"
    by (rule changes_trans [OF changes_refl [of _ _ _ "sp q"]]) (use q'(2) in simp)
  ultimately show thesis using that q' by simp
qed

text \<open>What running the code of an expression does.\<close>

definition evaluates :: "qvmenv \<Rightarrow> qexp \<Rightarrow> u32 \<Rightarrow> qvm \<Rightarrow> bool" where
  "evaluates env e v q \<longleftrightarrow> (\<exists>q'. runs env (length (qcompile e)) q q'
     \<and> changes (sp q - 4 * depth e) (sp q) q q' \<and> pc q' = pc q + 2 * int (length (qcompile e))
     \<and> sp q' = sp q - 4 \<and> word_at q' (sp q') = v \<and> qvm_ok q')"

lemma evaluates_top:
  assumes ok: "qvm_ok q1" and at: "instr_at q1 (pc q1) (op, 0)"
    and op: "qvm_exec_op env op 0 (q1\<lparr>pc := pc q1 + 2\<rparr>) = go_on (write_word (q1\<lparr>pc := pc q1 + 2\<rparr>) (sp q1) v)"
    and run: "runs env n q q1" "changes lo (sp q) q q1" "pc q1 = pc q + 2 * int n" "sp q1 = sp q - 4" "lo \<le> sp q - 4"
  shows "\<exists>q'. runs env (n + 1) q q' \<and> changes lo (sp q) q q' \<and> pc q' = pc q + 2 * int (n + 1)
     \<and> sp q' = sp q - 4 \<and> word_at q' (sp q') = v \<and> qvm_ok q'"
proof -
  obtain q' where q': "runs env 1 q1 q'" "changes (sp q1) (sp q1 + 4) q1 q'" "pc q' = pc q1 + 2" "sp q' = sp q1"
      "word_at q' (sp q') = v" "qvm_ok q'"
    by (rule top_runs [OF ok at op])
  have "changes lo (sp q) q1 q'" by (rule changes_mono [OF q'(2)]) (use run in simp_all)
  then have "changes lo (sp q) q q'" by (rule changes_trans [OF run(2)])
  then show ?thesis using runs_trans [OF run(1) q'(1)] q' run by (intro exI [of _ q']) simp
qed

lemma word_at_pc [simp]: "word_at (q\<lparr>pc := x\<rparr>) a = word_at q a"
  by (simp add: word_at_def read_word_def read_ds_def ds_base_def)

lemma local_value_changes:
  assumes "changes lo hi q q'" "qvm_ok q" "locals_ok q X" "min_sp q \<le> lo" "x \<in> X"
  shows "local_value q' x = local_value q x"
proof -
  have same: "local_at q' x = local_at q x"
    using assms(1) by (simp add: changes_def same_layout_def local_at_def masked_def)
  have "local_at q x + 4 \<le> min_sp q" using assms(3,5) by (simp add: locals_ok_def)
  moreover have "0 \<le> local_at q x" by (simp add: local_at_def masked_bounds)
  moreover have "min_sp q + 8 \<le> ds_size q" using assms(2) by (simp add: qvm_ok_def layout_ok_def)
  ultimately show ?thesis
    using changes_read_word [OF assms(1), of "local_at q x"] assms(4)
    by (simp add: local_value_def same in_ds_def)
qed

lemma locals_ok_changes: "changes lo hi q q' \<Longrightarrow> locals_ok q X \<Longrightarrow> locals_ok q' X"
  by (simp add: locals_ok_def changes_def same_layout_def local_at_def masked_def)

lemma load_top:
  assumes "qvm_ok q" "in_ds q (masked q (word_at q (sp q))) 4"
  shows "qvm_load 4 (q\<lparr>pc := i\<rparr>) = write_word (q\<lparr>pc := i\<rparr>) (sp q) (word_at q (masked q (word_at q (sp q))))"
proof -
  let ?q = "q\<lparr>pc := i\<rparr>" and ?a = "masked q (word_at q (sp q))"
  note ok = keepsD [OF pc_keeps [OF assms(1), of i]]
  have a: "masked ?q (word_at ?q (sp ?q)) = ?a" by (simp add: masked_def)
  have "read_word ?q ?a = Inr (word_at q ?a)"
    using read_word_at [OF qvm_ok_layout [OF ok], of ?a] assms(2) by (simp add: in_ds_def ds_size_def)
  then obtain bs where bs: "read_ds ?q ?a 4 = Inr bs" "of_le32_list bs = word_at q ?a"
    by (auto simp: read_word_def rbind_eq_Inr)
  then have "length bs = 4" using slice_length by (fastforce simp: read_ds_def)
  then have "le_value bs = word_at q ?a" using bs(2) by (simp add: le_value_def)
  then show ?thesis
    using read_top [OF ok] bs(1) a by (simp add: qvm_load_def)
qed

lemma evaluates_local:
  assumes ok: "qvm_ok q" "min_sp q \<le> sp q - 4" and at: "code_at q (pc q) (qcompile (Local x))"
    and l: "locals_ok q {x}"
  shows "evaluates env (Local x) (local_value q x) q"
proof -
  let ?q = "q\<lparr>pc := pc q + 2\<rparr>"
  obtain q1 where q1: "runs env 1 q q1" "changes (sp q - 4) (sp q) q q1" "pc q1 = pc q + 2" "sp q1 = sp q - 4"
      "word_at q1 (sp q1) = x + bp q" "qvm_ok q1"
    by (rule push_runs [OF ok, of OP_LOCAL x env "x + bp q"]) (use at in \<open>simp_all add: qvm_exec_op_def\<close>)
  have i: "instr_at q1 (pc q1) (OP_LOAD4, 0)"
    using changes_instr [OF q1(2) qvm_ok_layout [OF ok(1)]] at q1(3) by simp
  have addr: "masked q1 (word_at q1 (sp q1)) = local_at q x"
    using q1(2,5) by (simp add: masked_def local_at_def changes_def same_layout_def)
  have "in_ds q1 (local_at q x) 4"
    using l ok(1) q1(2) masked_bounds [of q "x + bp q"]
    by (simp add: in_ds_def locals_ok_def changes_def same_layout_def ds_size_def local_at_def qvm_ok_def layout_ok_def)
  then have op: "qvm_exec_op env OP_LOAD4 0 (q1\<lparr>pc := pc q1 + 2\<rparr>)
      = go_on (write_word (q1\<lparr>pc := pc q1 + 2\<rparr>) (sp q1) (word_at q1 (local_at q x)))"
    using load_top [OF q1(6), of "pc q1 + 2"] addr by (simp add: qvm_exec_op_def)
  have v: "word_at q1 (local_at q x) = local_value q x"
    using local_value_changes [OF q1(2) ok(1) l ok(2), of x] q1(2)
    by (simp add: local_value_def local_at_def masked_def changes_def same_layout_def)
  show ?thesis
    using evaluates_top [OF q1(6) i op q1(1) q1(2)] q1(3,4) v by (simp add: evaluates_def numeral_2_eq_2)
qed

lemma evaluates_const:
  assumes "qvm_ok q" "min_sp q \<le> sp q - 4" "code_at q (pc q) (qcompile (Const v))"
  shows "evaluates env (Const v) v q"
proof -
  obtain q' where "runs env 1 q q'" "changes (sp q - 4) (sp q) q q'" "pc q' = pc q + 2" "sp q' = sp q - 4"
      "word_at q' (sp q') = v" "qvm_ok q'"
    by (rule push_runs [OF assms(1,2), of OP_CONST v env v]) (use assms(3) in \<open>simp_all add: qvm_exec_op_def\<close>)
  then show ?thesis by (auto simp: evaluates_def)
qed

lemma evaluates_unary:
  assumes e: "evaluates env e a q" and at: "code_at q (pc q) (qcompile (Unary op e))" and q: "layout_ok q"
    and f: "unary_fun env op = Some f"
  shows "evaluates env (Unary op e) (f a) q"
proof -
  obtain q1 where q1: "runs env (length (qcompile e)) q q1" "changes (sp q - 4 * depth e) (sp q) q q1"
      "pc q1 = pc q + 2 * int (length (qcompile e))" "sp q1 = sp q - 4" "word_at q1 (sp q1) = a" "qvm_ok q1"
    using e by (auto simp: evaluates_def)
  have i: "instr_at q1 (pc q1) (op, 0)"
    using changes_instr [OF q1(2) q] at q1(3) by (simp add: code_at_append)
  note ok = keepsD [OF pc_keeps [OF q1(6), of "pc q1 + 2"]]
  have op: "qvm_exec_op env op 0 (q1\<lparr>pc := pc q1 + 2\<rparr>) = go_on (write_word (q1\<lparr>pc := pc q1 + 2\<rparr>) (sp q1) (f a))"
    using read_top [OF ok] q1(5) by (simp add: exec_unary [OF f] qvm_unary_def)
  show ?thesis
    using evaluates_top [OF q1(6) i op q1(1-4)] depth_pos [of e] by (simp add: evaluates_def)
qed

lemma binary_runs:
  assumes ok: "qvm_ok q" "sp q + 4 \<le> max_sp q" and at: "instr_at q (pc q) (op, 0)"
    and f: "binary_fun env op = Some f" "f (word_at q (sp q + 4)) (word_at q (sp q)) = Inr v"
  obtains q' where "runs env 1 q q'" "changes (sp q + 4) (sp q + 8) q q'" "pc q' = pc q + 2" "sp q' = sp q + 4"
    "word_at q' (sp q') = v" "qvm_ok q'"
proof -
  let ?q = "q\<lparr>pc := pc q + 2\<rparr>"
  note q = keepsD [OF pc_keeps [OF ok(1), of "pc q + 2"]]
  obtain q1 where q1: "write_word ?q (sp ?q + 4) v = Inr q1" "changes (sp ?q + 4) (sp ?q + 4 + 4) ?q q1"
      "pc q1 = pc ?q" "sp q1 = sp ?q" "word_at q1 (sp ?q + 4) = v"
    using write_word_changes [OF qvm_ok_layout [OF q] stack_in_ds(2) [OF q]] by blast
  let ?q' = "q1\<lparr>sp := sp q + 4\<rparr>"
  have max: "max_sp q1 = max_sp q" using q1(2) by (simp add: changes_def same_layout_def)
  have "safe (keeps ?q) (write_word ?q (sp ?q + 4) v)" by (rule write_second_safe [OF q])
  then have "qvm_ok q1" using q1(1) by (simp add: safe_def keeps_def)
  then have "qvm_ok ?q'" using ok(2) max q1(4) by (simp add: qvm_ok_def layout_ok_def ds_base_def ds_size_def)
  moreover have "qvm_exec_op env op 0 ?q = Inr (True, ?q')"
    using read_top [OF q] read_second [OF q] q1 f(2) ok(2) max
    by (simp add: exec_binary [OF f(1)] qvm_binary_def qvm_pop_def go_on_def)
  then have "runs env 1 q ?q'" by (rule runs_step [OF at])
  moreover have "changes (sp q + 4) (sp q + 8) ?q q1" using q1(2) by (simp add: add.commute)
  then have "changes (sp q + 4) (sp q + 8) q q1"
    by (rule changes_trans [OF changes_pc])
  then have "changes (sp q + 4) (sp q + 8) q ?q'" by (rule changes_trans [OF _ changes_sp])
  moreover have "word_at ?q' (sp ?q') = v"
    using q1(5) by (simp add: word_at_def read_word_def read_ds_def ds_base_def)
  ultimately show thesis using that [of ?q'] q1(3) by simp
qed

lemma evaluates_binary:
  assumes d: "evaluates env d a q" and at: "code_at q (pc q) (qcompile (Binary op d e))" and ok: "qvm_ok q"
    and e: "\<And>q1. qvm_ok q1 \<Longrightarrow> changes (sp q - 4 * depth d) (sp q) q q1 \<Longrightarrow> sp q1 = sp q - 4 \<Longrightarrow>
      code_at q1 (pc q1) (qcompile e) \<Longrightarrow> evaluates env e b q1"
    and f: "binary_fun env op = Some f" "f a b = Inr v"
  shows "evaluates env (Binary op d e) v q"
proof -
  let ?m = "length (qcompile d)" and ?n = "length (qcompile e)"
  let ?lo = "sp q - 4 * depth (Binary op d e)"
  note q = qvm_ok_layout [OF ok]
  obtain q1 where q1: "runs env ?m q q1" "changes (sp q - 4 * depth d) (sp q) q q1"
      "pc q1 = pc q + 2 * int ?m" "sp q1 = sp q - 4" "word_at q1 (sp q1) = a" "qvm_ok q1"
    using d by (auto simp: evaluates_def)
  have at1: "code_at q1 (pc q1) (qcompile e @ [(op, 0)])"
    using changes_code_at [OF q1(2) q] changes_instr [OF q1(2) q] at q1(3) by (simp add: code_at_append)
  then have "evaluates env e b q1" using e [OF q1(6,2,4)] by (simp add: code_at_append)
  then obtain q2 where q2: "runs env ?n q1 q2" "changes (sp q1 - 4 * depth e) (sp q1) q1 q2"
      "pc q2 = pc q1 + 2 * int ?n" "sp q2 = sp q1 - 4" "word_at q2 (sp q2) = b" "qvm_ok q2"
    by (auto simp: evaluates_def)
  have "changes ?lo (sp q) q q1" by (rule changes_mono [OF q1(2)]) simp_all
  moreover have "?lo \<le> sp q1 - 4 * depth e"
    using q1(4) by (auto simp: max_def)
  then have "changes ?lo (sp q) q1 q2" by (rule changes_mono [OF q2(2)]) (use q1(4) in simp)
  ultimately have c2: "changes ?lo (sp q) q q2" by (rule changes_trans)
  have a: "word_at q2 (sp q2 + 4) = a"
    using changes_read_word [OF q2(2) stack_in_ds(1) [OF q1(6)]] q1(5) q2(4) by simp
  have i: "instr_at q2 (pc q2) (op, 0)"
    using changes_instr [OF q2(2) qvm_ok_layout [OF q1(6)]] at1 q2(3) by (simp add: code_at_append)
  have max: "sp q2 + 4 \<le> max_sp q2"
    using q1(4) q2(4) c2 ok by (simp add: qvm_ok_def changes_def same_layout_def)
  obtain q' where q': "runs env 1 q2 q'" "changes (sp q2 + 4) (sp q2 + 8) q2 q'" "pc q' = pc q2 + 2"
      "sp q' = sp q2 + 4" "word_at q' (sp q') = v" "qvm_ok q'"
    by (rule binary_runs [OF q2(6) max i f(1)]) (use a q2(5) f(2) in simp_all)
  have "changes ?lo (sp q) q2 q'"
    by (rule changes_mono [OF q'(2)]) (use q1(4) q2(4) depth_pos [of d] in simp_all)
  then have "changes ?lo (sp q) q q'" by (rule changes_trans [OF c2])
  moreover have "runs env (length (qcompile (Binary op d e))) q q'"
    using runs_trans [OF runs_trans [OF q1(1) q2(1)] q'(1)] by simp
  ultimately show ?thesis using q' q1(3,4) q2(3,4) by (auto simp: evaluates_def)
qed

lemma compiled_evaluates:
  "qvm_ok q \<Longrightarrow> min_sp q \<le> sp q - 4 * depth e \<Longrightarrow> code_at q (pc q) (qcompile e) \<Longrightarrow> locals_ok q (vars e) \<Longrightarrow>
   qeval env (local_value q) e = Inr v \<Longrightarrow> evaluates env e v q"
proof (induction e arbitrary: q v)
  case (Const x)
  then show ?case using evaluates_const [of q x] by simp
next
  case (Local x)
  then show ?case using evaluates_local [of q x] by simp
next
  case (Unary op e)
  then obtain f a where f: "unary_fun env op = Some f" "qeval env (local_value q) e = Inr a" "v = f a"
    by (auto simp: rbind_eq_Inr split: option.splits)
  then have "evaluates env e a q" using Unary by (simp add: code_at_append)
  then show ?case using evaluates_unary [OF _ Unary.prems(3) qvm_ok_layout [OF Unary.prems(1)] f(1)] f(3) by simp
next
  case (Binary op d e)
  then obtain f a b where f: "binary_fun env op = Some f" "qeval env (local_value q) d = Inr a"
      "qeval env (local_value q) e = Inr b" "f a b = Inr v"
    by (auto simp: rbind_eq_Inr split: option.splits)
  have deep: "min_sp q \<le> sp q - 4 * depth d" "min_sp q \<le> sp q - 4 - 4 * depth e"
    using Binary.prems(2) by (simp_all add: max_def split: if_splits)
  have "evaluates env d a q"
    using Binary.prems f(2) deep by (intro Binary.IH(1)) (simp_all add: code_at_append locals_ok_def)
  then show ?case
  proof (rule evaluates_binary [OF _ Binary.prems(3,1) _ f(1,4)])
    fix q1 assume q1: "qvm_ok q1" "changes (sp q - 4 * depth d) (sp q) q q1" "sp q1 = sp q - 4"
      "code_at q1 (pc q1) (qcompile e)"
    have loc: "locals_ok q (vars e)" using Binary.prems(4) by (simp add: locals_ok_def)
    have "qeval env (local_value q1) e = qeval env (local_value q) e"
    proof (rule qeval_cong)
      show "\<forall>x\<in>vars e. local_value q1 x = local_value q x"
        using local_value_changes [OF q1(2) Binary.prems(1) loc deep(1)] by simp
    qed
    then show "evaluates env e b q1"
      using deep(2) q1 f(3) locals_ok_changes [OF q1(2) loc]
      by (intro Binary.IH(2)) (simp_all add: changes_def same_layout_def)
  qed
qed


text \<open>\<open>(20 - local 0) * 3 / 5\<close> where the local is 5.\<close>

definition sample_exp :: qexp where
  "sample_exp = Binary OP_DIVI (Binary OP_MULI (Binary OP_SUB (Const 20) (Local 0)) (Const 3)) (Const 5)"

definition sample_machine :: qvm where
  "sample_machine = \<lparr>mem_ptr = concat (map le32 [8, 20, 9, 0, 29, 0, 39, 0, 8, 3, 44, 0, 8, 5, 40, 0, 2, 0])
       @ [5, 0, 0, 0] @ replicate 60 0,
     pc = 0, sp = 56, bp = 0, min_sp = 8, max_sp = 56, min_bp = 0, max_bp = 0,
     len_cs = 9, len_ds = 0, len_ss = 56, ds_mask = 63\<rparr>"


end
