(* ===== verification/QvmLoad.thy ===== *)
theory QvmLoad
  imports QvmExpr
begin

text \<open>
  Loading a bytecode image: the file a compiler writes for a list of instructions and
  initial data is loaded into a machine that satisfies the invariant, has these instructions in
  its code segment and this data in its data segment.
\<close>

section \<open>Images\<close>

definition op_code :: "qvm_op \<Rightarrow> u8" where
  "op_code op = of_nat (length (takeWhile (\<lambda>x. x \<noteq> op) qvm_ops))"

definition encode_instr :: "qvm_op \<times> u32 \<Rightarrow> u8 list" where
  "encode_instr x = op_code (fst x) # (if has_b32 (fst x) then le32 (snd x)
     else if fst x = OP_ARG then [ucast (snd x)] else [])"

definition instr_ok :: "qvm_op \<times> u32 \<Rightarrow> bool" where
  "instr_ok x \<longleftrightarrow> has_b32 (fst x) \<or> (fst x = OP_ARG \<and> snd x < 256) \<or> snd x = 0"

definition image_code :: "(qvm_op \<times> u32) list \<Rightarrow> u8 list" where
  "image_code prog = concat (map encode_instr prog)"

definition image_words :: "(qvm_op \<times> u32) list \<Rightarrow> nat \<Rightarrow> nat \<Rightarrow> nat \<Rightarrow> u32 list" where
  "image_words prog dlen llen bss = [VM_MAGIC, of_nat (length prog), 32, of_nat (length (image_code prog)),
     of_nat (32 + length (image_code prog)), of_nat dlen, of_nat llen, of_nat bss]"

definition qvm_image :: "(qvm_op \<times> u32) list \<Rightarrow> u8 list \<Rightarrow> u8 list \<Rightarrow> nat \<Rightarrow> u8 list" where
  "qvm_image prog dat lit bss = concat (map le32 (image_words prog (length dat) (length lit) bss))
     @ image_code prog @ dat @ lit"

lemma op_of_code [simp]: "op_of (ucast (op_code op)) = op"
  by (cases op) (simp_all add: op_code_def qvm_ops_def op_of_def)

section \<open>The header\<close>

lemma length_le32s [simp]: "length (concat (map le32 ws)) = 4 * length ws"
  by (induction ws) simp_all

lemma take_le32s: "k < length ws \<Longrightarrow> take 4 (drop (4 * k) (concat (map le32 ws) @ r)) = le32 (ws ! k)"
proof (induction ws arbitrary: k)
  case (Cons w ws)
  then show ?case by (cases k) simp_all
qed simp

lemma header_word_image: "k < length ws \<Longrightarrow> header_word (concat (map le32 ws) @ r) k = Inr (ws ! k)"
  using take_le32s [of k ws r]
  by (simp add: header_word_def slice_def nat_mult_distrib del: drop_append take_append)

definition image_header :: "u32 list \<Rightarrow> vmHeader" where
  "image_header ws = \<lparr>vmMagic = ws ! 0, instructionCount = ws ! 1, codeOffset = ws ! 2, codeLength = ws ! 3,
     dataOffset = ws ! 4, dataLength = ws ! 5, litLength = ws ! 6, bssLength = ws ! 7\<rparr>"

lemma read_image_header:
  "length ws = 8 \<Longrightarrow> ws ! 0 = VM_MAGIC \<Longrightarrow>
   read_vmHeader (concat (map le32 ws) @ r) = Inr (image_header ws)"
  by (simp add: read_vmHeader_def header_word_image image_header_def VM_MAGIC_def VM_MAGIC2_def)

section \<open>The code segment\<close>

definition code_words :: "qvm_op \<times> u32 \<Rightarrow> u8 list" where
  "code_words x = le32 (ucast (op_code (fst x))) @ le32 (snd x)"

definition code_segment :: "(qvm_op \<times> u32) list \<Rightarrow> u8 list" where
  "code_segment prog = concat (map code_words prog) @ le32 2 @ le32 0"

lemma length_code_words [simp]: "length (concat (map code_words prog)) = 8 * length prog"
  by (induction prog) (simp_all add: code_words_def)

lemma operand_image:
  assumes "instr_ok x" "raw = pre @ encode_instr x @ post"
  shows "peek raw (int (length pre)) = Inr (op_code (fst x))"
    and "operand raw (op_code (fst x)) (int (length pre) + 1) = Inr (snd x, int (length (encode_instr x)) - 1)"
proof -
  show "peek raw (int (length pre)) = Inr (op_code (fst x))"
    using assms(2) by (simp add: peek_def encode_instr_def)
  have arg: "ucast (ucast v :: u8) = v" if "v < 256" for v :: u32
  proof (rule bit_word_eqI)
    fix n assume "n < LENGTH(32)"
    have "bit v n \<Longrightarrow> n < 8" by (rule bit_bound [of v n 8]) (use that in \<open>simp_all add: word_less_nat_alt\<close>)
    then show "bit (ucast (ucast v :: u8) :: u32) n = bit v n" by (auto simp: bit_simps)
  qed
  have next_byte: "drop (nat (int (length pre) + 1)) raw = drop 1 (encode_instr x) @ post"
    using assms(2) by (simp add: nat_add_distrib encode_instr_def)
  show "operand raw (op_code (fst x)) (int (length pre) + 1) = Inr (snd x, int (length (encode_instr x)) - 1)"
  proof (cases "has_b32 (fst x)")
    case True
    then have "slice raw (int (length pre) + 1) 4 = Inr (le32 (snd x))"
      using assms(2) next_byte by (simp add: slice_def encode_instr_def)
    with True show ?thesis by (simp add: operand_def encode_instr_def)
  next
    case False
    have "peek raw (int (length pre) + 1) = Inr (ucast (snd x))" if "fst x = OP_ARG"
      using assms(2) False that by (simp add: peek_def encode_instr_def nat_add_distrib nth_append)
    with False show ?thesis
      using assms(1) arg by (auto simp: operand_def encode_instr_def instr_ok_def)
  qed
qed

lemma load_code_image:
  "\<forall>x\<in>set prog. instr_ok x \<Longrightarrow> raw = pre @ image_code prog @ post \<Longrightarrow> d + 8 * (length prog + 1) \<le> length m \<Longrightarrow>
   load_code (length prog) raw (int (length pre)) (int d) m
     = Inr (take d m @ code_segment prog @ drop (d + 8 * (length prog + 1)) m)"
proof (induction prog arbitrary: pre d m)
  case Nil
  then show ?case by (simp add: poke_def code_segment_def)
next
  case (Cons x prog)
  define m1 where "m1 = take d m @ code_words x @ drop (d + 8) m"
  have raw: "raw = pre @ encode_instr x @ (image_code prog @ post)" "raw = (pre @ encode_instr x) @ image_code prog @ post"
    using Cons.prems(2) by (simp_all add: image_code_def)
  have ok: "instr_ok x" "\<forall>x\<in>set prog. instr_ok x" using Cons.prems(1) by simp_all
  have len: "length (encode_instr x) = Suc (length (encode_instr x) - 1)" by (simp add: encode_instr_def)
  have m1: "poke m (int d) (code_words x) = Inr m1" "length m1 = length m"
    using Cons.prems(3) by (simp_all add: poke_def m1_def code_words_def)
  have "load_code (length prog) raw (int (length (pre @ encode_instr x))) (int (d + 8)) m1
      = Inr (take (d + 8) m1 @ code_segment prog @ drop (d + 8 + 8 * (length prog + 1)) m1)"
    using Cons.prems(3) m1(2) by (intro Cons.IH [OF ok(2) raw(2)]) simp
  moreover have "take (d + 8) m1 = take d m @ code_words x"
      "drop (d + 8 + 8 * (length prog + 1)) m1 = drop (d + 8 + 8 * (length prog + 1)) m"
    using Cons.prems(3) by (simp_all add: m1_def code_words_def ac_simps)
  moreover have "d + 8 + 8 * (length prog + 1) = d + 8 * (length (x # prog) + 1)"
      "int (length (pre @ encode_instr x)) = int (length pre) + 1 + (int (length (encode_instr x)) - 1)"
      "int (d + 8) = int d + 8" by simp_all
  ultimately show ?case
    using operand_image [OF ok(1) raw(1)] m1(1)
    by (simp add: code_words_def [symmetric] code_segment_def add.left_commute)
qed

section \<open>The layout\<close>

lemma mask_shift_spec:
  "mask_shift i m \<le> max i 31 \<and> i \<le> mask_shift i m \<and> (mask_shift i m < 31 \<longrightarrow> m \<le> push_bit (mask_shift i m) 1)
   \<and> (\<forall>j\<ge>i. j < 31 \<longrightarrow> m \<le> push_bit j 1 \<longrightarrow> mask_shift i m \<le> j)"
proof (induction i m rule: mask_shift.induct)
  case (1 i m)
  show ?case
  proof (cases "i < 31 \<and> push_bit i 1 < m")
    case True
    with 1 have ih: "mask_shift (i + 1) m \<le> max (i + 1) 31" "i + 1 \<le> mask_shift (i + 1) m"
        "mask_shift (i + 1) m < 31 \<longrightarrow> m \<le> push_bit (mask_shift (i + 1) m) 1"
        "\<forall>j\<ge>i + 1. j < 31 \<longrightarrow> m \<le> push_bit j 1 \<longrightarrow> mask_shift (i + 1) m \<le> j" by blast+
    have "i + 1 \<le> j" if "i \<le> j" "m \<le> push_bit j 1" for j
    proof (rule ccontr)
      assume "\<not> i + 1 \<le> j"
      then have "j = i" using that by simp
      then show False using that(2) True by (simp only: not_less [symmetric]) simp
    qed
    then show ?thesis using True ih by (subst (1 2 3 4 5) mask_shift.simps) auto
  next
    case False
    then show ?thesis by (subst (1 2 3 4 5) mask_shift.simps) (auto simp: not_less)
  qed
qed

lemma unat_small [simp]: "x < 4294967296 \<Longrightarrow> unat (word_of_nat x :: u32) = x"
  by (simp add: unsigned_of_nat take_bit_nat_eq_self)

lemma uint_small: "x < 4294967296 \<Longrightarrow> uint (word_of_nat x :: u32) = int x"
  by (simp add: unsigned_of_nat take_bit_nat_eq_self)

lemma word_and_7: "x < 4294967296 \<Longrightarrow> (word_of_nat x :: u32) AND 7 = word_of_nat (x mod 8)"
proof -
  assume x: "x < 4294967296"
  have "(7 :: u32) = mask 3" by (simp add: mask_eq_exp_minus_1)
  then have "(word_of_nat x :: u32) AND 7 = take_bit 3 (word_of_nat x)" by (simp only: take_bit_eq_mask)
  also have "\<dots> = word_of_nat (take_bit 3 x)" by (simp add: take_bit_of_nat)
  finally show ?thesis by (simp add: take_bit_eq_mod)
qed

text \<open>The size of the data segment that is chosen for \<open>d\<close> bytes of data.\<close>

definition segment_exp :: "nat \<Rightarrow> nat" where
  "segment_exp d = mask_shift 0 (word_of_nat d + (256 * 1024 + 16 * 4))"

lemma segment_exp:
  assumes "d + 262208 \<le> 2 ^ 29"
  shows "segment_exp d \<le> 29" "d + 262208 \<le> 2 ^ segment_exp d" "18 \<le> segment_exp d"
proof -
  have m: "word_of_nat d + (256 * 1024 + 16 * 4) = (word_of_nat (d + 262208) :: u32)" by simp
  have p: "(word_of_nat (d + 262208) :: u32) \<le> push_bit j 1 \<longleftrightarrow> d + 262208 \<le> 2 ^ j" if "j \<le> 31" for j
  proof -
    have "(2 :: nat) ^ j \<le> 2 ^ 31" using that by (intro power_increasing) simp_all
    then have "unat (word_of_nat (2 ^ j) :: u32) = 2 ^ j" by (intro unat_small) simp
    then have "unat (push_bit j 1 :: u32) = 2 ^ j" by (simp add: push_bit_eq_mult)
    moreover have "unat (word_of_nat (d + 262208) :: u32) = d + 262208" using assms by (simp del: of_nat_add)
    ultimately show ?thesis by (simp only: word_le_nat_alt)
  qed
  note spec = mask_shift_spec [of 0 "word_of_nat (d + 262208)"]
  have 29: "segment_exp d \<le> 29" unfolding segment_exp_def m using spec p [of 29] assms by auto
  then show "segment_exp d \<le> 29" .
  show le: "d + 262208 \<le> 2 ^ segment_exp d"
    using spec p [of "segment_exp d"] 29 unfolding segment_exp_def m by auto
  show "18 \<le> segment_exp d"
  proof (rule ccontr)
    assume "\<not> 18 \<le> segment_exp d"
    then have "(2 :: nat) ^ segment_exp d \<le> 2 ^ 17" by (intro power_increasing) simp_all
    with le show False by simp
  qed
qed

lemma layout_words:
  assumes "2 \<le> k" "d + 8 * k \<le> 536870912"
  shows "word_of_nat (d + 8 * k) - word_of_nat d - 4 = (word_of_nat (8 * k - 4) :: u32)"
    and "(word_of_nat (8 * k - 4) :: u32) AND 7 = 4"
    and "word_of_nat (8 * k - 4) - 4 = (word_of_nat (8 * k - 8) :: u32)"
    and "(word_of_nat (8 * k - 8) :: u32) div 2 = word_of_nat (4 * k - 4)"
    and "word_of_nat d + ((word_of_nat (8 * k - 4) :: u32) + 4) = word_of_nat (d + 8 * k)"
    and "word_of_nat (d + 8 * k) - 1 = (word_of_nat (d + 8 * k - 1) :: u32)"
    and "word_of_nat d + word_of_nat (4 * k - 4) = (word_of_nat (d + (4 * k - 4)) :: u32)"
proof -
  show "word_of_nat (d + 8 * k) - word_of_nat d - 4 = (word_of_nat (8 * k - 4) :: u32)"
    using assms(1) by (simp add: of_nat_diff)
  obtain i where "k = Suc i" using assms(1) by (cases k) simp_all
  then have "8 * k - 4 = 4 + 8 * i" by simp
  then have "(8 * k - 4) mod 8 = 4" by simp
  then show "(word_of_nat (8 * k - 4) :: u32) AND 7 = 4"
    using assms(2) word_and_7 [of "8 * k - 4"] by simp
  show "word_of_nat (8 * k - 4) - 4 = (word_of_nat (8 * k - 8) :: u32)"
    using assms(1) by (simp add: of_nat_diff)
  have "unat ((word_of_nat (8 * k - 8) :: u32) div 2) = unat (word_of_nat (4 * k - 4) :: u32)"
    using assms(2) by (simp add: unat_div del: of_nat_diff of_nat_mult)
  then show "(word_of_nat (8 * k - 8) :: u32) div 2 = word_of_nat (4 * k - 4)"
    by (simp only: word_unat_eq_iff)
  show "word_of_nat d + ((word_of_nat (8 * k - 4) :: u32) + 4) = word_of_nat (d + 8 * k)"
    using assms(1) by (simp add: of_nat_diff)
  show "word_of_nat (d + 8 * k) - 1 = (word_of_nat (d + 8 * k - 1) :: u32)"
    using assms(1) by (simp add: of_nat_diff)
qed simp

lemma layout_image:
  assumes n: "instructionCount h = word_of_nat n" "n + 1 < 2 ^ 26"
    and d: "dataLength h + litLength h + bssLength h = word_of_nat d" "d + 262208 \<le> 2 ^ 29" "8 dvd d"
  defines "q \<equiv> qvm_layout h"
  shows "uint (len_cs q) = int n + 1" "ds_size q = 2 ^ segment_exp d"
    "mem_ptr q = replicate (8 * (n + 1) + 2 ^ segment_exp d) 0" "qvm_ok q" "pc q = 0" "sp q = max_sp q"
    "bp q = max_bp q" "max_sp q = 2 ^ segment_exp d - 8"
proof -
  let ?j = "segment_exp d"
  note j = segment_exp [OF d(2)]
  have pj: "(2 :: nat) ^ ?j \<le> 2 ^ 29" using j(1) by (rule power_increasing) simp
  have "8 dvd (2 :: nat) ^ ?j"
    using j(3) le_imp_power_dvd [of 3 ?j "2 :: nat"] by simp
  then have "8 dvd 2 ^ ?j - d" using d(3) by (rule dvd_diff_nat)
  then obtain k where "2 ^ ?j - d = 8 * k" by (rule dvdE)
  then have k: "2 ^ ?j = d + 8 * k" "2 \<le> k" using j(2) by simp_all
  have b: "d + 8 * k \<le> 536870912" using pj k(1) by simp
  note w = layout_words [OF k(2) b]
  have push: "(push_bit ?j 1 :: u32) = word_of_nat (d + 8 * k)"
    unfolding k(1) [symmetric] by (simp add: push_bit_eq_mult)
  have size: "word_of_nat (n + 1) * 8 + word_of_nat (d + 8 * k) = (word_of_nat (8 * (n + 1) + (d + 8 * k)) :: u32)"
    by (simp add: algebra_simps)
  have n1: "word_of_nat n + 1 = (word_of_nat (n + 1) :: u32)" by simp
  have us: "unat (word_of_nat (8 * (n + 1) + (d + 8 * k)) :: u32) = 8 * (n + 1) + (d + 8 * k)"
    using n(2) b by (intro unat_small) simp
  have ui: "uint (word_of_nat d :: u32) = int d" "uint (word_of_nat (8 * k - 8) :: u32) = 8 * int k - 8"
      "uint (word_of_nat (4 * k - 4) :: u32) = 4 * int k - 4"
      "uint (word_of_nat (d + (4 * k - 4)) :: u32) = int d + (4 * int k - 4)"
      "uint (word_of_nat (d + 8 * k - 1) :: u32) = int d + 8 * int k - 1"
      "uint (word_of_nat (n + 1) :: u32) = int n + 1"
    using uint_small [of d] uint_small [of "8 * k - 8"] uint_small [of "4 * k - 4"]
      uint_small [of "d + (4 * k - 4)"] uint_small [of "d + 8 * k - 1"] uint_small [of "n + 1"] b k(2) n(2)
    by (simp_all only: of_nat_diff of_nat_add of_nat_mult) simp_all
  have q: "q = \<lparr>mem_ptr = replicate (8 * (n + 1) + (d + 8 * k)) 0, pc = 0, sp = int d + (8 * int k - 8),
      bp = word_of_nat (d + (4 * k - 4)), min_sp = int d + (4 * int k - 4), max_sp = int d + (8 * int k - 8),
      min_bp = word_of_nat d, max_bp = word_of_nat (d + (4 * k - 4)),
      len_cs = word_of_nat (n + 1), len_ds = word_of_nat d, len_ss = word_of_nat (8 * k - 8),
      ds_mask = word_of_nat (d + 8 * k - 1)\<rparr>"
    unfolding q_def qvm_layout_def Let_def n(1) d(1) segment_exp_def [symmetric] push w(1) n1 w(2) w(3) w(4) w(5)
      w(6) w(7) size us ui(1-3) by (rule refl)
  show "uint (len_cs q) = int n + 1" by (simp only: q qvm.select_convs ui)
  show "ds_size q = 2 ^ ?j"
    using arg_cong [OF k(1), of int] unfolding ds_size_def q qvm.select_convs ui by simp
  show "qvm_ok q"
    unfolding qvm_ok_def layout_ok_def ds_base_def ds_size_def q qvm.select_convs ui
    using k(2) by simp
  show "max_sp q = 2 ^ ?j - 8" using arg_cong [OF k(1), of int] by (simp add: q)
  show "mem_ptr q = replicate (8 * (n + 1) + 2 ^ ?j) 0" by (simp add: q k(1))
  show "pc q = 0" "sp q = max_sp q" "bp q = max_bp q" by (simp_all add: q)
qed

section \<open>The whole image\<close>

lemma sint_small: "x < 2147483648 \<Longrightarrow> sint (word_of_nat x :: u32) = int x"
  by (simp add: sint_uint uint_small signed_take_bit_int_eq_self)

lemma copy_in_at:
  assumes "raw = pre @ xs @ post" "m = front @ ys @ back" "length ys = length xs"
  shows "copy_in raw (int (length pre)) (int (length xs)) m (int (length front)) = Inr (front @ xs @ back)"
  using assms by (auto simp: copy_in_def slice_def poke_def nat_add_distrib)

lemma load_data_image:
  assumes h: "dataLength h = word_of_nat (length dat)" "litLength h = word_of_nat (length lit)"
      "dataOffset h = word_of_nat (length pre)" "raw = pre @ dat @ lit"
    and len: "length pre < 2147483648" "length dat + length lit < 2147483648" "4 dvd length dat"
    and m: "m = front @ replicate (length dat + length lit) 0 @ back"
  shows "load_data h raw (int (length front)) m = Inr (front @ dat @ lit @ back)"
proof -
  obtain k where k: "length dat = 4 * k" using len(3) by (rule dvdE)
  have "sint (dataLength h) = int (length dat)" "sint (litLength h) = int (length lit)"
      "sint (dataOffset h) = int (length pre)"
    using h len by (simp_all add: sint_small)
  moreover have "4 * max 0 (int (length dat) sdiv 4) = int (length dat)"
    by (simp add: k signed_divide_int_def sgn_if)
  moreover have "copy_in raw (int (length pre)) (int (length dat)) m (int (length front))
      = Inr (front @ dat @ replicate (length lit) 0 @ back)"
    by (rule copy_in_at [of _ pre dat lit _ front "replicate (length dat) 0"]) (simp_all add: h(4) m replicate_add)
  moreover have "copy_in raw (int (length (pre @ dat))) (int (length lit)) (front @ dat @ replicate (length lit) 0 @ back)
      (int (length (front @ dat))) = Inr ((front @ dat) @ lit @ back)"
    by (rule copy_in_at [of _ "pre @ dat" lit "[]" _ "front @ dat" "replicate (length lit) 0"]) (simp_all add: h(4))
  ultimately show ?thesis by (simp add: load_data_def Let_def)
qed

text \<open>Reading back the code segment.\<close>

lemma code_segment_at:
  "int (8 * (length pre + length prog)) < ds_base q \<Longrightarrow>
   mem_ptr q = concat (map code_words pre) @ concat (map code_words prog) @ rest \<Longrightarrow>
   code_at q (2 * int (length pre)) prog"
proof (induction prog arbitrary: pre)
  case (Cons x prog)
  have "mem_ptr q = concat (map code_words (pre @ [x])) @ concat (map code_words prog) @ rest"
    using Cons.prems(2) by simp
  then have "code_at q (2 * int (length (pre @ [x]))) prog" using Cons.prems(1) by (intro Cons.IH) simp_all
  moreover have mem: "length (mem_ptr q) = 8 * length pre + (8 + (8 * length prog + length rest))"
    using Cons.prems(2) by (simp add: code_words_def [of x])
  have "drop (8 * length pre) (mem_ptr q) = code_words x @ concat (map code_words prog) @ rest"
    using Cons.prems(2) by simp
  then have word: "take 4 (drop (8 * length pre) (mem_ptr q)) = le32 (ucast (op_code (fst x)))"
      "take 4 (drop (8 * length pre + 4) (mem_ptr q)) = le32 (snd x)"
    by (simp_all add: code_words_def [of x] drop_drop [symmetric] add.commute del: drop_drop)
  have "read_code q (2 * int (length pre)) = Inr (ucast (op_code (fst x)))"
      "read_code q (2 * int (length pre) + 1) = Inr (snd x)"
    using mem word by (simp_all add: read_code_def slice_def nat_add_distrib nat_mult_distrib)
  moreover have "2 * int (length pre) + 1 < 2 * uint (len_cs q)"
    using Cons.prems(1) by (simp add: ds_base_def)
  ultimately show ?case by (simp add: instr_at_def add.commute)
qed simp

text \<open>
  C19.  Loading an image gives the machine it describes.  For a program of at least one
  instruction whose operands its instructions can hold, and data and literals that leave
  room for the stack and end on a multiple of eight bytes with the zeroed area, \<open>QVM_LoadVM\<close> succeeds on the
  image file; the machine satisfies the invariant, has the program at the start of its code
  segment, its data segment begins with the data and the literals and is zero behind them,
  the stack is empty and the program counter at the first instruction.
\<close>

theorem qvm_load_image:
  assumes "prog \<noteq> []" "\<forall>x\<in>set prog. instr_ok x" "length prog < 2 ^ 25"
    and "4 dvd length dat" "8 dvd length dat + length lit + bss" "length dat + length lit + bss + 262208 \<le> 2 ^ 29"
  shows "\<exists>q. QVM_LoadVM (Some (qvm_image prog dat lit bss)) = Inr (Some q) \<and> qvm_ok q \<and> code_at q 0 prog
    \<and> (\<exists>n. drop (nat (ds_base q)) (mem_ptr q) = dat @ lit @ replicate n 0) \<and> sp q = max_sp q \<and> pc q = 0"
proof -
  let ?n = "length prog" and ?d = "length dat + length lit + bss"
  let ?ws = "image_words prog (length dat) (length lit) bss"
  let ?raw = "qvm_image prog dat lit bss" and ?h = "image_header ?ws" and ?j = "segment_exp ?d"
  define q where "q = qvm_layout ?h"
  have ws: "length ?ws = 8" by (simp add: image_words_def)
  have "length (encode_instr x) \<le> 5" for x by (simp add: encode_instr_def)
  then have "length (concat (map encode_instr xs)) \<le> 5 * length xs" for xs
  proof (induction xs)
    case (Cons x xs)
    then show ?case using Cons.prems [of x] by (simp add: add_le_mono)
  qed simp
  then have code: "length (image_code prog) \<le> 5 * ?n" by (simp add: image_code_def)
  have pos: "0 < length (image_code prog)" using assms(1) by (cases prog) (simp_all add: image_code_def encode_instr_def)
  have hdr: "instructionCount ?h = word_of_nat ?n" "codeOffset ?h = word_of_nat 32"
      "codeLength ?h = word_of_nat (length (image_code prog))"
      "dataOffset ?h = word_of_nat (32 + length (image_code prog))" "dataLength ?h = word_of_nat (length dat)"
      "litLength ?h = word_of_nat (length lit)" "bssLength ?h = word_of_nat bss" "vmMagic ?h = VM_MAGIC"
    by (simp_all add: image_header_def image_words_def numeral_eq_Suc)
  have read: "read_vmHeader ?raw = Inr ?h"
    unfolding qvm_image_def by (rule read_image_header [OF ws]) (simp add: image_words_def)
  have ok: "header_ok ?h"
    using assms(1,3) code pos by (simp add: header_ok_def hdr sint_small)
  have n: "?n + 1 < 2 ^ 26" using assms(3) by simp
  have sum: "dataLength ?h + litLength ?h + bssLength ?h = word_of_nat ?d" by (simp add: hdr)
  note lay = layout_image [OF hdr(1) n sum assms(6,5), folded q_def]
  note j = segment_exp [OF assms(6)]
  have base: "ds_base q = int (length (code_segment prog))"
    using lay(1) by (simp add: ds_base_def code_segment_def)
  have raw: "?raw = concat (map le32 ?ws) @ image_code prog @ (dat @ lit)" by (simp add: qvm_image_def)
  have "load_code ?n ?raw (int (length (concat (map le32 ?ws)))) (int 0) (mem_ptr q)
      = Inr (take 0 (mem_ptr q) @ code_segment prog @ drop (0 + 8 * (?n + 1)) (mem_ptr q))"
    by (rule load_code_image [OF assms(2) raw]) (simp add: lay(3))
  then have load: "load_code (nat (sint (instructionCount ?h))) ?raw (sint (codeOffset ?h)) 0 (mem_ptr q)
      = Inr (code_segment prog @ replicate (2 ^ ?j) 0)"
    using assms(3) ws by (simp add: hdr(1,2) sint_small lay(3) replicate_add)
  define k where "k = 2 ^ ?j - (length dat + length lit)"
  have k: "replicate (2 ^ ?j) (0 :: u8) = replicate (length dat + length lit) 0 @ replicate k 0"
    using j(2) by (simp add: k_def replicate_add [symmetric])
  have lens: "length (concat (map le32 ?ws) @ image_code prog) < 2147483648"
      "length dat + length lit < 2147483648"
    using code assms(3,6) ws by simp_all
  have dat: "load_data ?h ?raw (int (length (code_segment prog))) (code_segment prog @ replicate (2 ^ ?j) 0)
      = Inr (code_segment prog @ dat @ lit @ replicate k 0)"
    by (rule load_data_image [OF hdr(5,6) _ _ lens assms(4)]) (use ws in \<open>simp_all add: hdr(4) raw k\<close>)
  define q' where "q' = q\<lparr>mem_ptr := code_segment prog @ dat @ lit @ replicate k 0\<rparr>"
  have "QVM_LoadVM (Some ?raw) = Inr (Some q')"
    using read ok load dat by (simp add: QVM_LoadVM_def q_def [symmetric] base q'_def)
  moreover have "length (mem_ptr q') = length (mem_ptr q)"
    using j(2) by (simp add: q'_def lay(3) code_segment_def k_def)
  then have "qvm_ok q'"
    using lay(4) by (simp add: q'_def qvm_ok_def layout_ok_def ds_base_def ds_size_def)
  moreover have "code_at q' (2 * int (length ([] :: (qvm_op \<times> u32) list))) prog"
    by (rule code_segment_at) (simp_all add: q'_def ds_base_def lay(1) code_segment_def)
  moreover have "drop (nat (ds_base q')) (mem_ptr q') = dat @ lit @ replicate k 0"
    using base by (simp add: q'_def ds_base_def)
  ultimately show ?thesis using lay(5,6) by (auto simp: q'_def)
qed

text \<open>Three instructions and eight bytes of data.\<close>

theorem qvm_load_image_witness:
  "\<exists>q. QVM_LoadVM (Some (qvm_image [(OP_ENTER, 8), (OP_ARG, 200), (OP_LEAVE, 8)] [1, 2, 3, 4] [5, 6] 2)) = Inr (Some q)
     \<and> qvm_ok q \<and> code_at q 0 [(OP_ENTER, 8), (OP_ARG, 200), (OP_LEAVE, 8)]"
proof -
  let ?p = "[(OP_ENTER, 8), (OP_ARG, 200), (OP_LEAVE, 8)] :: (qvm_op \<times> u32) list"
  let ?d = "[1, 2, 3, 4] :: u8 list" and ?l = "[5, 6] :: u8 list"
  have "?p \<noteq> []" "\<forall>x\<in>set ?p. instr_ok x" "length ?p < 2 ^ 25"
      "4 dvd length ?d" "8 dvd length ?d + length ?l + 2" "length ?d + length ?l + 2 + 262208 \<le> 2 ^ 29"
    by (simp, code_simp, simp, code_simp, code_simp, simp)
  then show ?thesis using qvm_load_image [of ?p ?d ?l 2] by blast
qed

end
