(* ===== verification/Base64.thy ===== *)
theory Base64
  imports Prelude
begin

text \<open>
  The base-64 and base-16 block coders of \<open>engine/common/common.c\<close>.  The code reads a
  C object through a pointer that only moves forwards: here a pointer is the list of the bytes
  from it to the end of the object, and reading behind the object is \<open>Inl OutOfBounds\<close>.  A
  writing pointer is the list of the bytes written so far.
\<close>

section \<open>Reading and writing through a pointer\<close>

fun read_char :: "u8 list \<Rightarrow> u8 res" where
  "read_char [] = Inl OutOfBounds"
| "read_char (c # m) = Inr c"

text \<open>\<open>if (out < end) *out++ = c\<close>, where \<open>cap\<close> bytes lie between the start and \<open>end\<close>.\<close>

definition put_char :: "int \<Rightarrow> u8 list \<Rightarrow> u8 \<Rightarrow> u8 list" where
  "put_char cap out c = (if int (length out) < cap then out @ [c] else out)"

text \<open>\<open>*out++ = c\<close> into an object of \<open>cap\<close> bytes.\<close>

definition put_byte :: "nat \<Rightarrow> u8 list \<Rightarrow> u8 \<Rightarrow> u8 list res" where
  "put_byte cap out c = (if length out < cap then Inr (out @ [c]) else Inl OutOfBounds)"

text \<open>The bytes of a C string: what stands before the terminator.\<close>

definition c_string :: "u8 list \<Rightarrow> u8 list" where
  "c_string m = takeWhile (\<lambda>c. c \<noteq> 0) m"

lemma c_string_terminated [simp]: "0 \<notin> set s \<Longrightarrow> c_string (s @ 0 # r) = s"
  by (induction s) (auto simp: c_string_def)

lemma c_string_id [simp]: "0 \<notin> set s \<Longrightarrow> c_string s = s"
  by (induction s) (auto simp: c_string_def)

lemma c_string_no_nul [simp]: "0 \<notin> set (c_string m)"
  by (induction m) (auto simp: c_string_def)

abbreviation is_cstr :: "u8 list \<Rightarrow> bool" where
  "is_cstr s \<equiv> 0 \<notin> set s"

section \<open>The alphabet\<close>

definition Base64_Encode :: "u32 \<Rightarrow> u8" where
  "Base64_Encode byt =
     (if 0 \<le>s byt \<and> byt <s 26 then ucast (0x41 + byt - 0)
      else if 26 \<le>s byt \<and> byt <s 52 then ucast (0x61 + byt - 26)
      else if 52 \<le>s byt \<and> byt <s 62 then ucast (0x30 + byt - 52)
      else if byt = 62 then 0x2B
      else if byt = 63 then 0x2F
      else 0x21)"

definition Base64_Decode :: "u8 \<Rightarrow> u32" where
  "Base64_Decode inp =
     (if 0x41 \<le> inp \<and> inp \<le> 0x5A then ucast inp - 0x41 + 0
      else if 0x61 \<le> inp \<and> inp \<le> 0x7A then ucast inp - 0x61 + 26
      else if 0x30 \<le> inp \<and> inp \<le> 0x39 then ucast inp - 0x30 + 52
      else if inp = 0x2B then 62
      else if inp = 0x2F then 63
      else 0)"

text \<open>The 6-bit digit \<open>(v >> n) & 63\<close> as a character.\<close>

definition digit64 :: "u32 \<Rightarrow> nat \<Rightarrow> u8" where
  "digit64 v n = Base64_Encode (drop_bit n v AND 63)"

section \<open>Encoding a block\<close>

function encode_block_loop :: "u8 list \<Rightarrow> int \<Rightarrow> u8 list \<Rightarrow> u8 list" where
  "encode_block_loop inp cap out =
     (if length inp > 0 then
        let v = 0;
            v = (if length inp > 0 then v OR push_bit 16 (ucast (inp ! 0)) else v) :: u32;
            v = (if length inp > 1 then v OR push_bit 8 (ucast (inp ! 1)) else v);
            v = (if length inp > 2 then v OR push_bit 0 (ucast (inp ! 2)) else v);
            out = put_char cap out (if length inp \<ge> 1 then digit64 v 18 else 0x3D);
            out = put_char cap out (if length inp \<ge> 1 then digit64 v 12 else 0x3D);
            out = put_char cap out (if length inp \<ge> 2 then digit64 v 6 else 0x3D);
            out = put_char cap out (if length inp \<ge> 3 then digit64 v 0 else 0x3D)
        in if length inp \<le> 3 then out else encode_block_loop (drop 3 inp) cap out
      else out)"
  by pat_completeness auto
termination by (relation "measure (\<lambda>(inp, _, _). length inp)") auto

declare encode_block_loop.simps [simp del]

text \<open>The string written (without its terminator) and whether the terminator was.\<close>

definition Base64_EncodeBlock :: "u8 list \<Rightarrow> nat \<Rightarrow> u8 list \<times> bool" where
  "Base64_EncodeBlock inp outsize =
     (let out = encode_block_loop inp (int outsize - 1) []
      in (out, length out < outsize))"

section \<open>Decoding a block\<close>

fun skip_controls :: "u8 list \<Rightarrow> u8 list res" where
  "skip_controls [] = Inl OutOfBounds"
| "skip_controls (c # m) = (if 0 < c \<and> c < 0x20 then skip_controls m else Inr (c # m))"

lemma skip_controls_length: "skip_controls m = Inr m' \<Longrightarrow> length m' \<le> length m"
  by (induction m) (auto split: if_splits)

lemma skip_controls_Cons: "skip_controls m = Inr m' \<Longrightarrow> \<exists>c r. m' = c # r"
  by (induction m) (auto split: if_splits)

text \<open>
  \<open>in\<close> is the memory from the pointer on, \<open>after\<close> the number of bytes of it that lie at
  or behind \<open>in_end\<close>, \<open>cap\<close> the size of the object \<open>out\<close> points to.
\<close>

function decode_block_loop :: "u8 list \<Rightarrow> nat \<Rightarrow> nat \<Rightarrow> nat \<Rightarrow> u8 list \<Rightarrow> u8 list res" where
  "decode_block_loop inp after cap outsize out =
     (if \<not> outsize > 1 then Inr out else
      rbind (skip_controls inp) (\<lambda>inp. rbind (read_char inp) (\<lambda>c1.
      if length inp \<le> after \<or> c1 = 0 \<or> outsize < 1 then Inr out else
      let v = push_bit 18 (Base64_Decode c1) in
      rbind (skip_controls (tl inp)) (\<lambda>inp. rbind (read_char inp) (\<lambda>c2.
      if length inp \<le> after \<or> c2 = 0 \<or> outsize < 1 then Inr out else
      let v = v OR push_bit 12 (Base64_Decode c2); inp = tl inp in
      rbind (put_byte cap out (ucast (drop_bit 16 v AND 0xff))) (\<lambda>out.
      if length inp \<le> after then Inr out else rbind (read_char inp) (\<lambda>c3.
      if c3 = 0x3D \<or> c3 = 0 \<or> outsize < 2 then Inr out else
      let v = v OR push_bit 6 (Base64_Decode c3); inp = tl inp in
      rbind (put_byte cap out (ucast (drop_bit 8 v AND 0xff))) (\<lambda>out.
      if length inp \<le> after then Inr out else rbind (read_char inp) (\<lambda>c4.
      if c4 = 0x3D \<or> c4 = 0 \<or> outsize < 3 then Inr out else
      let v = v OR push_bit 0 (Base64_Decode c4); inp = tl inp in
      rbind (put_byte cap out (ucast (drop_bit 0 v AND 0xff))) (\<lambda>out.
      decode_block_loop inp after cap (outsize - 3) out))))))))))"
  by pat_completeness auto
termination by (relation "measure (\<lambda>(_, _, _, outsize, _). outsize)") auto

declare decode_block_loop.simps [simp del]

text \<open>
  \<open>in_end\<close> may be null (the string then ends at its terminator); \<open>out\<close> may be null, which
  asks for the space to provide.
\<close>

definition Base64_DecodeBlock ::
    "u8 list \<Rightarrow> nat option \<Rightarrow> nat option \<Rightarrow> nat \<Rightarrow> (u8 list \<times> nat) res" where
  "Base64_DecodeBlock inp in_end out outsize =
     rbind (case in_end of Some n \<Rightarrow> Inr n
            | None \<Rightarrow> if 0 \<in> set inp then Inr (length (c_string inp)) else Inl OutOfBounds) (\<lambda>n.
     case out of None \<Rightarrow> Inr ([], (n + 3) div 4 * 3 + 1)
     | Some cap \<Rightarrow> rbind (decode_block_loop inp (length inp - n) cap outsize []) (\<lambda>out.
         Inr (out, length out)))"

section \<open>Base 16\<close>

definition ishexcode :: "u8 \<Rightarrow> bool" where
  "ishexcode x \<longleftrightarrow> 0x30 \<le> x \<and> x \<le> 0x39 \<or> 0x41 \<le> x \<and> x \<le> 0x46 \<or> 0x61 \<le> x \<and> x \<le> 0x66"

definition dehex :: "u8 \<Rightarrow> u32" where
  "dehex i = (if 0x30 \<le> i \<and> i \<le> 0x39 then ucast i - 0x30
     else if 0x41 \<le> i \<and> i \<le> 0x46 then ucast i - 0x41 + 10
     else ucast i - 0x61 + 10)"

text \<open>\<open>in[1]\<close> is read only when \<open>in[0]\<close> is a hexadecimal digit.\<close>

fun decode16_loop :: "u8 list \<Rightarrow> nat \<Rightarrow> nat \<Rightarrow> u8 list \<Rightarrow> u8 list res" where
  "decode16_loop [] cap outsize out = Inl OutOfBounds"
| "decode16_loop [a] cap outsize out = (if ishexcode a then Inl OutOfBounds else Inr out)"
| "decode16_loop (a # b # m) cap outsize out =
     (if ishexcode a \<and> ishexcode b \<and> outsize > 0
      then rbind (put_byte cap out (ucast (push_bit 4 (dehex a) OR dehex b))) (\<lambda>out.
        decode16_loop m cap (outsize - 1) out)
      else Inr out)"

definition Base16_DecodeBlock :: "u8 list \<Rightarrow> nat option \<Rightarrow> nat \<Rightarrow> (u8 list \<times> nat) res" where
  "Base16_DecodeBlock inp out outsize =
     (case out of
        None \<Rightarrow> if 0 \<in> set inp then Inr ([], (length (c_string inp) + 1) div 2 + 1) else Inl OutOfBounds
      | Some cap \<Rightarrow> rbind (decode16_loop inp cap outsize []) (\<lambda>out. Inr (out, length out)))"

definition tab :: "u8 list" where
  "tab = [0x30, 0x31, 0x32, 0x33, 0x34, 0x35, 0x36, 0x37, 0x38, 0x39, 0x61, 0x62, 0x63, 0x64, 0x65, 0x66]"

fun encode16_loop :: "u8 list \<Rightarrow> nat \<Rightarrow> u8 list \<Rightarrow> u8 list res" where
  "encode16_loop [] cap out = Inr out"
| "encode16_loop (c # inp) cap out =
     rbind (put_byte cap out (tab ! unat (drop_bit 4 c AND 0xf))) (\<lambda>out.
     rbind (put_byte cap out (tab ! unat (drop_bit 0 c AND 0xf))) (\<lambda>out.
     encode16_loop inp cap out))"

text \<open>
  The digits are written whatever \<open>outsize\<close> is, and the terminator is written before them,
  at the start of \<open>out\<close>; only the object's size \<open>cap\<close> bounds the writes.
\<close>

definition Base16_EncodeBlock :: "u8 list \<Rightarrow> nat option \<Rightarrow> nat \<Rightarrow> (u8 list \<times> nat) res" where
  "Base16_EncodeBlock inp out outsize =
     (case out of
        None \<Rightarrow> Inr ([], length inp * 2 + 1)
      | Some cap \<Rightarrow>
          rbind (if outsize > length inp * 2 then put_byte cap [] 0 else Inr []) (\<lambda>_.
          rbind (encode16_loop inp cap []) (\<lambda>out. Inr (out, length out))))"

section \<open>The encoding, as text\<close>

definition quad :: "u8 \<Rightarrow> u8 \<Rightarrow> u8 \<Rightarrow> u32" where
  "quad a b c = push_bit 16 (ucast a) OR push_bit 8 (ucast b) OR ucast c"

fun base64 :: "u8 list \<Rightarrow> u8 list" where
  "base64 [] = []"
| "base64 [a] = [digit64 (quad a 0 0) 18, digit64 (quad a 0 0) 12, 0x3D, 0x3D]"
| "base64 [a, b] = [digit64 (quad a b 0) 18, digit64 (quad a b 0) 12, digit64 (quad a b 0) 6, 0x3D]"
| "base64 (a # b # c # r) = digit64 (quad a b c) 18 # digit64 (quad a b c) 12
     # digit64 (quad a b c) 6 # digit64 (quad a b c) 0 # base64 r"

lemma length_base64: "length (base64 bs) = 4 * ((length bs + 2) div 3)"
proof (induction bs rule: base64.induct)
  case (4 a b c r)
  have "(5 + length r) div 3 = Suc (Suc (length r)) div 3 + 1" by presburger
  with 4 show ?case by simp
qed simp_all

lemma put_char_take: "put_char cap (take (nat cap) out) c = take (nat cap) (out @ [c])"
  by (cases "length out < nat cap") (auto simp: put_char_def)

lemma encode_block_loop_base64:
  "encode_block_loop inp cap (take (nat cap) out) = take (nat cap) (out @ base64 inp)"
proof (induction inp arbitrary: out rule: base64.induct)
  case (4 a b c r)
  show ?case
    apply (subst encode_block_loop.simps)
    apply (cases "r = []")
     apply (simp_all add: Let_def put_char_take quad_def or.assoc 4 del: take_append)
    done
qed (subst encode_block_loop.simps, simp add: Let_def put_char_take quad_def del: take_append)+

lemma Base64_EncodeBlock_base64:
  "Base64_EncodeBlock inp outsize = (take (outsize - 1) (base64 inp), 0 < outsize)"
proof -
  have "nat (int outsize - 1) = outsize - 1" by simp
  then show ?thesis
    using encode_block_loop_base64 [of inp "int outsize - 1" "[]"]
    by (auto simp: Base64_EncodeBlock_def Let_def min_def)
qed

section \<open>Digits\<close>

lemma and_63: "(w :: u32) AND 63 = take_bit 6 w"
  by (simp add: take_bit_eq_mask mask_eq_exp_minus_1)

lemma sextet: "unat (take_bit 6 w :: u32) < 64"
  using take_bit_nat_less_exp [of 6 "unat w"] by (simp add: unsigned_take_bit_eq)

lemma all_digits:
  "list_all (\<lambda>n. let c = Base64_Encode (word_of_nat n) in Base64_Decode c = word_of_nat n
     \<and> 0x2B \<le> c \<and> c \<le> 0x7A \<and> c \<noteq> 0x3D \<and> c \<noteq> 0x5C \<and> c \<noteq> 0x3B) [0..<64]"
  by (simp add: upt_rec Base64_Encode_def Base64_Decode_def word_sless_alt word_sle_eq)

lemma digit64_facts:
  shows "Base64_Decode (digit64 v n) = take_bit 6 (drop_bit n v)"
    and "0x2B \<le> digit64 v n" and "digit64 v n \<le> 0x7A"
    and "digit64 v n \<noteq> 0x3D" and "digit64 v n \<noteq> 0x5C" and "digit64 v n \<noteq> 0x3B"
proof -
  define d where "d = take_bit 6 (drop_bit n v)"
  have "unat d \<in> set [0..<64]" using sextet [of "drop_bit n v"] by (simp add: d_def)
  then have "let c = Base64_Encode (word_of_nat (unat d)) in Base64_Decode c = word_of_nat (unat d)
     \<and> 0x2B \<le> c \<and> c \<le> 0x7A \<and> c \<noteq> 0x3D \<and> c \<noteq> 0x5C \<and> c \<noteq> 0x3B"
    using all_digits unfolding list_all_iff by blast
  then show "Base64_Decode (digit64 v n) = take_bit 6 (drop_bit n v)"
    and "0x2B \<le> digit64 v n" and "digit64 v n \<le> 0x7A"
    and "digit64 v n \<noteq> 0x3D" and "digit64 v n \<noteq> 0x5C" and "digit64 v n \<noteq> 0x3B"
    by (simp_all add: digit64_def and_63 d_def Let_def)
qed

lemma digit64_printable [simp]: "digit64 v n \<noteq> 0" "\<not> digit64 v n < 0x20"
  using digit64_facts(2) [of v n] by (auto simp: word_le_nat_alt word_less_nat_alt)

lemmas digit64_simps [simp] = digit64_facts(1,4)

section \<open>Four digits are three bytes\<close>

lemma quad_bytes:
  "ucast (drop_bit 16 (quad a b c)) = a" "ucast (drop_bit 8 (quad a b c)) = b" "ucast (quad a b c) = c"
  by (rule bit_word_eqI, auto simp: quad_def bit_simps dest: bit_imp_le_length)+

lemma quad_bit: "bit (quad a b c) n \<Longrightarrow> n < 24"
  by (auto simp: quad_def bit_simps dest: bit_imp_le_length)

lemma join_first:
  "(ucast (drop_bit 16 (push_bit 18 (take_bit 6 (drop_bit 18 (q :: u32)))
     OR push_bit 12 (take_bit 6 (drop_bit 12 q)))) :: u8) = ucast (drop_bit 16 q)"
  by (rule bit_word_eqI) (auto simp: bit_simps)

lemma join_second:
  "(ucast (drop_bit 8 ((push_bit 18 (take_bit 6 (drop_bit 18 (q :: u32)))
     OR push_bit 12 (take_bit 6 (drop_bit 12 q))) OR push_bit 6 (take_bit 6 (drop_bit 6 q)))) :: u8)
   = ucast (drop_bit 8 q)"
  by (rule bit_word_eqI) (auto simp: bit_simps)

lemma join_third:
  "(ucast (((push_bit 18 (take_bit 6 (drop_bit 18 (q :: u32)))
     OR push_bit 12 (take_bit 6 (drop_bit 12 q))) OR push_bit 6 (take_bit 6 (drop_bit 6 q))) OR take_bit 6 q) :: u8)
   = ucast q"
  by (rule bit_word_eqI) (auto simp: bit_simps)

section \<open>Decoding what was encoded\<close>

lemma base64_not_control:
  "base64 bs = c # r \<Longrightarrow> \<not> c < 0x20"
  by (induction bs rule: base64.induct) auto

lemma decode_block_base64:
  assumes "length out + length bs \<le> cap" "length bs < outsize"
  shows "decode_block_loop (base64 bs @ 0 # post) (Suc (length post)) cap outsize out = Inr (out @ bs)"
  using assms
proof (induction bs arbitrary: out outsize rule: base64.induct)
  case 1
  show ?case by (subst decode_block_loop.simps) simp
next
  case (2 a)
  then show ?case
    by (subst decode_block_loop.simps) (simp add: Let_def put_byte_def join_first quad_bytes ucast_and_255 del: drop_bit_or)
next
  case (3 a b)
  then show ?case
    by (subst decode_block_loop.simps)
      (simp add: Let_def put_byte_def join_first join_second quad_bytes ucast_and_255 del: drop_bit_or)
next
  case (4 a b c r)
  then show ?case
    by (subst decode_block_loop.simps)
      (simp add: Let_def put_byte_def join_first join_second join_third quad_bytes ucast_and_255 del: drop_bit_or)
qed

lemma skip_controls_total: "0 \<in> set m \<Longrightarrow> \<exists>c r. skip_controls m = Inr (c # r) \<and> 0 \<in> set (c # r)"
  by (induction m) auto

lemma decode_block_bounded:
  assumes "0 \<in> set inp" "length out + outsize \<le> cap"
  shows "\<exists>bs. decode_block_loop inp after cap outsize out = Inr (out @ bs) \<and> length bs \<le> outsize"
  using assms
proof (induction outsize arbitrary: inp out rule: less_induct)
  case (less outsize)
  obtain c1 m1 where s1: "skip_controls inp = Inr (c1 # m1)" "0 \<in> set (c1 # m1)"
    using skip_controls_total [OF less.prems(1)] by blast
  show ?case
  proof (cases "outsize > 1 \<and> length (c1 # m1) > after \<and> c1 \<noteq> 0")
    case True
    then obtain c2 m2 where s2: "skip_controls m1 = Inr (c2 # m2)" "0 \<in> set (c2 # m2)"
      using skip_controls_total [of m1] s1(2) by auto
    show ?thesis
    proof (cases "length (c2 # m2) > after \<and> c2 \<noteq> 0")
      case c2: True
      then obtain c3 m3 where m3: "m2 = c3 # m3" using s2(2) by (cases m2) auto
      show ?thesis
      proof (cases "length m2 > after \<and> c3 \<noteq> 0x3D \<and> c3 \<noteq> 0")
        case c3: True
        then obtain c4 m4 where m4: "m3 = c4 # m4" using s2(2) c2 m3 by (cases m3) auto
        show ?thesis
        proof (cases "length m3 > after \<and> c4 \<noteq> 0x3D \<and> c4 \<noteq> 0 \<and> \<not> outsize < 3")
          case c4: True
          have "0 \<in> set m4" using s2(2) c2 c3 c4 m3 m4 by auto
          then have "\<exists>bs. decode_block_loop m4 after cap (outsize - 3) (out @ [x, y, z]) = Inr ((out @ [x, y, z]) @ bs)
              \<and> length bs \<le> outsize - 3" for x y z
            using less.IH [of "outsize - 3" m4 "out @ [x, y, z]"] c4 True less.prems(2) by auto
          then obtain bs where "\<And>x y z. decode_block_loop m4 after cap (outsize - 3) (out @ [x, y, z])
              = Inr ((out @ [x, y, z]) @ bs x y z) \<and> length (bs x y z) \<le> outsize - 3"
            by metis
          moreover have "Suc (Suc (Suc (length (bs x y z)))) \<le> outsize" for x y z
            using calculation [of x y z] c4 by linarith
          ultimately show ?thesis
            using True c2 c3 c4 s1 s2 m3 m4 less.prems(2)
            by (subst decode_block_loop.simps) (simp add: Let_def put_byte_def)
        qed (use True c2 c3 s1 s2 m3 m4 less.prems(2) in
            \<open>subst decode_block_loop.simps, auto simp: Let_def put_byte_def\<close>)
      qed (use True c2 s1 s2 m3 less.prems(2) in
          \<open>subst decode_block_loop.simps, auto simp: Let_def put_byte_def\<close>)
    qed (use True s1 s2 in \<open>subst decode_block_loop.simps, auto simp: Let_def\<close>)
  qed (use s1 in \<open>subst decode_block_loop.simps, auto simp: Let_def\<close>)
qed

section \<open>Hexadecimal digits\<close>

definition base16 :: "u8 list \<Rightarrow> u8 list" where
  "base16 bs = concat (map (\<lambda>c. [tab ! unat (drop_bit 4 c), tab ! unat (c AND 0xf)]) bs)"

lemma length_base16 [simp]: "length (base16 bs) = 2 * length bs"
  by (induction bs) (simp_all add: base16_def)

lemma base16_Nil [simp]: "base16 [] = []"
  by (simp add: base16_def)

lemma all_hex_digits:
  "list_all (\<lambda>n. ishexcode (tab ! n) \<and> dehex (tab ! n) = word_of_nat n) [0..<16]"
  by (simp add: upt_rec tab_def ishexcode_def dehex_def)

lemma hex_digit:
  "n < 16 \<Longrightarrow> ishexcode (tab ! n) \<and> dehex (tab ! n) = word_of_nat n"
  using all_hex_digits unfolding list_all_iff by simp

lemma and_15: "(c :: u8) AND 15 = take_bit 4 c"
  by (simp add: take_bit_eq_mask mask_eq_exp_minus_1)

lemma high_nibble [simp]: "drop_bit 4 (c :: u8) AND 15 = drop_bit 4 c"
  unfolding and_15 by (rule bit_word_eqI) (auto simp: bit_simps dest: bit_imp_le_length)

lemma nibbles_less: "unat (drop_bit 4 (c :: u8)) < 16" "unat (take_bit 4 (c :: u8)) < 16"
proof -
  have "unat c < 256" using unsigned_less [of c, where ?'a = nat] by simp
  then have "drop_bit 4 (unat c) < 16" by (simp add: drop_bit_eq_div)
  then show "unat (drop_bit 4 c) < 16" by (simp only: unat_drop_bit_eq)
  show "unat (take_bit 4 c) < 16"
    using take_bit_nat_less_exp [of 4 "unat c"] by (simp add: unsigned_take_bit_eq)
qed

lemma nibbles_join:
  "(ucast (push_bit 4 (ucast (drop_bit 4 (c :: u8)) :: u32) OR ucast (take_bit 4 c)) :: u8) = c"
  by (rule bit_word_eqI) (auto simp: bit_simps)

lemma encode16_base16:
  "encode16_loop bs cap out =
     (if bs = [] \<or> length out + 2 * length bs \<le> cap then Inr (out @ base16 bs) else Inl OutOfBounds)"
proof (induction bs arbitrary: out)
  case (Cons c bs)
  then show ?case by (auto simp: put_byte_def base16_def)
qed (simp add: base16_def)

lemma decode16_base16:
  assumes "length out + length bs \<le> cap" "length bs \<le> outsize"
  shows "decode16_loop (base16 bs @ 0 # post) cap outsize out = Inr (out @ bs)"
  using assms
proof (induction bs arbitrary: out outsize)
  case Nil
  show ?case by (cases post) (simp_all add: base16_def ishexcode_def)
next
  case (Cons c bs)
  have "ucast (push_bit 4 (dehex (tab ! unat (drop_bit 4 c))) OR dehex (tab ! unat (c AND 0xf))) = c"
    using hex_digit [OF nibbles_less(1) [of c]] hex_digit [OF nibbles_less(2) [of c]] nibbles_join [of c]
    by (simp add: and_15)
  moreover have "ishexcode (tab ! unat (drop_bit 4 c))" "ishexcode (tab ! unat (c AND 0xf))"
    using hex_digit nibbles_less [of c] by (auto simp: and_15)
  ultimately show ?case
    using Cons by (simp add: base16_def put_byte_def)
qed

section \<open>Properties\<close>

text \<open>
  C21. Base-64 blocks survive the wire: whatever bytes are encoded, when the encoder's buffer holds
  the text and its terminator, and the decoder's buffer one byte more than the data (the
  spare byte its own size estimate asks for), decoding the text gives the bytes back and their
  number, whether the end of the text is passed or found at the terminator.
\<close>

theorem base64_block_roundtrip:
  assumes "4 * ((length bs + 2) div 3) < encsize" "length bs < decsize" "decsize \<le> cap"
  shows "Base64_EncodeBlock bs encsize = (base64 bs, True) \<and>
    Base64_DecodeBlock (base64 bs @ [0]) None (Some cap) decsize = Inr (bs, length bs) \<and>
    Base64_DecodeBlock (base64 bs @ 0 # post) (Some (length (base64 bs))) (Some cap) decsize = Inr (bs, length bs)"
proof -
  have "take (encsize - 1) (base64 bs) = base64 bs"
    using assms(1) by (simp add: length_base64)
  moreover have "0 \<notin> set (base64 bs)"
    by (induction bs rule: base64.induct) auto
  then have "c_string (base64 bs @ [0]) = base64 bs"
    by (rule c_string_terminated)
  moreover have dec: "decode_block_loop (base64 bs @ 0 # p) (Suc (length p)) cap decsize [] = Inr bs" for p
    using decode_block_base64 [of "[]" bs cap decsize p] assms(2,3) by simp
  ultimately show ?thesis
    using assms(1) dec [of "[]"] by (simp add: Base64_EncodeBlock_base64 Base64_DecodeBlock_def)
qed

theorem base64_block_roundtrip_witness:
  "Base64_DecodeBlock (base64 [0xDE, 0xAD, 0xBE, 0xEF] @ [0]) None (Some 5) 5 = Inr ([0xDE, 0xAD, 0xBE, 0xEF], 4)"
  using base64_block_roundtrip [of "[0xDE, 0xAD, 0xBE, 0xEF]" 9 5 5] by simp

text \<open>
  C22. A base-64 decoder can be given anything: on every terminated input and every claimed
  end, with any output size that fits the output object, it returns, reads nothing behind the
  object that holds the terminator, and writes at most \<open>outsize\<close> bytes.
\<close>

theorem base64_decode_bounded:
  assumes "0 \<in> set inp" "outsize \<le> cap"
  shows "\<exists>bs. Base64_DecodeBlock inp in_end (Some cap) outsize = Inr (bs, length bs) \<and> length bs \<le> outsize"
proof -
  obtain n where "(case in_end of Some n \<Rightarrow> Inr n
      | None \<Rightarrow> if 0 \<in> set inp then Inr (length (c_string inp)) else Inl OutOfBounds) = (Inr n :: nat res)"
    using assms(1) by (cases in_end) auto
  then show ?thesis
    using decode_block_bounded [of inp "[]" outsize cap "length inp - n"] assms
    by (fastforce simp: Base64_DecodeBlock_def)
qed

theorem base64_decode_bounded_witness:
  "\<exists>bs. Base64_DecodeBlock [0x41, 0x3D, 0xFF, 0x0A, 0] (Some 77) (Some 2) 2 = Inr (bs, length bs) \<and> length bs \<le> 2"
  using base64_decode_bounded [of "[0x41, 0x3D, 0xFF, 0x0A, 0]" 2 2 "Some 77"] by simp

text \<open>
  Base-16 digits survive as well: with room for two digits per byte, decoding the encoder's
  output, terminated, into an object that holds the data gives the data back.  The encoder itself does
  not look at \<open>outsize\<close>: whatever it is told, it leaves an output object with less room
  than that.
\<close>

theorem base16_roundtrip_unless_overrun:
  "Base16_EncodeBlock bs (Some cap) outsize =
     (if 2 * length bs \<le> cap \<and> (2 * length bs < outsize \<longrightarrow> 0 < cap)
      then Inr (base16 bs, 2 * length bs) else Inl OutOfBounds) \<and>
   Base16_DecodeBlock (base16 bs @ 0 # post) (Some (length bs)) (length bs) = Inr (bs, length bs)"
  using decode16_base16 [of "[]" bs "length bs" "length bs" post] encode16_base16 [of bs cap "[]"]
  by (auto simp: Base16_EncodeBlock_def Base16_DecodeBlock_def put_byte_def)

theorem base16_roundtrip_unless_overrun_witness:
  "Base16_EncodeBlock [0xDE, 0x5A] (Some 4) 5 = Inr ([0x64, 0x65, 0x35, 0x61], 4)
   \<and> Base16_EncodeBlock [0xDE, 0x5A] (Some 2) 2 = Inl OutOfBounds"
  using base16_roundtrip_unless_overrun [of "[0xDE, 0x5A]" 4 5 "[]"]
    base16_roundtrip_unless_overrun [of "[0xDE, 0x5A]" 2 2 "[]"]
  by (simp add: base16_def tab_def)

end
