(* ===== verification/InfoBuf.thy ===== *)
theory InfoBuf
  imports Base64
begin

text \<open>
  Info buffers (\<open>infobuf_t\<close> of \<open>engine/common/common.h\<close>, the functions \<open>InfoBuf_*\<close> of
  \<open>common.c\<close>): the store of a player's or a server's key/value pairs.  A key is a C string (a
  byte list without a zero), a value any bytes.  The value's memory is an object of
  \<open>buffersize\<close> bytes of which the first \<open>size\<close> are the value; a null pointer is the
  empty object.  Memory for keys and values is there when it is asked for (\<open>BZ_Realloc\<close> ends the
  program otherwise).
\<close>

section \<open>Data\<close>

record infokey_s =
  partial :: bool
  large :: bool
  key_name :: "u8 list"
  key_size :: nat
  buffersize :: nat
  key_value :: "u8 list"

text \<open>
  \<open>totalsize\<close> is a \<open>size_t\<close> and wraps.  \<open>ChangeCB\<close> is \<open>None\<close> for a null
  callback, else the keys it has been called with, in order.
\<close>

record infobuf =
  keys :: "infokey_s list"
  totalsize :: u64
  ChangeCB :: "u8 list list option"

definition call_ChangeCB :: "u8 list \<Rightarrow> infobuf \<Rightarrow> infobuf" where
  "call_ChangeCB key info = info\<lparr>ChangeCB := map_option (\<lambda>l. l @ [key]) (ChangeCB info)\<rparr>"

text \<open>\<open>ZF_ReallocElements\<close> on bytes: what is new is zero.\<close>

definition realloc_bytes :: "u8 list \<Rightarrow> nat \<Rightarrow> u8 list" where
  "realloc_bytes m n = take n m @ replicate (n - length m) 0"

definition new_key :: infokey_s where
  "new_key = \<lparr>partial = False, large = False, key_name = [], key_size = 0, buffersize = 0, key_value = []\<rparr>"

definition first_char :: "u8 list \<Rightarrow> u8" where
  "first_char s = (case s of [] \<Rightarrow> 0 | c # _ \<Rightarrow> c)"

section \<open>Encoding of keys and values\<close>

definition needs_encoding_char :: "u8 \<Rightarrow> bool" where
  "needs_encoding_char c \<longleftrightarrow> c = 255 \<or> c = 0x5C \<or> c = 0x22 \<or> c = 0x0A \<or> c = 0x0D \<or> c = 0
     \<or> c = 0x24 \<or> c = 0x3B"

fun InfoBuf_NeedsEncoding :: "u8 list \<Rightarrow> bool" where
  "InfoBuf_NeedsEncoding [] = False"
| "InfoBuf_NeedsEncoding (c # s) = (if needs_encoding_char c then True else InfoBuf_NeedsEncoding s)"

text \<open>The bit reservoir \<open>base64_cur\<close>, \<open>base64_bits\<close>, the count \<open>r\<close> and the output.\<close>

fun encode_bits_loop :: "u8 list \<Rightarrow> int \<Rightarrow> u32 \<Rightarrow> nat \<Rightarrow> nat \<Rightarrow> u8 list \<Rightarrow> u32 \<times> nat \<times> nat \<times> u8 list" where
  "encode_bits_loop [] cap cur bits r out = (cur, bits, r, out)"
| "encode_bits_loop (c # n) cap cur bits r out =
     (let cur = cur OR push_bit (16 - bits) (ucast c); bits = bits + 8 in
      if bits = 24 then
        let out = put_char cap out (digit64 cur 18);
            out = put_char cap out (digit64 cur 12);
            out = put_char cap out (digit64 cur 6);
            out = put_char cap out (digit64 cur 0)
        in encode_bits_loop n cap 0 0 (r + 4) out
      else encode_bits_loop n cap cur bits r out)"

fun encode_plain_loop :: "u8 list \<Rightarrow> int \<Rightarrow> nat \<Rightarrow> u8 list \<Rightarrow> nat \<times> u8 list" where
  "encode_plain_loop [] cap r out = (r, out)"
| "encode_plain_loop (c # n) cap r out = encode_plain_loop n cap (r + 1) (put_char cap out c)"

text \<open>
  \<open>cap\<close> bytes lie between the start of the buffer and \<open>end\<close>; \<open>out\<close> is what stands
  before the pointer \<open>out\<close>.  The length the code counts, and the buffer after the writes.
\<close>

definition InfoBuf_EncodeString_Internal :: "u8 list \<Rightarrow> int \<Rightarrow> u8 list \<Rightarrow> nat \<times> u8 list" where
  "InfoBuf_EncodeString_Internal n cap out =
     (if InfoBuf_NeedsEncoding n then
        let out = put_char cap out 255; (cur, bits, r, out) = encode_bits_loop n cap 0 0 1 out in
        if bits \<noteq> 0 then
          let out = put_char cap out (digit64 cur 18); out = put_char cap out (digit64 cur 12) in
          if bits = 8 then (r + 4, put_char cap (put_char cap out 0x3D) 0x3D)
          else
            let out = put_char cap out (digit64 cur 6) in
            if bits = 16 then (r + 4, put_char cap out 0x3D)
            else (r + 4, put_char cap out (digit64 cur 0))
        else (r, out)
      else encode_plain_loop n cap 0 out)"

text \<open>The result and the string left in the output buffer.\<close>

definition InfoBuf_EncodeString :: "u8 list \<Rightarrow> nat \<Rightarrow> (bool \<times> u8 list) res" where
  "InfoBuf_EncodeString n outsize =
     (let (l, out) = InfoBuf_EncodeString_Internal n (int outsize) [] in
      if l < outsize then Inr (True, out)
      else if outsize = 0 then Inl OutOfBounds else Inr (False, []))"

definition InfoBuf_EncodeString_Malloc :: "u8 list \<Rightarrow> u8 list res" where
  "InfoBuf_EncodeString_Malloc n =
     (let (l, _) = InfoBuf_EncodeString_Internal n 0 [];
          (l', ret) = InfoBuf_EncodeString_Internal n (int l) []
      in if l \<noteq> l' then Inl (Sys_Error ''InfoBuf_EncodeString_Malloc: error'') else Inr ret)"

definition InfoBuf_EncodeStringSlash :: "u8 list \<Rightarrow> int \<Rightarrow> u8 list \<Rightarrow> nat \<times> u8 list" where
  "InfoBuf_EncodeStringSlash n cap out =
     (let (l, out) = InfoBuf_EncodeString_Internal n cap (put_char cap out 0x5C) in (1 + l, out))"

text \<open>
  \<open>m\<close> is the memory from \<open>instart\<close> on, \<open>after\<close> the number of its bytes at or
  behind \<open>inend\<close>; \<open>ret\<close> is an object of \<open>inend - instart + 1\<close> bytes.
\<close>

function decode_string_loop :: "u8 list \<Rightarrow> nat \<Rightarrow> nat \<Rightarrow> u8 list \<Rightarrow> u8 list res" where
  "decode_string_loop m after cap ret =
     (if \<not> length m > after + 1 then Inr ret else
      rbind (read_char m) (\<lambda>c1. rbind (read_char (tl m)) (\<lambda>c2.
      let v = push_bit 18 (Base64_Decode c1) OR push_bit 12 (Base64_Decode c2); m = tl (tl m) in
      rbind (put_byte cap ret (ucast (drop_bit 16 v AND 0xff))) (\<lambda>ret.
      if length m \<le> after then Inr ret else rbind (read_char m) (\<lambda>c3.
      if c3 = 0x3D then Inr ret else
      let v = v OR push_bit 6 (Base64_Decode c3); m = tl m in
      rbind (put_byte cap ret (ucast (drop_bit 8 v AND 0xff))) (\<lambda>ret.
      if length m \<le> after then Inr ret else rbind (read_char m) (\<lambda>c4.
      if c4 = 0x3D then Inr ret else
      let v = v OR push_bit 0 (Base64_Decode c4); m = tl m in
      rbind (put_byte cap ret (ucast (drop_bit 0 v AND 0xff))) (\<lambda>ret.
      decode_string_loop m after cap ret))))))))"
  by pat_completeness auto
termination by (relation "measure (\<lambda>(m, _). length m)") auto

declare decode_string_loop.simps [simp del]

definition InfoBuf_DecodeString :: "u8 list \<Rightarrow> nat \<Rightarrow> u8 list res" where
  "InfoBuf_DecodeString m after =
     (let n = length m - after; cap = n + 1 in
      rbind (read_char m) (\<lambda>c.
      if c = 255 then
        rbind (decode_string_loop (tl m) after cap []) (\<lambda>ret.
        if length ret < cap then Inr ret else Inl OutOfBounds)
      else if after \<le> length m then Inr (take n m) else Inl OutOfBounds))"

section \<open>Looking keys up\<close>

fun find_key_loop :: "infokey_s list \<Rightarrow> u8 list \<Rightarrow> nat \<Rightarrow> nat option" where
  "find_key_loop [] key k = None"
| "find_key_loop (x # xs) key k = (if key_name x = key then Some k else find_key_loop xs key (k + 1))"

definition InfoBuf_FindKey :: "infobuf \<Rightarrow> u8 list \<Rightarrow> nat option" where
  "InfoBuf_FindKey info key = find_key_loop (keys info) key 0"

definition InfoBuf_KeyForNumber :: "infobuf \<Rightarrow> int \<Rightarrow> u8 list option" where
  "InfoBuf_KeyForNumber info idx =
     (if idx \<ge> 0 \<and> idx < int (length (keys info)) then Some (key_name (keys info ! nat idx)) else None)"

text \<open>The string left in \<open>outbuf\<close>, which \<open>Q_strncpyz\<close> cuts to \<open>outsize - 1\<close> bytes.\<close>

definition InfoBuf_ReadKey :: "infobuf \<Rightarrow> u8 list \<Rightarrow> nat \<Rightarrow> u8 list" where
  "InfoBuf_ReadKey info key outsize =
     (case InfoBuf_FindKey info key of
        Some k \<Rightarrow> if \<not> partial (keys info ! k)
          then take (outsize - 1) (c_string (key_value (keys info ! k))) else []
      | None \<Rightarrow> [])"

definition InfoBuf_ValueForKey :: "infobuf \<Rightarrow> u8 list \<Rightarrow> u8 list" where
  "InfoBuf_ValueForKey info key = InfoBuf_ReadKey info key 1024"

text \<open>The value (\<open>None\<close> for the null pointer, else the bytes \<open>blobsize\<close> counts) and \<open>*large\<close>.\<close>

definition InfoBuf_BlobForKey :: "infobuf \<Rightarrow> u8 list \<Rightarrow> u8 list option \<times> bool" where
  "InfoBuf_BlobForKey info key =
     (case InfoBuf_FindKey info key of
        Some k \<Rightarrow> if \<not> partial (keys info ! k)
          then (Some (take (key_size (keys info ! k)) (key_value (keys info ! k))), large (keys info ! k))
          else (None, InfoBuf_NeedsEncoding key)
      | None \<Rightarrow> (None, InfoBuf_NeedsEncoding key))"

section \<open>Changing keys\<close>

definition delete_at :: "nat \<Rightarrow> 'a list \<Rightarrow> 'a list" where
  "delete_at k xs = take k xs @ drop (k + 1) xs"

definition InfoBuf_RemoveKey :: "infobuf \<Rightarrow> u8 list \<Rightarrow> bool \<times> infobuf" where
  "InfoBuf_RemoveKey info key =
     (case InfoBuf_FindKey info key of
        Some k \<Rightarrow>
          let x = keys info ! k; kn = key_name x in
          (True, call_ChangeCB kn (info\<lparr>
             totalsize := totalsize info - word_of_nat (length (key_name x) + 2) - word_of_nat (key_size x),
             keys := delete_at k (keys info)\<rparr>))
      | None \<Rightarrow> (False, info))"

definition InfoBuf_IsLarge :: "infokey_s \<Rightarrow> bool" where
  "InfoBuf_IsLarge key =
     (if partial key then True
      else if key_size key \<ge> 64 then True
      else let namesize = length (key_name key) in
        if namesize \<ge> 64 then True
        else if InfoBuf_NeedsEncoding (key_name key) then True
        else if InfoBuf_NeedsEncoding (take (key_size key) (key_value key)) then True
        else False)"

text \<open>A new last entry for \<open>key\<close>: \<open>ZF_ReallocElements\<close> clears it.\<close>

definition append_key :: "u8 list \<Rightarrow> infobuf \<Rightarrow> infobuf" where
  "append_key key info = info\<lparr>keys := keys info @ [new_key\<lparr>key_name := key\<rparr>],
     totalsize := totalsize info + word_of_nat (length key + 2)\<rparr>"

text \<open>The memory for the value before the bytes are copied in.\<close>

definition grow_value :: "nat \<Rightarrow> bool \<Rightarrow> infokey_s \<Rightarrow> infokey_s" where
  "grow_value newsize final x =
     (if final then x\<lparr>key_value := realloc_bytes (key_value x) (newsize + 1), buffersize := newsize + 1\<rparr>
      else if buffersize x < newsize + 1 then
        x\<lparr>key_value := realloc_bytes (key_value x) (newsize * 2 + 1), buffersize := newsize * 2 + 1\<rparr>
      else x)"

definition receive_into :: "nat \<Rightarrow> u8 list \<Rightarrow> nat \<Rightarrow> bool \<Rightarrow> u8 list \<Rightarrow> infobuf \<Rightarrow> (bool \<times> infobuf) res" where
  "receive_into k val offset final key info =
     (let newsize = offset + length val; x = grow_value newsize final (keys info ! k) in
      rbind (poke (key_value x) (int offset) val) (\<lambda>v.
      rbind (poke v (int newsize) [0]) (\<lambda>v.
      let x = x\<lparr>key_value := v, key_size := newsize, partial := \<not> final\<rparr>;
          x = x\<lparr>large := InfoBuf_IsLarge x\<rparr>;
          info = info\<lparr>keys := (keys info)[k := x], totalsize := totalsize info + word_of_nat (key_size x)\<rparr>
      in Inr (True, if final then call_ChangeCB key info else info))))"

definition InfoBuf_SyncReceive ::
    "infobuf \<Rightarrow> u8 list \<Rightarrow> u8 list \<Rightarrow> nat \<Rightarrow> bool \<Rightarrow> (bool \<times> infobuf) res" where
  "InfoBuf_SyncReceive info key val offset final =
     (case InfoBuf_FindKey info key of
        None \<Rightarrow>
          if val = [] then Inr (False, info)
          else if offset \<noteq> 0 then Inr (False, info)
          else receive_into (length (keys info)) val offset final key (append_key key info)
      | Some k \<Rightarrow>
          if val = [] then Inr (InfoBuf_RemoveKey info key)
          else if offset \<noteq> 0 \<and> offset \<noteq> key_size (keys info ! k) then Inr (InfoBuf_RemoveKey info key)
          else receive_into k val offset final key
                 (info\<lparr>totalsize := totalsize info - word_of_nat (key_size (keys info ! k))\<rparr>))"

definition store_value :: "nat \<Rightarrow> u8 list \<Rightarrow> u8 list \<Rightarrow> infobuf \<Rightarrow> bool \<times> infobuf" where
  "store_value k val key info =
     (let x = (keys info ! k)\<lparr>buffersize := length val + 1, key_size := length val,
            key_value := val @ [0], partial := False\<rparr>;
          x = x\<lparr>large := InfoBuf_IsLarge x\<rparr>
      in (True, call_ChangeCB key (info\<lparr>keys := (keys info)[k := x],
            totalsize := totalsize info + word_of_nat (key_size x)\<rparr>)))"

text \<open>\<open>None\<close> is the null pointer, which reads as the empty value.\<close>

definition InfoBuf_SetStarBlobKey :: "infobuf \<Rightarrow> u8 list \<Rightarrow> u8 list option \<Rightarrow> bool \<times> infobuf" where
  "InfoBuf_SetStarBlobKey info key val0 =
     (let val = (case val0 of None \<Rightarrow> [] | Some v \<Rightarrow> v) in
      case InfoBuf_FindKey info key of
        None \<Rightarrow>
          if val = [] then (False, info)
          else store_value (length (keys info)) val key (append_key key info)
      | Some k \<Rightarrow>
          if val = [] then InfoBuf_RemoveKey info key
          else if key_size (keys info ! k) = length val \<and> take (length val) (key_value (keys info ! k)) = val
          then (False, info)
          else store_value k val key
                 (info\<lparr>totalsize := totalsize info - word_of_nat (key_size (keys info ! k))\<rparr>))"

definition InfoBuf_SetKey :: "infobuf \<Rightarrow> u8 list \<Rightarrow> u8 list \<Rightarrow> bool \<times> infobuf" where
  "InfoBuf_SetKey info key val =
     (if first_char key = 0x2A then (False, info)
      else InfoBuf_SetStarBlobKey info key (Some (c_string val)))"

definition InfoBuf_SetStarKey :: "infobuf \<Rightarrow> u8 list \<Rightarrow> u8 list \<Rightarrow> bool \<times> infobuf" where
  "InfoBuf_SetStarKey info key val = InfoBuf_SetStarBlobKey info key (Some (c_string val))"

section \<open>Whole buffers\<close>

text \<open>The loop runs from the last key to the first.\<close>

fun clear_loop :: "bool \<Rightarrow> nat \<Rightarrow> infokey_s list \<Rightarrow> infokey_s list" where
  "clear_loop all 0 ks = ks"
| "clear_loop all (Suc k) ks =
     clear_loop all k (if all \<or> first_char (key_name (ks ! k)) \<noteq> 0x2A then delete_at k ks else ks)"

definition InfoBuf_Clear :: "infobuf \<Rightarrow> bool \<Rightarrow> infobuf" where
  "InfoBuf_Clear info all =
     info\<lparr>keys := clear_loop all (length (keys info)) (keys info), totalsize := 0\<rparr>"

text \<open>
  The copies are malloced, not cleared: \<open>junk\<close> is what \<open>buffersize\<close> of the copies then holds, for
  the code does not set it.
\<close>

definition clone_key :: "nat \<Rightarrow> infokey_s \<Rightarrow> infokey_s" where
  "clone_key junk x = \<lparr>partial = partial x, large = large x, key_name = key_name x, key_size = key_size x,
     buffersize = junk, key_value = take (key_size x) (key_value x) @ [0]\<rparr>"

definition key_total :: "infokey_s \<Rightarrow> u64" where
  "key_total x = word_of_nat (length (key_name x) + 2 + key_size x)"

definition InfoBuf_Clone :: "nat \<Rightarrow> infobuf \<Rightarrow> infobuf \<Rightarrow> infobuf" where
  "InfoBuf_Clone junk dest src =
     (let dest = InfoBuf_Clear dest True; ks = map (clone_key junk) (keys src)
      in dest\<lparr>keys := ks, totalsize := fold (\<lambda>x t. t + key_total x) ks (totalsize dest)\<rparr>)"

text \<open>To the next backslash or the terminator.\<close>

definition to_slash :: "u8 list \<Rightarrow> u8 list" where
  "to_slash m = dropWhile (\<lambda>c. c \<noteq> 0 \<and> c \<noteq> 0x5C) m"

lemma to_slash_length: "length (to_slash m) \<le> length m"
  by (simp add: to_slash_def length_dropWhile_le)

function from_string_loop :: "infobuf \<Rightarrow> u8 list \<Rightarrow> infobuf res" where
  "from_string_loop info [] = Inl OutOfBounds"
| "from_string_loop info (c # keystart) =
     (if c \<noteq> 0x5C then Inr info else
      case to_slash keystart of
        [] \<Rightarrow> Inl OutOfBounds
      | d # valstart \<Rightarrow>
          if d \<noteq> 0x5C then Inr info else
          let valend = to_slash valstart in
          if valend = [] then Inl OutOfBounds else
          rbind (InfoBuf_DecodeString keystart (length (d # valstart))) (\<lambda>key.
          rbind (InfoBuf_DecodeString valstart (length valend)) (\<lambda>val.
          from_string_loop (snd (InfoBuf_SetStarBlobKey info (c_string key) (Some val))) valend)))"
  by pat_completeness auto
termination
proof (relation "measure (\<lambda>(info, m). length m)", simp, clarsimp)
  fix keystart valstart
  assume "to_slash keystart = 0x5C # valstart"
  then show "length (to_slash valstart) < Suc (length keystart)"
    using to_slash_length [of keystart] to_slash_length [of valstart] by simp
qed

definition InfoBuf_FromString :: "infobuf \<Rightarrow> u8 list \<Rightarrow> bool \<Rightarrow> infobuf res" where
  "InfoBuf_FromString info infostring appending =
     from_string_loop (if \<not> appending then InfoBuf_Clear info True else info) infostring"

section \<open>Keys to send\<close>

text \<open>
  \<open>infosync_t\<close>: the keys somebody still has to be told, each with the buffer it belongs to
  (\<open>void *context\<close>, here a number) and how much of its value went out already.
\<close>

record synckey =
  sync_context :: nat
  sync_name :: "u8 list"
  syncpos :: nat

type_synonym infosync = "synckey list"

definition InfoSync_Remove :: "infosync \<Rightarrow> nat \<Rightarrow> infosync" where
  "InfoSync_Remove sync k = delete_at k sync"

definition InfoSync_Clear :: "infosync \<Rightarrow> infosync" where
  "InfoSync_Clear sync = []"

fun InfoSync_Strip :: "infosync \<Rightarrow> nat \<Rightarrow> infosync" where
  "InfoSync_Strip [] ctx = []"
| "InfoSync_Strip (x # sync) ctx =
     (if sync_context x = ctx then InfoSync_Strip sync ctx else x # InfoSync_Strip sync ctx)"

fun InfoSync_Add :: "infosync \<Rightarrow> nat \<Rightarrow> u8 list \<Rightarrow> infosync" where
  "InfoSync_Add [] ctx nm = [\<lparr>sync_context = ctx, sync_name = nm, syncpos = 0\<rparr>]"
| "InfoSync_Add (x # sync) ctx nm =
     (if sync_context x = ctx \<and> sync_name x = nm then x\<lparr>syncpos := 0\<rparr> # sync
      else x # InfoSync_Add sync ctx nm)"

section \<open>Writing a buffer as a string\<close>

text \<open>Membership in the lists \<open>priority\<close>, \<open>ignore\<close> and \<open>exclusive\<close>.\<close>

fun listed :: "u8 list list \<Rightarrow> u8 list \<Rightarrow> bool" where
  "listed [] nm = False"
| "listed (l # ls) nm =
     (if l = nm then True
      else if l = [0x2A] \<and> first_char nm = 0x2A then True
      else if l = [0x5F] \<and> first_char nm = 0x5F then True
      else listed ls nm)"

definition key_priority :: "u8 list list option \<Rightarrow> u8 list \<Rightarrow> nat" where
  "key_priority priority nm =
     (case priority of
        Some p \<Rightarrow> if listed p nm then 0 else 1
      | None \<Rightarrow> if first_char nm = 0x2A then 0 else 1)"

definition add_sync :: "nat \<Rightarrow> u8 list \<Rightarrow> infosync option \<Rightarrow> infosync option" where
  "add_sync ctx nm sync = map_option (\<lambda>s. InfoSync_Add s ctx nm) sync"

text \<open>
  One key: \<open>cap = e - infostring\<close>, \<open>nul\<close> says that the string is a null pointer.  The
  state is what stands before \<open>o\<close>, the count \<open>r\<close> and the sync object.
\<close>

definition put_key ::
    "bool \<Rightarrow> int \<Rightarrow> nat \<Rightarrow> infokey_s \<Rightarrow> u8 list \<times> nat \<times> infosync option \<Rightarrow> u8 list \<times> nat \<times> infosync option" where
  "put_key nul cap ctx x = (\<lambda>(out, r, sync).
     if \<not> large x then
       let (l, out1) = InfoBuf_EncodeStringSlash (key_name x) cap out;
           (l2, out2) = InfoBuf_EncodeStringSlash (take (key_size x) (key_value x)) cap out1;
           l = l + l2; r = r + l
       in if \<not> nul \<and> int (length out + l) < cap then (out2, r, sync)
          else (out, r, add_sync ctx (key_name x) sync)
     else (out, r, add_sync ctx (key_name x) sync))"

fun to_string_loop ::
    "bool \<Rightarrow> int \<Rightarrow> nat \<Rightarrow> u8 list list option \<Rightarrow> u8 list list option \<Rightarrow> u8 list list option \<Rightarrow> nat
     \<Rightarrow> infokey_s list \<Rightarrow> u8 list \<times> nat \<times> infosync option \<Rightarrow> u8 list \<times> nat \<times> infosync option" where
  "to_string_loop nul cap ctx priority ignore exclusive pri [] st = st"
| "to_string_loop nul cap ctx priority ignore exclusive pri (x # ks) st =
     to_string_loop nul cap ctx priority ignore exclusive pri ks
       (if case exclusive of None \<Rightarrow> False | Some l \<Rightarrow> \<not> listed l (key_name x) then st
        else if case ignore of None \<Rightarrow> False | Some l \<Rightarrow> listed l (key_name x) then st
        else if pri \<noteq> key_priority priority (key_name x) then st
        else put_key nul cap ctx x st)"

text \<open>
  \<open>dest\<close> is \<open>None\<close> for a null \<open>infostring\<close>, else \<open>maxsize\<close>.  The string, the count
  \<open>r\<close> and the sync object.
\<close>

definition InfoBuf_ToString ::
    "infobuf \<Rightarrow> nat option \<Rightarrow> u8 list list option \<Rightarrow> u8 list list option \<Rightarrow> u8 list list option
     \<Rightarrow> infosync option \<Rightarrow> nat \<Rightarrow> (u8 list \<times> nat \<times> infosync option) res" where
  "InfoBuf_ToString info dest priority ignore exclusive sync ctx =
     (let cap = (case dest of None \<Rightarrow> 0 | Some maxsize \<Rightarrow> int maxsize - 1);
          pass = (\<lambda>pri. to_string_loop (dest = None) cap ctx priority ignore exclusive pri (keys info));
          st = pass 1 (pass 0 ([], 1, map_option (\<lambda>s. InfoSync_Strip s ctx) sync))
      in case dest of None \<Rightarrow> Inl NullDeref
         | Some maxsize \<Rightarrow> if length (fst st) < maxsize then Inr st else Inl OutOfBounds)"

text \<open>The arguments the callback is called with.\<close>

definition InfoBuf_Enumerate :: "infobuf \<Rightarrow> (u8 list \<times> u8 list) list" where
  "InfoBuf_Enumerate info = map (\<lambda>x. (key_name x, c_string (key_value x))) (keys info)"

text \<open>
  Writing to a file.  \<open>Cvar_FindVar\<close> is a parameter: the flags of the variable of that name, if
  there is one.
\<close>

fun write_keys ::
    "(u8 list \<Rightarrow> u32 option) \<Rightarrow> u8 list option \<Rightarrow> u32 \<Rightarrow> infokey_s list \<Rightarrow> u8 list \<Rightarrow> u8 list res" where
  "write_keys Cvar_FindVar commandname cvarflags [] f = Inr f"
| "write_keys Cvar_FindVar commandname cvarflags (x # ks) f =
     (if first_char (key_name x) = 0x2A then write_keys Cvar_FindVar commandname cvarflags ks f
      else if cvarflags \<noteq> 0 \<and> (case Cvar_FindVar (key_name x) of None \<Rightarrow> False
             | Some flags \<Rightarrow> flags AND cvarflags \<noteq> 0)
      then write_keys Cvar_FindVar commandname cvarflags ks f
      else if key_size x > 48000 then write_keys Cvar_FindVar commandname cvarflags ks f
      else
        rbind (InfoBuf_EncodeString_Malloc (key_name x)) (\<lambda>key.
        rbind (InfoBuf_EncodeString_Malloc (take (key_size x) (key_value x))) (\<lambda>val.
        write_keys Cvar_FindVar commandname cvarflags ks
          (case commandname of
             None \<Rightarrow> f @ [0x5C] @ key @ [0x5C] @ val
           | Some cmd \<Rightarrow> f @ cmd @ [0x20, 0x22] @ key @ [0x22, 0x20, 0x22] @ val @ [0x22, 0x0A]))))"

definition InfoBuf_WriteToFile ::
    "(u8 list \<Rightarrow> u32 option) \<Rightarrow> u8 list \<Rightarrow> infobuf \<Rightarrow> u8 list option \<Rightarrow> u32 \<Rightarrow> u8 list res" where
  "InfoBuf_WriteToFile Cvar_FindVar f info commandname cvarflags =
     write_keys Cvar_FindVar commandname cvarflags (keys info) f"

end
