(* ===== verification/InfoEncode.thy ===== *)
theory InfoEncode
  imports InfoBuf
begin

text \<open>
  The textual encoding of keys and values: what \<open>InfoBuf_EncodeString\<close> writes is a fixed
  function of the bytes, contains no character that a command parser or an info string
  gives a meaning to, and is read back by \<open>InfoBuf_DecodeString\<close>.
\<close>

section \<open>The encoding, as text\<close>

definition info_encode :: "u8 list \<Rightarrow> u8 list" where
  "info_encode s = (if InfoBuf_NeedsEncoding s then 255 # base64 s else s)"

lemma NeedsEncoding_iff: "InfoBuf_NeedsEncoding s \<longleftrightarrow> (\<exists>c \<in> set s. needs_encoding_char c)"
  by (induction s) auto

lemma encode_plain_text:
  "encode_plain_loop n cap r (take (nat cap) out) = (r + length n, take (nat cap) (out @ n))"
proof (induction n arbitrary: r out)
  case (Cons c n)
  show ?case using Cons [of "r + 1" "out @ [c]"] by (simp add: put_char_take del: take_append)
qed simp

definition encode_rest :: "int \<Rightarrow> u32 \<times> nat \<times> nat \<times> u8 list \<Rightarrow> nat \<times> u8 list" where
  "encode_rest cap = (\<lambda>(cur, bits, r, out).
     if bits \<noteq> 0 then
       let out = put_char cap out (digit64 cur 18); out = put_char cap out (digit64 cur 12) in
       if bits = 8 then (r + 4, put_char cap (put_char cap out 0x3D) 0x3D)
       else
         let out = put_char cap out (digit64 cur 6) in
         if bits = 16 then (r + 4, put_char cap out 0x3D)
         else (r + 4, put_char cap out (digit64 cur 0))
     else (r, out))"

lemma encode_bits_text:
  "encode_rest cap (encode_bits_loop bs cap 0 0 r (take (nat cap) out))
   = (r + length (base64 bs), take (nat cap) (out @ base64 bs))"
proof (induction bs arbitrary: r out rule: base64.induct)
  case (4 a b c t)
  show ?case
    using 4 [of "r + 4" "out @ [digit64 (quad a b c) 18, digit64 (quad a b c) 12, digit64 (quad a b c) 6,
      digit64 (quad a b c) 0]"]
    by (simp add: Let_def put_char_take quad_def or.assoc del: take_append)
qed (simp_all add: encode_rest_def put_char_take quad_def or.assoc del: take_append)

lemma EncodeString_Internal_text:
  "InfoBuf_EncodeString_Internal n cap (take (nat cap) out)
   = (length (info_encode n), take (nat cap) (out @ info_encode n))"
proof (cases "InfoBuf_NeedsEncoding n")
  case True
  have "InfoBuf_EncodeString_Internal n cap (take (nat cap) out)
      = encode_rest cap (encode_bits_loop n cap 0 0 1 (take (nat cap) (out @ [255])))"
    using True by (simp add: InfoBuf_EncodeString_Internal_def encode_rest_def put_char_take del: take_append)
  then show ?thesis
    using True by (simp add: encode_bits_text info_encode_def del: take_append)
next
  case False
  then show ?thesis
    by (simp add: InfoBuf_EncodeString_Internal_def encode_plain_text info_encode_def del: take_append)
qed

lemma EncodeString_text:
  "InfoBuf_EncodeString n outsize =
     (if length (info_encode n) < outsize then Inr (True, info_encode n)
      else if outsize = 0 then Inl OutOfBounds else Inr (False, []))"
  using EncodeString_Internal_text [of n "int outsize" "[]"] by (simp add: InfoBuf_EncodeString_def)

lemma EncodeString_Malloc_text: "InfoBuf_EncodeString_Malloc n = Inr (info_encode n)"
  using EncodeString_Internal_text [of n 0 "[]"]
    EncodeString_Internal_text [of n "int (length (info_encode n))" "[]"]
  by (simp add: InfoBuf_EncodeString_Malloc_def)

lemma EncodeStringSlash_text:
  "InfoBuf_EncodeStringSlash n cap (take (nat cap) out)
   = (1 + length (info_encode n), take (nat cap) (out @ 0x5C # info_encode n))"
  using EncodeString_Internal_text [of n cap "out @ [0x5C]"]
  by (simp add: InfoBuf_EncodeStringSlash_def put_char_take del: take_append)

section \<open>Its characters\<close>

lemma base64_chars:
  "c \<in> set (base64 bs) \<Longrightarrow> \<not> needs_encoding_char c"
proof -
  have d: "\<not> needs_encoding_char (digit64 v n)" for v n
    using digit64_facts(2,3,5,6) [of v n] by (auto simp: needs_encoding_char_def word_le_nat_alt)
  have e: "\<not> needs_encoding_char 0x3D" by (simp add: needs_encoding_char_def)
  show "c \<in> set (base64 bs) \<Longrightarrow> \<not> needs_encoding_char c"
    by (induction bs rule: base64.induct) (use d e in auto)
qed

lemma info_encode_chars:
  "c \<in> set (info_encode s) \<Longrightarrow> c = 255 \<or> \<not> needs_encoding_char c"
  by (auto simp: info_encode_def NeedsEncoding_iff base64_chars split: if_splits)

lemma info_encode_separators:
  "0 \<notin> set (info_encode s)" "0x5C \<notin> set (info_encode s)"
  using info_encode_chars [of 0 s] info_encode_chars [of "0x5C" s] by (auto simp: needs_encoding_char_def)

section \<open>Reading it back\<close>

lemma decode_string_base64:
  assumes "length ret + length bs \<le> cap"
  shows "decode_string_loop (base64 bs @ post) (length post) cap ret = Inr (ret @ bs)"
  using assms
proof (induction bs arbitrary: ret rule: base64.induct)
  case 1
  show ?case by (subst decode_string_loop.simps) simp
next
  case (2 a)
  then show ?case
    by (subst decode_string_loop.simps)
      (simp add: Let_def put_byte_def join_first quad_bytes ucast_and_255 del: drop_bit_or)
next
  case (3 a b)
  then show ?case
    by (subst decode_string_loop.simps)
      (simp add: Let_def put_byte_def join_first join_second quad_bytes ucast_and_255 del: drop_bit_or)
next
  case (4 a b c r)
  then show ?case
    by (subst decode_string_loop.simps)
      (simp add: Let_def put_byte_def join_first join_second join_third quad_bytes ucast_and_255 del: drop_bit_or)
qed

lemma DecodeString_encode:
  assumes "post \<noteq> []" "hd post \<noteq> 255"
  shows "InfoBuf_DecodeString (info_encode s @ post) (length post) = Inr s"
proof (cases "InfoBuf_NeedsEncoding s")
  case True
  then show ?thesis
    using decode_string_base64 [of "[]" s "Suc (Suc (length (base64 s)))" post]
    by (simp add: InfoBuf_DecodeString_def info_encode_def length_base64)
next
  case False
  then have "c \<noteq> 255" if "c \<in> set s" for c
    using that by (auto simp: NeedsEncoding_iff needs_encoding_char_def)
  then have "read_char (s @ post) = Inr (hd (s @ post))" "hd (s @ post) \<noteq> 255"
    using assms by (cases s; cases post; auto)+
  with False show ?thesis
    by (simp add: InfoBuf_DecodeString_def info_encode_def)
qed

text \<open>
  C23. Whatever bytes a key or value has (quotes, newlines, zeros, backslashes), with room for the text
  and its terminator \<open>InfoBuf_EncodeString\<close> succeeds, and decoding the text inside any longer
  string, where it is followed by the terminator or by a backslash, gives exactly these bytes.
\<close>

theorem infobuf_string_roundtrip:
  assumes "4 * ((length s + 2) div 3) + 1 < outsize" "c = 0 \<or> c = 0x5C"
  shows "\<exists>text. InfoBuf_EncodeString s outsize = Inr (True, text) \<and>
    InfoBuf_DecodeString (text @ c # post) (Suc (length post)) = Inr s"
proof -
  have "length (info_encode s) < outsize"
    using assms(1) by (auto simp: info_encode_def length_base64)
  then show ?thesis
    using DecodeString_encode [of "c # post" s] assms(2) by (auto simp: EncodeString_text)
qed

theorem infobuf_string_roundtrip_witness:
  "\<exists>text. InfoBuf_EncodeString [0x22, 0x5C, 0, 0x41] 20 = Inr (True, text) \<and>
    InfoBuf_DecodeString (text @ 0x5C # [0xFF, 0]) (Suc (length [0xFF, 0 :: u8])) = Inr [0x22, 0x5C, 0, 0x41]"
  by (rule infobuf_string_roundtrip) simp_all

text \<open>
  C24. No encoded key or value can break out of where it is put: the text that
  \<open>InfoBuf_EncodeString\<close> leaves contains no zero, no quote, backslash, semicolon, dollar sign,
  newline or carriage return, whatever the bytes and whatever the room.
\<close>

theorem infobuf_text_is_inert:
  assumes "InfoBuf_EncodeString s outsize = Inr (ok, text)"
  shows "set text \<inter> {0, 0x22, 0x5C, 0x3B, 0x24, 0x0A, 0x0D} = {}"
proof -
  have "text = info_encode s \<or> text = []"
    using assms by (auto simp: EncodeString_text split: if_splits)
  moreover have "c = 255 \<or> \<not> needs_encoding_char c" if "c \<in> set (info_encode s)" for c
    using that by (rule info_encode_chars)
  ultimately show ?thesis
    by (fastforce simp: needs_encoding_char_def)
qed

theorem infobuf_text_is_inert_witness:
  "\<exists>text. InfoBuf_EncodeString [0x3B, 0x22, 0x0A] 64 = Inr (True, text)
     \<and> set text \<inter> {0, 0x22, 0x5C, 0x3B, 0x24, 0x0A, 0x0D} = {}"
proof -
  have e: "InfoBuf_EncodeString [0x3B, 0x22, 0x0A] 64 = Inr (True, info_encode [0x3B, 0x22, 0x0A])"
    by (simp add: EncodeString_text info_encode_def NeedsEncoding_iff needs_encoding_char_def)
  then show ?thesis using infobuf_text_is_inert [OF e] by blast
qed

end
