(* ===== verification/InfoStore.thy ===== *)
theory InfoStore
  imports InfoEncode
begin

text \<open>
  Info buffers as finite maps.  The invariant of a buffer, the map it stands for, and what each
  operation does to both; the interface \<open>key_store\<close> of a store of keys and values, which the
  readers and writers of whole buffers use.
\<close>

section \<open>The interface of a key/value store\<close>

text \<open>
  \<open>fits s k v\<close> says that the store takes the value; storing the value \<open>none\<close> removes the key.
\<close>

locale key_store =
  fixes ok :: "'s \<Rightarrow> bool"
    and fits :: "'s \<Rightarrow> 'k \<Rightarrow> 'v \<Rightarrow> bool"
    and look :: "'s \<Rightarrow> 'k \<Rightarrow> 'v option"
    and put :: "'s \<Rightarrow> 'k \<Rightarrow> 'v \<Rightarrow> 's"
    and none :: 'v
  assumes ok_put: "ok s \<Longrightarrow> fits s k v \<Longrightarrow> ok (put s k v)"
    and look_put: "ok s \<Longrightarrow> fits s k v \<Longrightarrow>
      look (put s k v) k' = (if k' = k then (if v = none then None else Some v) else look s k')"
begin

fun put_all :: "('k \<times> 'v) list \<Rightarrow> 's \<Rightarrow> 's" where
  "put_all [] s = s"
| "put_all (x # xs) s = put_all xs (put s (fst x) (snd x))"

fun all_fit :: "('k \<times> 'v) list \<Rightarrow> 's \<Rightarrow> bool" where
  "all_fit [] s = True"
| "all_fit (x # xs) s \<longleftrightarrow> fits s (fst x) (snd x) \<and> all_fit xs (put s (fst x) (snd x))"

lemma ok_put_all: "ok s \<Longrightarrow> all_fit xs s \<Longrightarrow> ok (put_all xs s)"
  by (induction xs arbitrary: s) (auto simp: ok_put)

lemma look_put_other: "ok s \<Longrightarrow> all_fit xs s \<Longrightarrow> k \<notin> fst ` set xs \<Longrightarrow> look (put_all xs s) k = look s k"
  by (induction xs arbitrary: s) (auto simp: ok_put look_put)

lemma look_put_all:
  "ok s \<Longrightarrow> all_fit xs s \<Longrightarrow> distinct (map fst xs) \<Longrightarrow> (k, v) \<in> set xs \<Longrightarrow>
   look (put_all xs s) k = (if v = none then None else Some v)"
proof (induction xs arbitrary: s)
  case (Cons x xs)
  show ?case
  proof (cases "x = (k, v)")
    case True
    with Cons.prems have "k \<notin> fst ` set xs" by auto
    with True Cons.prems show ?thesis by (auto simp: ok_put look_put look_put_other)
  next
    case False
    with Cons show ?thesis by (auto simp: ok_put)
  qed
qed simp

lemma put_all_is_map:
  assumes "ok s" "all_fit xs s" "distinct (map fst xs)" "none \<notin> snd ` set xs" "\<And>k. look s k = None"
  shows "look (put_all xs s) = map_of xs"
proof
  fix k
  show "look (put_all xs s) k = map_of xs k"
  proof (cases "k \<in> fst ` set xs")
    case True
    then obtain v where v: "(k, v) \<in> set xs" by auto
    then have "v \<noteq> none" using assms(4) by force
    with v assms show ?thesis by (auto simp: look_put_all map_of_eq_Some_iff)
  next
    case False
    then have "map_of xs k = None" by (simp add: map_of_eq_None_iff)
    with False assms show ?thesis by (simp add: look_put_other)
  qed
qed

end

section \<open>The invariant of a buffer\<close>

definition buf_ok :: "infokey_s \<Rightarrow> bool" where
  "buf_ok x \<longleftrightarrow> length (key_value x) = buffersize x \<and> (key_size x = 0 \<or> key_size x < buffersize x)"

definition key_ok :: "infokey_s \<Rightarrow> bool" where
  "key_ok x \<longleftrightarrow> 0 \<notin> set (key_name x) \<and> 0 < key_size x \<and> key_size x < buffersize x
     \<and> length (key_value x) = buffersize x \<and> key_value x ! key_size x = 0 \<and> large x = InfoBuf_IsLarge x"

definition info_ok :: "infobuf \<Rightarrow> bool" where
  "info_ok info \<longleftrightarrow> distinct (map key_name (keys info)) \<and> list_all key_ok (keys info)
     \<and> totalsize info = sum_list (map key_total (keys info))"

definition blob :: "infokey_s \<Rightarrow> u8 list" where
  "blob x = take (key_size x) (key_value x)"

text \<open>The map a buffer stands for: whether the value is complete, and its bytes.\<close>

definition entry :: "infokey_s \<Rightarrow> u8 list \<times> bool \<times> u8 list" where
  "entry x = (key_name x, \<not> partial x, blob x)"

definition info_map :: "infobuf \<Rightarrow> u8 list \<Rightarrow> (bool \<times> u8 list) option" where
  "info_map info = map_of (map entry (keys info))"

definition empty_info :: "u8 list list option \<Rightarrow> infobuf" where
  "empty_info cb = \<lparr>keys = [], totalsize = 0, ChangeCB = cb\<rparr>"

lemma empty_info_ok [simp]: "info_ok (empty_info cb)" "info_map (empty_info cb) = Map.empty"
  by (simp_all add: info_ok_def empty_info_def info_map_def)

lemma key_ok_buf_ok: "key_ok x \<Longrightarrow> buf_ok x"
  by (simp add: key_ok_def buf_ok_def)

lemma key_total_eq: "key_total x = word_of_nat (length (key_name x) + 2) + word_of_nat (key_size x)"
  by (simp add: key_total_def)

lemma call_ChangeCB_simps [simp]:
  "keys (call_ChangeCB k info) = keys info" "totalsize (call_ChangeCB k info) = totalsize info"
  "info_ok (call_ChangeCB k info) = info_ok info" "info_map (call_ChangeCB k info) = info_map info"
  by (simp_all add: call_ChangeCB_def info_ok_def info_map_def)

section \<open>Finding a key\<close>

lemma find_key_split:
  "find_key_loop ks key k = None \<and> key \<notin> key_name ` set ks \<or>
   (\<exists>pre x post. ks = pre @ x # post \<and> find_key_loop ks key k = Some (k + length pre)
      \<and> key_name x = key \<and> key \<notin> key_name ` set pre)"
proof (induction ks arbitrary: k)
  case (Cons y ks)
  show ?case
  proof (cases "key_name y = key")
    case True
    then have "y # ks = [] @ y # ks \<and> find_key_loop (y # ks) key k = Some (k + length ([] :: infokey_s list))
      \<and> key_name y = key \<and> key \<notin> key_name ` set []" by simp
    then show ?thesis by blast
  next
    case False
    show ?thesis
      using Cons [of "k + 1"]
    proof (elim disjE exE conjE)
      fix pre x post
      assume "ks = pre @ x # post" "find_key_loop ks key (k + 1) = Some (k + 1 + length pre)"
        "key_name x = key" "key \<notin> key_name ` set pre"
      with False have "y # ks = (y # pre) @ x # post \<and> find_key_loop (y # ks) key k = Some (k + length (y # pre))
        \<and> key_name x = key \<and> key \<notin> key_name ` set (y # pre)" by auto
      then show ?thesis by blast
    qed (use False in auto)
  qed
qed simp

lemma FindKey_cases:
  obtains (absent) "InfoBuf_FindKey info key = None" "key \<notin> key_name ` set (keys info)"
  | (present) pre x post where "InfoBuf_FindKey info key = Some (length pre)" "keys info = pre @ x # post"
      "key_name x = key" "key \<notin> key_name ` set pre"
  using find_key_split [of "keys info" key 0] by (auto simp: InfoBuf_FindKey_def)

lemma map_of_replace:
  "key \<notin> fst ` set pre \<Longrightarrow> map_of (pre @ (key, v) # post) = (map_of (pre @ (key, w) # post))(key \<mapsto> v)"
  by (induction pre) (auto simp: fun_upd_twist)

lemma map_of_remove:
  "key \<notin> fst ` set pre \<Longrightarrow> key \<notin> fst ` set post \<Longrightarrow>
   map_of (pre @ post) = (map_of (pre @ (key, w) # post))(key := None)"
proof (induction pre)
  case Nil
  then have "map_of post key = None" by (simp add: map_of_eq_None_iff)
  then show ?case by (auto simp: fun_eq_iff)
qed (auto simp: fun_upd_twist)

lemma fst_entry [simp]: "fst (entry x) = key_name x" "fst ` entry ` A = key_name ` A"
  by (auto simp: entry_def image_image)

lemma info_map_lookup:
  "info_map info key =
     (case InfoBuf_FindKey info key of None \<Rightarrow> None
      | Some k \<Rightarrow> Some (\<not> partial (keys info ! k), blob (keys info ! k)))"
proof (cases rule: FindKey_cases [of info key])
  case absent
  then have "map_of (map entry (keys info)) key = None"
    by (simp add: map_of_eq_None_iff)
  with absent show ?thesis by (simp add: info_map_def)
next
  case (present pre x post)
  then have "map_of (map entry pre) key = None"
    by (simp add: map_of_eq_None_iff)
  with present show ?thesis
    by (simp add: info_map_def map_add_def entry_def)
qed

section \<open>Putting an entry in place\<close>

text \<open>A buffer whose entry \<open>x\<close> becomes \<open>x'\<close>, and one that gets \<open>x'\<close> as a new last entry.\<close>

lemma replace_entry:
  assumes "info_ok info" "keys info = pre @ x # post" "key_ok x'" "key_name x' = key_name x"
    and "info' = info\<lparr>keys := pre @ x' # post,
      totalsize := totalsize info - word_of_nat (key_size x) + word_of_nat (key_size x')\<rparr>"
  shows "info_ok info' \<and> info_map info' = (info_map info)(key_name x \<mapsto> (\<not> partial x', blob x'))"
proof
  show "info_ok info'"
    using assms by (simp add: info_ok_def key_total_eq)
  have "key_name x \<notin> fst ` set (map entry pre)"
    using assms by (auto simp: info_ok_def)
  then show "info_map info' = (info_map info)(key_name x \<mapsto> (\<not> partial x', blob x'))"
    using assms map_of_replace [of "key_name x" "map entry pre" "(\<not> partial x', blob x')" "map entry post"
        "(\<not> partial x, blob x)"]
    by (simp add: info_map_def entry_def del: map_of_append)
qed

lemma append_entry:
  assumes "info_ok info" "key_name x' \<notin> key_name ` set (keys info)" "key_ok x'"
    and "info' = info\<lparr>keys := keys info @ [x'],
      totalsize := totalsize info + word_of_nat (length (key_name x') + 2) + word_of_nat (key_size x')\<rparr>"
  shows "info_ok info' \<and> info_map info' = (info_map info)(key_name x' \<mapsto> (\<not> partial x', blob x'))"
proof
  show "info_ok info'"
    using assms by (simp add: info_ok_def key_total_eq)
  have "map_of (map entry (keys info)) (key_name x') = None"
    using assms(2) by (simp add: map_of_eq_None_iff)
  then show "info_map info' = (info_map info)(key_name x' \<mapsto> (\<not> partial x', blob x'))"
    using assms(4) by (auto simp: info_map_def entry_def map_add_def fun_eq_iff split: option.splits)
qed

lemma remove_entry:
  assumes "info_ok info" "keys info = pre @ x # post"
    and "info' = info\<lparr>keys := pre @ post, totalsize := totalsize info - key_total x\<rparr>"
  shows "info_ok info' \<and> info_map info' = (info_map info)(key_name x := None)"
proof
  show "info_ok info'"
    using assms by (simp add: info_ok_def)
  have "key_name x \<notin> fst ` set (map entry pre)" "key_name x \<notin> fst ` set (map entry post)"
    using assms by (auto simp: info_ok_def)
  then show "info_map info' = (info_map info)(key_name x := None)"
    using assms map_of_remove [of "key_name x" "map entry pre" "map entry post" "(\<not> partial x, blob x)"]
    by (simp add: info_map_def entry_def del: map_of_append)
qed

section \<open>The operations\<close>

lemma delete_at_middle [simp]: "delete_at (length pre) (pre @ x # post) = pre @ post"
  by (simp add: delete_at_def)

lemma info_update_order:
  "info\<lparr>totalsize := t, keys := ks\<rparr> = info\<lparr>keys := ks, totalsize := t\<rparr>"
  by (cases info) simp

text \<open>
  What the operations do to the map.  Setting a key to the bytes it has leaves it as it is,
  complete or not.
\<close>

definition set_value :: "('k \<Rightarrow> (bool \<times> u8 list) option) \<Rightarrow> 'k \<Rightarrow> u8 list \<Rightarrow> 'k \<Rightarrow> (bool \<times> u8 list) option" where
  "set_value m key val =
     (if val = [] then m(key := None)
      else case m key of
        Some (c, old) \<Rightarrow> if old = val then m else m(key \<mapsto> (True, val))
      | None \<Rightarrow> m(key \<mapsto> (True, val)))"

definition receive_chunk ::
    "('k \<Rightarrow> (bool \<times> u8 list) option) \<Rightarrow> 'k \<Rightarrow> u8 list \<Rightarrow> nat \<Rightarrow> bool \<Rightarrow> 'k \<Rightarrow> (bool \<times> u8 list) option" where
  "receive_chunk m key val offset final =
     (if val = [] then m(key := None)
      else case m key of
        None \<Rightarrow> if offset \<noteq> 0 then m else m(key \<mapsto> (final, val))
      | Some (c, old) \<Rightarrow> if offset \<noteq> 0 \<and> offset \<noteq> length old then m(key := None)
          else m(key \<mapsto> (final, take offset old @ val)))"

lemma RemoveKey_spec:
  assumes "info_ok info"
  shows "info_ok (snd (InfoBuf_RemoveKey info key))
    \<and> info_map (snd (InfoBuf_RemoveKey info key)) = (info_map info)(key := None)
    \<and> (fst (InfoBuf_RemoveKey info key) \<longleftrightarrow> info_map info key \<noteq> None)"
proof (cases rule: FindKey_cases [of info key])
  case absent
  then show ?thesis
    using assms by (auto simp: InfoBuf_RemoveKey_def info_map_lookup fun_eq_iff)
next
  case (present pre x post)
  then show ?thesis
    using remove_entry [OF assms present(2) refl]
    by (simp add: InfoBuf_RemoveKey_def info_map_lookup Let_def key_total_eq diff_diff_eq [symmetric]
        info_update_order)
qed

lemma IsLarge_ignores [simp]:
  "InfoBuf_IsLarge (x\<lparr>large := b\<rparr>) = InfoBuf_IsLarge x"
  by (simp add: InfoBuf_IsLarge_def)

lemma store_value_spec:
  assumes "val \<noteq> []" "0 \<notin> set key" "k < length (keys info)" "key_name (keys info ! k) = key"
  shows "\<exists>x'. store_value k val key info =
      (True, call_ChangeCB key (info\<lparr>keys := (keys info)[k := x'], totalsize := totalsize info + word_of_nat (key_size x')\<rparr>))
    \<and> key_ok x' \<and> key_name x' = key \<and> \<not> partial x' \<and> blob x' = val"
proof -
  define x where "x = (keys info ! k)\<lparr>buffersize := length val + 1, key_size := length val,
    key_value := val @ [0], partial := False\<rparr>"
  define x' where "x' = x\<lparr>large := InfoBuf_IsLarge x\<rparr>"
  have "store_value k val key info = (True, call_ChangeCB key (info\<lparr>keys := (keys info)[k := x'],
      totalsize := totalsize info + word_of_nat (key_size x')\<rparr>))"
    by (simp add: store_value_def x'_def x_def Let_def)
  moreover have "key_ok x'" "key_name x' = key" "\<not> partial x'" "blob x' = val"
    using assms by (auto simp: x'_def x_def key_ok_def blob_def)
  ultimately show ?thesis by blast
qed

lemma SetStarBlobKey_spec:
  assumes "info_ok info" "0 \<notin> set key" and val: "val = (case v of None \<Rightarrow> [] | Some b \<Rightarrow> b)"
  shows "info_ok (snd (InfoBuf_SetStarBlobKey info key v))
    \<and> info_map (snd (InfoBuf_SetStarBlobKey info key v)) = set_value (info_map info) key val
    \<and> (fst (InfoBuf_SetStarBlobKey info key v) \<longleftrightarrow> set_value (info_map info) key val \<noteq> info_map info)"
proof (cases rule: FindKey_cases [of info key])
  case absent
  then have lk: "info_map info key = None" by (simp add: info_map_lookup)
  show ?thesis
  proof (cases "val = []")
    case True
    then show ?thesis
      using absent lk assms(1) by (auto simp: InfoBuf_SetStarBlobKey_def Let_def set_value_def fun_eq_iff
          simp flip: val)
  next
    case False
    have "length (keys info) < length (keys (append_key key info))"
        "key_name (keys (append_key key info) ! length (keys info)) = key"
      by (simp_all add: append_key_def)
    then obtain x' where x': "store_value (length (keys info)) val key (append_key key info) =
        (True, call_ChangeCB key (append_key key info\<lparr>keys := (keys (append_key key info))[length (keys info) := x'],
           totalsize := totalsize (append_key key info) + word_of_nat (key_size x')\<rparr>))"
        "key_ok x'" "key_name x' = key" "\<not> partial x'" "blob x' = val"
      using store_value_spec [OF False assms(2)] by blast
    have "append_key key info\<lparr>keys := (keys (append_key key info))[length (keys info) := x'],
          totalsize := totalsize (append_key key info) + word_of_nat (key_size x')\<rparr> =
        info\<lparr>keys := keys info @ [x'],
          totalsize := totalsize info + word_of_nat (length (key_name x') + 2) + word_of_nat (key_size x')\<rparr>"
      using x'(3) by (simp add: append_key_def)
    then show ?thesis
      using absent lk False x' append_entry [OF assms(1) _ x'(2) refl]
      by (auto simp: InfoBuf_SetStarBlobKey_def Let_def set_value_def fun_eq_iff simp flip: val)
  qed
next
  case (present pre x post)
  have lk: "info_map info key = Some (\<not> partial x, blob x)"
    using present by (simp add: info_map_lookup)
  have kx: "key_ok x" using assms(1) present(2) by (simp add: info_ok_def)
  show ?thesis
  proof (cases "val = []")
    case True
    then show ?thesis
      using present lk RemoveKey_spec [OF assms(1), of key]
      by (auto simp: InfoBuf_SetStarBlobKey_def Let_def set_value_def fun_eq_iff simp flip: val)
  next
    case False
    have same: "(key_size x = length val \<and> take (length val) (key_value x) = val) \<longleftrightarrow> blob x = val"
      using kx by (auto simp: blob_def key_ok_def)
    let ?info = "info\<lparr>totalsize := totalsize info - word_of_nat (key_size x)\<rparr>"
    have "length pre < length (keys ?info)" "key_name (keys ?info ! length pre) = key"
      using present by simp_all
    then obtain x' where x': "store_value (length pre) val key ?info =
        (True, call_ChangeCB key (?info\<lparr>keys := (keys ?info)[length pre := x'],
           totalsize := totalsize ?info + word_of_nat (key_size x')\<rparr>))"
        "key_ok x'" "key_name x' = key" "\<not> partial x'" "blob x' = val"
      using store_value_spec [OF False assms(2)] by blast
    then show ?thesis
      using present False lk same replace_entry [OF assms(1) present(2) x'(2) _ refl]
      by (auto simp: InfoBuf_SetStarBlobKey_def Let_def assms(1) set_value_def fun_eq_iff simp flip: val)
  qed
qed

subsection \<open>Chunks\<close>

lemma length_realloc [simp]: "length (realloc_bytes m n) = n"
  by (simp add: realloc_bytes_def)

lemma take_realloc: "k \<le> length m \<Longrightarrow> k \<le> n \<Longrightarrow> take k (realloc_bytes m n) = take k m"
  by (simp add: realloc_bytes_def min_def)

lemma grow_value_spec:
  assumes "buf_ok x" "offset \<le> key_size x" "x' = grow_value (offset + n) final x"
  shows "length (key_value x') = buffersize x' \<and> offset + n < buffersize x'
    \<and> take offset (key_value x') = take offset (key_value x) \<and> key_name x' = key_name x"
  using assms by (auto simp: grow_value_def buf_ok_def take_realloc)

lemma receive_into_spec:
  assumes "buf_ok (keys info ! k)" "k < length (keys info)" "offset \<le> key_size (keys info ! k)" "val \<noteq> []"
    "0 \<notin> set key" "key_name (keys info ! k) = key"
  shows "\<exists>x'. receive_into k val offset final key info =
      Inr (True, (if final then call_ChangeCB key else id)
        (info\<lparr>keys := (keys info)[k := x'], totalsize := totalsize info + word_of_nat (key_size x')\<rparr>))
    \<and> key_ok x' \<and> key_name x' = key \<and> partial x' = (\<not> final) \<and> blob x' = take offset (key_value (keys info ! k)) @ val"
proof -
  define x where "x = grow_value (offset + length val) final (keys info ! k)"
  define v where "v = take offset (key_value x) @ val @ 0 # drop (offset + length val + 1) (key_value x)"
  define x1 where "x1 = x\<lparr>key_value := v, key_size := offset + length val, partial := \<not> final\<rparr>"
  define x' where "x' = x1\<lparr>large := InfoBuf_IsLarge x1\<rparr>"
  have x: "length (key_value x) = buffersize x" "offset + length val < buffersize x"
      "take offset (key_value x) = take offset (key_value (keys info ! k))" "key_name x = key"
    using grow_value_spec [OF assms(1,3) x_def] assms(6) by simp_all
  have "poke (key_value x) (int offset) val
      = Inr (take offset (key_value x) @ val @ drop (offset + length val) (key_value x))"
    using x(1,2) by (simp add: poke_def)
  moreover have "poke (take offset (key_value x) @ val @ drop (offset + length val) (key_value x))
      (int (offset + length val)) [0] = Inr v"
    using x(1,2) by (simp add: poke_def v_def nat_int_add)
  ultimately have "receive_into k val offset final key info =
      Inr (True, (if final then call_ChangeCB key else id)
        (info\<lparr>keys := (keys info)[k := x'], totalsize := totalsize info + word_of_nat (key_size x')\<rparr>))"
    unfolding receive_into_def Let_def x_def [symmetric]
    by (simp only: rbind_Inr x1_def x'_def id_apply) simp
  moreover have "key_ok x'" "key_name x' = key" "partial x' = (\<not> final)"
    using x(1,2,4) assms(4,5) by (auto simp: x'_def x1_def v_def key_ok_def nth_append)
  moreover have "blob x' = take offset (key_value (keys info ! k)) @ val"
    using x(1,2) by (simp add: blob_def x'_def x1_def v_def x(3) [symmetric])
  ultimately show ?thesis by blast
qed

lemma SyncReceive_spec:
  assumes "info_ok info" "0 \<notin> set key"
  shows "\<exists>ok info'. InfoBuf_SyncReceive info key val offset final = Inr (ok, info') \<and> info_ok info'
    \<and> info_map info' = receive_chunk (info_map info) key val offset final"
proof (cases rule: FindKey_cases [of info key])
  case absent
  then have lk: "info_map info key = None" by (simp add: info_map_lookup)
  show ?thesis
  proof (cases "val = [] \<or> offset \<noteq> 0")
    case True
    then show ?thesis
      using absent lk assms(1) by (auto simp: InfoBuf_SyncReceive_def receive_chunk_def fun_eq_iff)
  next
    case False
    let ?k = "length (keys info)" and ?info = "append_key key info"
    have "buf_ok (keys ?info ! ?k)" "?k < length (keys ?info)" "0 \<le> key_size (keys ?info ! ?k)"
        "key_name (keys ?info ! ?k) = key"
      by (simp_all add: append_key_def new_key_def buf_ok_def)
    then obtain x' where x': "receive_into ?k val 0 final key ?info =
        Inr (True, (if final then call_ChangeCB key else id)
          (?info\<lparr>keys := (keys ?info)[?k := x'], totalsize := totalsize ?info + word_of_nat (key_size x')\<rparr>))"
        "key_ok x'" "key_name x' = key" "partial x' = (\<not> final)" "blob x' = val"
      using receive_into_spec [of ?info ?k 0 val key final] False assms(2) by auto
    have "?info\<lparr>keys := (keys ?info)[?k := x'], totalsize := totalsize ?info + word_of_nat (key_size x')\<rparr> =
        info\<lparr>keys := keys info @ [x'],
          totalsize := totalsize info + word_of_nat (length (key_name x') + 2) + word_of_nat (key_size x')\<rparr>"
      using x'(3) by (simp add: append_key_def)
    then show ?thesis
      using absent lk False x' append_entry [OF assms(1) _ x'(2) refl]
      by (auto simp: InfoBuf_SyncReceive_def receive_chunk_def)
  qed
next
  case (present pre x post)
  have lk: "info_map info key = Some (\<not> partial x, blob x)"
    using present by (simp add: info_map_lookup)
  have kx: "key_ok x" "length (blob x) = key_size x"
    using assms(1) present(2) by (auto simp: info_ok_def key_ok_def blob_def)
  show ?thesis
  proof (cases "val = [] \<or> offset \<noteq> 0 \<and> offset \<noteq> key_size x")
    case True
    then show ?thesis
      using present lk kx(2) RemoveKey_spec [OF assms(1), of key]
      by (cases "InfoBuf_RemoveKey info key") (auto simp: InfoBuf_SyncReceive_def receive_chunk_def)
  next
    case False
    let ?info = "info\<lparr>totalsize := totalsize info - word_of_nat (key_size x)\<rparr>" and ?k = "length pre"
    have "buf_ok (keys ?info ! ?k)" "?k < length (keys ?info)" "offset \<le> key_size (keys ?info ! ?k)"
        "key_name (keys ?info ! ?k) = key"
      using present kx(1) False by (auto intro: key_ok_buf_ok)
    then obtain x' where x': "receive_into ?k val offset final key ?info =
        Inr (True, (if final then call_ChangeCB key else id)
          (?info\<lparr>keys := (keys ?info)[?k := x'], totalsize := totalsize ?info + word_of_nat (key_size x')\<rparr>))"
        "key_ok x'" "key_name x' = key" "partial x' = (\<not> final)" "blob x' = take offset (key_value x) @ val"
      using receive_into_spec [of ?info ?k offset val key final] False assms(2) present(2) by auto
    have "take offset (key_value x) = take offset (blob x)"
      using False by (auto simp: blob_def min_def)
    then show ?thesis
      using present False lk kx(2) x' replace_entry [OF assms(1) present(2) x'(2) _ refl]
      by (auto simp: InfoBuf_SyncReceive_def receive_chunk_def)
  qed
qed

subsection \<open>Clearing and copying\<close>

lemma clear_loop_filter:
  "clear_loop all (length pre) (pre @ post) =
     filter (\<lambda>x. \<not> all \<and> first_char (key_name x) = 0x2A) pre @ post"
proof (induction pre arbitrary: post rule: rev_induct)
  case (snoc x pre)
  show ?case
    using snoc [of post] snoc [of "x # post"] by (auto simp: nth_append)
qed simp

lemma Clear_keys:
  "keys (InfoBuf_Clear info all) = filter (\<lambda>x. \<not> all \<and> first_char (key_name x) = 0x2A) (keys info)"
  using clear_loop_filter [of all "keys info" "[]"] by (simp add: InfoBuf_Clear_def)

lemma Clear_all: "InfoBuf_Clear info True = empty_info (ChangeCB info)"
  using Clear_keys [of info True] by (cases info) (simp add: InfoBuf_Clear_def empty_info_def)

lemma fold_total: "fold (\<lambda>x t. t + f x) ks t = t + sum_list (map f ks)" for t :: "'a :: comm_monoid_add"
  by (induction ks arbitrary: t) (auto simp: ac_simps)

section \<open>What a reader sees\<close>

definition visible :: "infobuf \<Rightarrow> u8 list \<Rightarrow> u8 list option" where
  "visible info key = (case info_map info key of Some (c, v) \<Rightarrow> if c then Some v else None | None \<Rightarrow> None)"

lemma BlobForKey_visible: "fst (InfoBuf_BlobForKey info key) = visible info key"
  by (simp add: InfoBuf_BlobForKey_def visible_def info_map_lookup blob_def split: option.splits)

definition whole :: "infobuf \<Rightarrow> bool" where
  "whole info \<longleftrightarrow> info_ok info \<and> (\<forall>x \<in> set (keys info). \<not> partial x)"

lemma in_keys_map: "info_ok info \<Longrightarrow> x \<in> set (keys info) \<Longrightarrow> info_map info (key_name x) = Some (\<not> partial x, blob x)"
  by (simp add: info_map_def info_ok_def comp_def entry_def map_of_eq_Some_iff image_iff) blast

lemma map_in_keys: "info_map info key = Some (c, v) \<Longrightarrow>
    \<exists>x \<in> set (keys info). key_name x = key \<and> c = (\<not> partial x) \<and> v = blob x"
  by (auto simp: info_map_def entry_def dest!: map_of_SomeD)

lemma whole_map:
  assumes "info_ok info"
  shows "whole info \<longleftrightarrow> (\<forall>key v. info_map info key \<noteq> Some (False, v))"
proof
  assume w: "whole info"
  show "\<forall>key v. info_map info key \<noteq> Some (False, v)"
  proof (intro allI notI)
    fix key v
    assume "info_map info key = Some (False, v)"
    then obtain x where "x \<in> set (keys info)" "partial x" using map_in_keys by blast
    with w show False by (simp add: whole_def)
  qed
next
  note ok = assms
  assume m: "\<forall>key v. info_map info key \<noteq> Some (False, v)"
  have "\<not> partial x" if "x \<in> set (keys info)" for x
    using in_keys_map [OF ok that] m by (cases "partial x") auto
  with ok show "whole info" by (simp add: whole_def)
qed

lemma set_value_cases:
  "set_value m key val k = Some e \<Longrightarrow> m k = Some e \<or> (k = key \<and> e = (True, val) \<and> val \<noteq> [])"
  by (auto simp: set_value_def split: if_splits option.splits)

text \<open>Info buffers all of whose values are complete are a key/value store.\<close>

interpretation infobuf: key_store whole "\<lambda>info key val. 0 \<notin> set key" "\<lambda>info key. fst (InfoBuf_BlobForKey info key)"
    "\<lambda>info key val. snd (InfoBuf_SetStarBlobKey info key (Some val))" "[]"
proof
  fix info :: infobuf and key k' val :: "u8 list"
  assume w: "whole info" and key: "0 \<notin> set key"
  let ?r = "snd (InfoBuf_SetStarBlobKey info key (Some val))"
  have ok: "info_ok info" using w by (simp add: whole_def)
  have r: "info_ok ?r" "info_map ?r = set_value (info_map info) key val"
    using SetStarBlobKey_spec [OF ok key, of val "Some val"] by simp_all
  show "whole ?r"
    unfolding whole_map [OF r(1)] r(2)
    using set_value_cases [of "info_map info" key val] whole_map [OF ok] w by blast
  have "info_map info key \<noteq> Some (False, val)"
    using whole_map [OF ok] w by blast
  then show "fst (InfoBuf_BlobForKey ?r k') =
      (if k' = key then (if val = [] then None else Some val) else fst (InfoBuf_BlobForKey info k'))"
    by (auto simp: BlobForKey_visible visible_def r(2) set_value_def split: option.splits)
qed

section \<open>Reachable buffers\<close>

lemma SetStarBlobKey_ok:
  "info_ok info \<Longrightarrow> 0 \<notin> set key \<Longrightarrow> info_ok (snd (InfoBuf_SetStarBlobKey info key v))"
  using SetStarBlobKey_spec [OF _ _ refl] by blast

lemma from_string_ok: "info_ok info \<Longrightarrow> from_string_loop info m = Inr info' \<Longrightarrow> info_ok info'"
proof (induction info m arbitrary: info' rule: from_string_loop.induct)
  case (2 info c keystart)
  show ?case
  proof (cases "c = 0x5C \<and> to_slash keystart \<noteq> [] \<and> hd (to_slash keystart) = 0x5C")
    case True
    then obtain valstart where m: "c = 0x5C" "to_slash keystart = 0x5C # valstart"
      by (cases "to_slash keystart") auto
    with 2 show ?thesis
      by (auto simp: Let_def rbind_eq_Inr SetStarBlobKey_ok split: if_splits)
  qed (use 2 in \<open>auto split: list.splits if_splits\<close>)
qed simp

inductive info_run :: "infobuf \<Rightarrow> bool" where
  start: "info_run (empty_info cb)"
| set_star: "info_run i \<Longrightarrow> is_cstr key \<Longrightarrow> info_run (snd (InfoBuf_SetStarBlobKey i key v))"
| set_key: "info_run i \<Longrightarrow> is_cstr key \<Longrightarrow> info_run (snd (InfoBuf_SetKey i key v))"
| remove: "info_run i \<Longrightarrow> info_run (snd (InfoBuf_RemoveKey i key))"
| receive: "info_run i \<Longrightarrow> is_cstr key \<Longrightarrow> InfoBuf_SyncReceive i key v offset final = Inr (r, i') \<Longrightarrow> info_run i'"
| clear: "info_run i \<Longrightarrow> info_run (InfoBuf_Clear i True)"
| read: "info_run i \<Longrightarrow> InfoBuf_FromString i str appending = Inr i' \<Longrightarrow> info_run i'"

lemma info_run_ok: "info_run i \<Longrightarrow> info_ok i"
proof (induction rule: info_run.induct)
  case (receive i key v offset final r i')
  then show ?case using SyncReceive_spec [of i key v offset final] by auto
next
  case (read i str appending i')
  then show ?case
    using from_string_ok [of "if appending then i else empty_info (ChangeCB i)" str i']
    by (simp add: InfoBuf_FromString_def Clear_all split: if_splits)
qed (auto simp: SetStarBlobKey_ok InfoBuf_SetKey_def RemoveKey_spec Clear_all)

section \<open>Properties\<close>

text \<open>
  C25. In every buffer the operations can produce (from the cleared one, by setting, removing, receiving
  pieces, clearing all and reading info strings) each name occurs once, is a C string, and has
  a nonempty terminated value inside its memory; the flag \<open>large\<close> is the one
  \<open>InfoBuf_IsLarge\<close> computes, and \<open>totalsize\<close>, modulo the size of \<open>size_t\<close>, is the number of
  bytes an info string needs for all of them.
\<close>

theorem infobuf_well_formed:
  assumes "info_run info"
  shows "distinct (map key_name (keys info)) \<and> list_all key_ok (keys info) \<and>
    totalsize info = word_of_nat (\<Sum>x\<leftarrow>keys info. length (key_name x) + 2 + key_size x)"
proof -
  have "sum_list (map key_total ks) = word_of_nat (\<Sum>x\<leftarrow>ks. length (key_name x) + 2 + key_size x)" for ks
    by (induction ks) (simp_all add: key_total_def)
  then show ?thesis
    using info_run_ok [OF assms] by (simp add: info_ok_def)
qed

theorem infobuf_well_formed_witness:
  "let info = snd (InfoBuf_SetKey (empty_info None) [0x61] [0x62, 0x63]) in
   distinct (map key_name (keys info)) \<and> list_all key_ok (keys info) \<and>
    totalsize info = word_of_nat (\<Sum>x\<leftarrow>keys info. length (key_name x) + 2 + key_size x)"
  unfolding Let_def by (rule infobuf_well_formed, rule info_run.intros, rule info_run.intros) simp

text \<open>
  C26. Setting and removing keys refines updating a finite map.  On a well-formed buffer the result is
  well formed, its map is the abstract update (an empty or null value removes the key), and the
  result tells whether the map changed; \<open>InfoBuf_SetKey\<close> does the same for every key but those
  that begin with an asterisk, which it refuses without a change.
\<close>

theorem infobuf_set_refines:
  assumes "info_ok info" "is_cstr key" "is_cstr str"
  shows "(let (changed, info') = InfoBuf_SetStarBlobKey info key v; val = (case v of None \<Rightarrow> [] | Some b \<Rightarrow> b) in
      info_ok info' \<and> info_map info' = set_value (info_map info) key val \<and>
      changed = (set_value (info_map info) key val \<noteq> info_map info)) \<and>
    (let (changed, info') = InfoBuf_RemoveKey info key in
      info_ok info' \<and> info_map info' = (info_map info)(key := None) \<and> changed = (info_map info key \<noteq> None)) \<and>
    InfoBuf_SetKey info key str =
      (if first_char key = 0x2A then (False, info) else InfoBuf_SetStarBlobKey info key (Some str))"
  using SetStarBlobKey_spec [OF assms(1,2) refl, of v] RemoveKey_spec [OF assms(1), of key] assms(3)
  by (simp add: InfoBuf_SetKey_def Let_def case_prod_beta)

theorem infobuf_set_refines_witness:
  "let (changed, info') = InfoBuf_SetStarBlobKey (empty_info None) [0x61] (Some [0, 1]) in
     info_ok info' \<and> info_map info' = [[0x61] \<mapsto> (True, [0, 1])] \<and> changed"
  using infobuf_set_refines [of "empty_info None" "[0x61]" "[]" "Some [0, 1]"]
  by (auto simp: set_value_def Let_def case_prod_beta fun_eq_iff)

text \<open>
  C27. Receiving a piece of a value is safe and refines the abstract operation: whatever offset, length and
  final flag the sender claims, \<open>InfoBuf_SyncReceive\<close> never writes outside the value's memory, keeps the
  buffer well formed and acts on the map as \<open>receive_chunk\<close> does (a piece that does not continue what is there
  removes the key; an offset of zero starts over).
\<close>

theorem infobuf_receive_refines:
  assumes "info_ok info" "is_cstr key"
  shows "\<exists>ok info'. InfoBuf_SyncReceive info key val offset final = Inr (ok, info') \<and> info_ok info' \<and>
    info_map info' = receive_chunk (info_map info) key val offset final"
  using SyncReceive_spec [OF assms] .

theorem infobuf_receive_refines_witness:
  "\<exists>ok info'. InfoBuf_SyncReceive (empty_info None) [0x61] [1, 2, 3] 0 False = Inr (ok, info') \<and> info_ok info' \<and>
    info_map info' = [[0x61] \<mapsto> (False, [1, 2, 3])]"
  using infobuf_receive_refines [of "empty_info None" "[0x61]" "[1, 2, 3]" 0 False]
  by (simp add: receive_chunk_def)

text \<open>
  Clearing everything but the starred keys keeps those, but sets \<open>totalsize\<close> to zero: removing
  the kept keys afterwards takes the count below zero, so that a wrapped-around \<open>totalsize\<close> is what the
  size limit is then compared with.
\<close>

theorem infobuf_clear_loses_size:
  "keys (InfoBuf_Clear info False) = filter (\<lambda>x. first_char (key_name x) = 0x2A) (keys info) \<and>
   totalsize (InfoBuf_Clear info False) = 0 \<and>
   totalsize (snd (InfoBuf_RemoveKey (InfoBuf_Clear (snd (InfoBuf_SetStarKey (empty_info cb) [0x2A, 0x61] [0x62])) False)
     [0x2A, 0x61])) = - 5"
  using Clear_keys [of info False] Clear_keys [of "snd (InfoBuf_SetStarKey (empty_info cb) [0x2A, 0x61] [0x62])" False]
  by (simp add: InfoBuf_Clear_def InfoBuf_SetStarKey_def InfoBuf_SetStarBlobKey_def InfoBuf_FindKey_def empty_info_def
      append_key_def store_value_def InfoBuf_RemoveKey_def new_key_def first_char_def call_ChangeCB_def)

text \<open>
  A copied buffer is not safe to go on receiving into: the copy of a key has room for its value only,
  while \<open>buffersize\<close> is whatever the memory held; when that happens to claim room for the next piece, the
  piece is written behind the copy's memory.
\<close>

theorem infobuf_clone_overflow:
  "InfoBuf_SyncReceive
     (InfoBuf_Clone junk (empty_info None) \<lparr>keys = [\<lparr>partial = True, large = True, key_name = [0x61], key_size = 1,
        buffersize = 3, key_value = [0x62, 0, 0]\<rparr>], totalsize = 4, ChangeCB = None\<rparr>)
     [0x61] [0x63] 1 False
   = (if junk \<ge> 3 then Inl OutOfBounds
      else Inr (True, \<lparr>keys = [\<lparr>partial = True, large = True, key_name = [0x61], key_size = 2,
        buffersize = 5, key_value = [0x62, 0x63, 0, 0, 0]\<rparr>], totalsize = 5, ChangeCB = None\<rparr>))"
  by (simp add: InfoBuf_Clone_def Clear_all empty_info_def clone_key_def key_total_def InfoBuf_SyncReceive_def
      InfoBuf_FindKey_def receive_into_def grow_value_def realloc_bytes_def poke_def InfoBuf_IsLarge_def
      eval_nat_numeral)

end
