(* ===== verification/InfoText.thy ===== *)
theory InfoText
  imports InfoStore
begin

text \<open>
  Whole info buffers as text: the file writer and the info-string writer against the reader,
  and values that arrive in pieces.
\<close>

section \<open>Reading the text of some pairs\<close>

definition pair_text :: "u8 list \<times> u8 list \<Rightarrow> u8 list" where
  "pair_text x = 0x5C # info_encode (fst x) @ 0x5C # info_encode (snd x)"

lemma to_slash_stop: "0 \<notin> set s \<Longrightarrow> 0x5C \<notin> set s \<Longrightarrow> c = 0 \<or> c = 0x5C \<Longrightarrow> to_slash (s @ c # r) = c # r"
  by (induction s) (auto simp: to_slash_def)

lemma to_slash_encoded:
  "c = 0 \<or> c = 0x5C \<Longrightarrow> to_slash (info_encode s @ c # r) = c # r"
  using info_encode_separators [of s] by (intro to_slash_stop) auto

lemma pairs_text_start: "\<exists>c r. concat (map pair_text ps) @ [0] = c # r \<and> (c = 0 \<or> c = 0x5C)"
  by (cases ps) (simp_all add: pair_text_def)

lemma from_string_pairs:
  assumes "\<And>x. x \<in> set ps \<Longrightarrow> 0 \<notin> set (fst x)"
  shows "from_string_loop info (concat (map pair_text ps) @ [0]) = Inr (infobuf.put_all ps info)"
  using assms
proof (induction ps arbitrary: info)
  case (Cons x ps)
  obtain c r where rest: "concat (map pair_text ps) @ [0] = c # r" "c = 0 \<or> c = 0x5C"
    using pairs_text_start by blast
  then have "c \<noteq> 255" by auto
  have key: "to_slash (info_encode (fst x) @ 0x5C # info_encode (snd x) @ c # r) = 0x5C # info_encode (snd x) @ c # r"
    by (rule to_slash_encoded) simp
  have val: "to_slash (info_encode (snd x) @ c # r) = c # r"
    using rest(2) by (rule to_slash_encoded)
  have "InfoBuf_DecodeString (info_encode (fst x) @ 0x5C # info_encode (snd x) @ c # r)
      (Suc (length (info_encode (snd x) @ c # r))) = Inr (fst x)"
    using DecodeString_encode [of "0x5C # info_encode (snd x) @ c # r" "fst x"] by simp
  moreover have "InfoBuf_DecodeString (info_encode (snd x) @ c # r) (Suc (length r)) = Inr (snd x)"
    using DecodeString_encode [of "c # r" "snd x"] \<open>c \<noteq> 255\<close> by simp
  ultimately have "from_string_loop info (pair_text x @ c # r)
      = from_string_loop (snd (InfoBuf_SetStarBlobKey info (c_string (fst x)) (Some (snd x)))) (c # r)"
    by (simp add: pair_text_def key val Let_def)
  then show ?case
    using Cons rest(1) by simp
qed simp

section \<open>A buffer that is read from such a text\<close>

lemma whole_empty [simp]: "whole (empty_info cb)"
  by (simp add: whole_def) (simp add: empty_info_def)

lemma all_fit_pairs: "(\<And>x. x \<in> set ps \<Longrightarrow> 0 \<notin> set (fst x)) \<Longrightarrow> infobuf.all_fit ps info"
  by (induction ps arbitrary: info) auto

lemma visible_whole: "whole info \<Longrightarrow> info_map info key = map_option (Pair True) (visible info key)"
  using whole_map [of info] by (auto simp: whole_def visible_def split: option.splits)

lemma put_all_pairs:
  assumes "\<And>x. x \<in> set ps \<Longrightarrow> 0 \<notin> set (fst x) \<and> snd x \<noteq> []" "distinct (map fst ps)"
  shows "whole (infobuf.put_all ps (empty_info cb))"
    and "info_map (infobuf.put_all ps (empty_info cb)) = (\<lambda>key. map_option (Pair True) (map_of ps key))"
proof -
  have fit: "infobuf.all_fit ps (empty_info cb)" using assms(1) by (intro all_fit_pairs) blast
  show w: "whole (infobuf.put_all ps (empty_info cb))"
    by (rule infobuf.ok_put_all [OF whole_empty fit])
  have "(\<lambda>k. fst (InfoBuf_BlobForKey (infobuf.put_all ps (empty_info cb)) k)) = map_of ps"
  proof (rule infobuf.put_all_is_map [OF whole_empty fit assms(2)])
    show "[] \<notin> snd ` set ps" using assms(1) by force
    show "fst (InfoBuf_BlobForKey (empty_info cb) k) = None" for k
      by (simp add: BlobForKey_visible visible_def)
  qed
  then show "info_map (infobuf.put_all ps (empty_info cb)) = (\<lambda>key. map_option (Pair True) (map_of ps key))"
    using visible_whole [OF w] by (auto simp: BlobForKey_visible fun_eq_iff)
qed

lemma FromString_pairs:
  assumes "\<And>x. x \<in> set ps \<Longrightarrow> 0 \<notin> set (fst x) \<and> snd x \<noteq> []" "distinct (map fst ps)"
  shows "\<exists>info'. InfoBuf_FromString dest (concat (map pair_text ps) @ [0]) False = Inr info' \<and> whole info' \<and>
    info_map info' = (\<lambda>key. map_option (Pair True) (map_of ps key))"
  using from_string_pairs [of ps "empty_info (ChangeCB dest)"] put_all_pairs [OF assms] assms(1)
  by (auto simp: InfoBuf_FromString_def Clear_all)

section \<open>Writing\<close>

definition key_pair :: "infokey_s \<Rightarrow> u8 list \<times> u8 list" where
  "key_pair x = (key_name x, blob x)"

definition saved :: "(u8 list \<Rightarrow> u32 option) \<Rightarrow> u32 \<Rightarrow> u8 list \<Rightarrow> u8 list \<Rightarrow> bool" where
  "saved Cvar_FindVar cvarflags key val \<longleftrightarrow> first_char key \<noteq> 0x2A
     \<and> \<not> (cvarflags \<noteq> 0 \<and> (case Cvar_FindVar key of None \<Rightarrow> False | Some flags \<Rightarrow> flags AND cvarflags \<noteq> 0))
     \<and> length val \<le> 48000"

lemma blob_length: "key_ok x \<Longrightarrow> length (blob x) = key_size x"
  by (simp add: blob_def key_ok_def)

lemma write_keys_text:
  "list_all key_ok ks \<Longrightarrow>
   write_keys cv None flags ks f =
     Inr (f @ concat (map pair_text (map key_pair (filter (\<lambda>x. saved cv flags (key_name x) (blob x)) ks))))"
proof (induction ks arbitrary: f)
  case (Cons x ks)
  then show ?case
    by (auto simp: saved_def EncodeString_Malloc_text blob_length pair_text_def key_pair_def
        simp flip: blob_def split: option.splits)
qed simp

lemma map_of_filtered:
  assumes "distinct (map key_name ks)" "\<And>x. x \<in> set ks \<Longrightarrow> P x \<longleftrightarrow> Q (key_name x) (blob x)"
  shows "map_of (map key_pair (filter P ks)) k =
    (case map_of (map entry ks) k of Some (c, v) \<Rightarrow> if Q k v then Some v else None | None \<Rightarrow> None)"
  using assms
proof (induction ks)
  case (Cons x ks)
  have "map_of (map entry ks) (key_name x) = None"
    using Cons.prems(1) by (simp add: map_of_eq_None_iff)
  then have "map_of (map (\<lambda>a. (key_name a, \<not> partial a, blob a)) ks) (key_name x) = None"
    by (simp add: entry_def [abs_def])
  with Cons show ?case by (auto simp: key_pair_def entry_def split: option.splits)
qed simp

lemma key_pairs_ok:
  assumes "info_ok info" "set ks \<subseteq> set (keys info)" "distinct (map key_name ks)"
  shows "(\<forall>x \<in> set (map key_pair ks). 0 \<notin> set (fst x) \<and> snd x \<noteq> []) \<and> distinct (map fst (map key_pair ks))"
proof -
  have "map fst (map key_pair ks) = map key_name ks" by (simp add: key_pair_def comp_def)
  moreover have "0 \<notin> set (key_name x)" "blob x \<noteq> []" if "x \<in> set ks" for x
  proof -
    have "key_ok x" using that assms(1,2) by (auto simp: info_ok_def list_all_iff)
    then show "0 \<notin> set (key_name x)" "blob x \<noteq> []" by (auto simp: key_ok_def blob_def)
  qed
  ultimately show ?thesis using assms(3) by (auto simp: key_pair_def comp_def)
qed

text \<open>
  C28. Saving and loading loses nothing.  What \<open>InfoBuf_WriteToFile\<close> writes for a well-formed buffer, read
  by \<open>InfoBuf_FromString\<close> into any buffer, gives a buffer with exactly the pairs that are saved (not
  starred, not kept by a console variable of these flags, at most 48000 bytes), with their values
  to the byte, binary ones included.
\<close>

theorem infobuf_file_roundtrip:
  assumes "info_ok info"
  shows "\<exists>str info'. InfoBuf_WriteToFile Cvar_FindVar [] info None cvarflags = Inr str \<and>
    InfoBuf_FromString dest (str @ [0]) False = Inr info' \<and> info_ok info' \<and>
    info_map info' = (\<lambda>key. case info_map info key of
      Some (c, v) \<Rightarrow> if saved Cvar_FindVar cvarflags key v then Some (True, v) else None | None \<Rightarrow> None)"
proof -
  define ks where "ks = filter (\<lambda>x. saved Cvar_FindVar cvarflags (key_name x) (blob x)) (keys info)"
  have ks: "set ks \<subseteq> set (keys info)" "distinct (map key_name ks)"
    using assms by (auto simp: ks_def info_ok_def distinct_map_filter)
  obtain info' where info': "InfoBuf_FromString dest (concat (map pair_text (map key_pair ks)) @ [0]) False = Inr info'"
      "whole info'" "info_map info' = (\<lambda>key. map_option (Pair True) (map_of (map key_pair ks) key))"
    using FromString_pairs [of "map key_pair ks" dest] key_pairs_ok [OF assms ks] by blast
  have "InfoBuf_WriteToFile Cvar_FindVar [] info None cvarflags = Inr (concat (map pair_text (map key_pair ks)))"
    using assms write_keys_text [of "keys info" Cvar_FindVar cvarflags "[]"]
    by (simp add: InfoBuf_WriteToFile_def ks_def info_ok_def)
  moreover have "map_of (map key_pair ks) key = (case info_map info key of
      Some (c, v) \<Rightarrow> if saved Cvar_FindVar cvarflags key v then Some v else None | None \<Rightarrow> None)" for key
    using map_of_filtered [of "keys info" "\<lambda>x. saved Cvar_FindVar cvarflags (key_name x) (blob x)"
        "saved Cvar_FindVar cvarflags" key] assms
    by (simp add: ks_def info_map_def info_ok_def)
  then have "info_map info' = (\<lambda>key. case info_map info key of
      Some (c, v) \<Rightarrow> if saved Cvar_FindVar cvarflags key v then Some (True, v) else None | None \<Rightarrow> None)"
    by (auto simp: info'(3) fun_eq_iff split: option.splits)
  ultimately show ?thesis
    using info' by (auto simp: whole_def)
qed

theorem infobuf_file_roundtrip_witness:
  "\<exists>str info'. InfoBuf_WriteToFile (\<lambda>_. None) [] (snd (InfoBuf_SetStarBlobKey (empty_info None) [0x61] (Some [0x22, 0])))
      None 0 = Inr str \<and> InfoBuf_FromString (empty_info None) (str @ [0]) False = Inr info' \<and>
    info_map info' [0x61] = Some (True, [0x22, 0])"
proof -
  let ?info = "snd (InfoBuf_SetStarBlobKey (empty_info None) [0x61] (Some [0x22, 0]))"
  have "info_ok ?info \<and> info_map ?info = set_value (info_map (empty_info None)) [0x61] [0x22, 0]"
    using SetStarBlobKey_spec [of "empty_info None" "[0x61]" "[0x22, 0]" "Some [0x22, 0]"] by simp
  then show ?thesis
    using infobuf_file_roundtrip [of ?info "\<lambda>_. None" 0 "empty_info None"]
    by (auto simp: set_value_def saved_def first_char_def)
qed

section \<open>Info strings\<close>

lemma put_key_text:
  assumes "int (length out) < cap \<or> out = []" "0 \<le> cap"
  shows "put_key False cap ctx x (out, r, sync) =
    (let t = pair_text (key_pair x) in
     if large x then (out, r, add_sync ctx (key_name x) sync)
     else if int (length (out @ t)) < cap then (out @ t, r + length t, sync)
     else (out, r + length t, add_sync ctx (key_name x) sync))"
proof -
  have out: "take (nat cap) out = out" using assms(1) by auto
  have s1: "InfoBuf_EncodeStringSlash (key_name x) cap out
      = (1 + length (info_encode (key_name x)), take (nat cap) (out @ 0x5C # info_encode (key_name x)))"
    using EncodeStringSlash_text [of "key_name x" cap out] by (simp only: out)
  have s2: "InfoBuf_EncodeStringSlash (blob x) cap (take (nat cap) (out @ 0x5C # info_encode (key_name x)))
      = (1 + length (info_encode (blob x)), take (nat cap) (out @ pair_text (key_pair x)))"
    using EncodeStringSlash_text [of "blob x" cap "out @ 0x5C # info_encode (key_name x)"]
    by (simp add: pair_text_def key_pair_def)
  have len: "length (pair_text (key_pair x)) = 1 + length (info_encode (key_name x)) + (1 + length (info_encode (blob x)))"
    by (simp add: pair_text_def key_pair_def)
  have full: "take (nat cap) (out @ pair_text (key_pair x)) = out @ pair_text (key_pair x)"
    if "int (length (out @ pair_text (key_pair x))) < cap"
    using that by simp
  show ?thesis
    unfolding put_key_def prod.case s1 Let_def blob_def [symmetric] s2
    using full by (simp add: len del: take_append length_append) (simp add: len)
qed

definition queued :: "infosync option \<Rightarrow> nat \<Rightarrow> u8 list \<Rightarrow> bool" where
  "queued sync ctx nm \<longleftrightarrow> (\<exists>s. sync = Some s \<and> (\<exists>y \<in> set s. sync_context y = ctx \<and> sync_name y = nm \<and> syncpos y = 0))"

lemma InfoSync_Add_queued: "\<exists>y \<in> set (InfoSync_Add s ctx nm). sync_context y = ctx \<and> sync_name y = nm \<and> syncpos y = 0"
  by (induction s) auto

lemma InfoSync_Add_keeps:
  "y \<in> set s \<Longrightarrow> syncpos y = 0 \<Longrightarrow>
   \<exists>z \<in> set (InfoSync_Add s ctx nm). sync_context z = sync_context y \<and> sync_name z = sync_name y \<and> syncpos z = 0"
  by (induction s) auto

lemma add_sync_queued:
  "sync \<noteq> None \<Longrightarrow> queued (add_sync ctx nm sync) ctx nm"
  "queued sync ctx' nm' \<Longrightarrow> queued (add_sync ctx nm sync) ctx' nm'"
  by (auto simp: queued_def add_sync_def InfoSync_Add_queued) (metis InfoSync_Add_keeps)

text \<open>The keys a pass looks at.\<close>

definition candidate ::
    "u8 list list option \<Rightarrow> u8 list list option \<Rightarrow> infokey_s \<Rightarrow> bool" where
  "candidate ignore exclusive x \<longleftrightarrow>
     (case exclusive of None \<Rightarrow> True | Some l \<Rightarrow> listed l (key_name x)) \<and>
     (case ignore of None \<Rightarrow> True | Some l \<Rightarrow> \<not> listed l (key_name x))"

lemma to_string_step:
  "to_string_loop nul cap ctx priority ignore exclusive pri (x # ks) st =
   to_string_loop nul cap ctx priority ignore exclusive pri ks
     (if candidate ignore exclusive x \<and> key_priority priority (key_name x) = pri then put_key nul cap ctx x st else st)"
  by (simp add: candidate_def split: option.splits)

declare to_string_loop.simps(2) [simp del]

text \<open>What a pass over \<open>ks\<close> leaves: the keys whose text it wrote, the others in the queue.\<close>

definition chosen :: "u8 list list option \<Rightarrow> u8 list list option \<Rightarrow> u8 list list option \<Rightarrow> nat \<Rightarrow> infokey_s \<Rightarrow> bool" where
  "chosen priority ignore exclusive pri x \<longleftrightarrow> candidate ignore exclusive x \<and> key_priority priority (key_name x) = pri"

definition pass_text :: "infokey_s list \<Rightarrow> u8 list" where
  "pass_text sent = concat (map (pair_text \<circ> key_pair) sent)"

definition pass_result ::
    "(infokey_s \<Rightarrow> bool) \<Rightarrow> nat \<Rightarrow> infokey_s list \<Rightarrow> infosync option \<Rightarrow> infokey_s list \<Rightarrow> infosync option \<Rightarrow> bool" where
  "pass_result P ctx ks sync sent sync' \<longleftrightarrow>
     set sent \<subseteq> set ks \<and> (\<forall>x \<in> set sent. P x \<and> \<not> large x) \<and>
     (distinct (map key_name ks) \<longrightarrow> distinct (map key_name sent)) \<and> sync' \<noteq> None \<and>
     (\<forall>nm. queued sync ctx nm \<longrightarrow> queued sync' ctx nm) \<and>
     (\<forall>x \<in> set ks. P x \<longrightarrow> x \<in> set sent \<or> queued sync' ctx (key_name x))"

lemma pass_result_sent:
  assumes "pass_result P ctx ks sync sent sync'" "P x" "\<not> large x"
  shows "pass_result P ctx (x # ks) sync (x # sent) sync'"
  using assms by (auto simp: pass_result_def)

lemma pass_result_skipped:
  assumes "pass_result P ctx ks sync1 sent sync'" "\<And>nm. queued sync ctx nm \<Longrightarrow> queued sync1 ctx nm"
    and "P x \<Longrightarrow> queued sync1 ctx (key_name x)"
  shows "pass_result P ctx (x # ks) sync sent sync'"
  using assms by (auto simp: pass_result_def)

lemma to_string_loop_text:
  assumes "int (length out) < cap \<or> out = []" "0 \<le> cap" "sync \<noteq> None"
  shows "\<exists>sent r' sync'. to_string_loop False cap ctx priority ignore exclusive pri ks (out, r, sync)
      = (out @ pass_text sent, r', sync')
    \<and> (int (length (out @ pass_text sent)) < cap \<or> out @ pass_text sent = [])
    \<and> pass_result (chosen priority ignore exclusive pri) ctx ks sync sent sync'"
  using assms
proof (induction ks arbitrary: out r sync)
  case Nil
  then show ?case by (intro exI [of _ "[]"]) (simp add: pass_text_def pass_result_def)
next
  case (Cons x ks)
  let ?c = "candidate ignore exclusive x \<and> key_priority priority (key_name x) = pri"
  let ?t = "pair_text (key_pair x)"
  show ?case
  proof (cases "?c \<and> \<not> large x \<and> int (length (out @ ?t)) < cap")
    case True
    then have "int (length (out @ ?t)) < cap \<or> out @ ?t = []" by simp
    from Cons.IH [OF this Cons.prems(2,3), of "r + length ?t"] obtain sent r' sync' where
      IH: "to_string_loop False cap ctx priority ignore exclusive pri ks (out @ ?t, r + length ?t, sync)
          = ((out @ ?t) @ pass_text sent, r', sync')"
        "int (length ((out @ ?t) @ pass_text sent)) < cap \<or> (out @ ?t) @ pass_text sent = []"
        "pass_result (chosen priority ignore exclusive pri) ctx ks sync sent sync'"
      by blast
    have t: "out @ pass_text (x # sent) = (out @ ?t) @ pass_text sent"
      by (simp add: pass_text_def)
    have "to_string_loop False cap ctx priority ignore exclusive pri (x # ks) (out, r, sync)
        = (out @ pass_text (x # sent), r', sync')"
      unfolding t IH(1) [symmetric] to_string_step put_key_text [OF Cons.prems(1,2)] Let_def using True by simp
    moreover have "pass_result (chosen priority ignore exclusive pri) ctx (x # ks) sync (x # sent) sync'"
      using True by (intro pass_result_sent [OF IH(3)]) (simp_all add: chosen_def)
    ultimately show ?thesis
      using IH(2) unfolding t [symmetric] by blast
  next
    case False
    define sync1 where "sync1 = (if ?c then add_sync ctx (key_name x) sync else sync)"
    have s1: "sync1 \<noteq> None" "queued sync ctx nm \<Longrightarrow> queued sync1 ctx nm" "?c \<Longrightarrow> queued sync1 ctx (key_name x)" for nm
      using Cons.prems(3) add_sync_queued by (auto simp: sync1_def add_sync_def)
    define r1 where "r1 = (if ?c \<and> \<not> large x then r + length ?t else r)"
    have step: "to_string_loop False cap ctx priority ignore exclusive pri (x # ks) (out, r, sync)
        = to_string_loop False cap ctx priority ignore exclusive pri ks (out, r1, sync1)"
      using False unfolding to_string_step put_key_text [OF Cons.prems(1,2)] Let_def sync1_def r1_def
      by (cases "large x"; cases "candidate ignore exclusive x"; cases "key_priority priority (key_name x) = pri")
        simp_all
    from Cons.IH [OF Cons.prems(1,2) s1(1), of r1] obtain sent r' sync' where
      IH: "to_string_loop False cap ctx priority ignore exclusive pri ks (out, r1, sync1) = (out @ pass_text sent, r', sync')"
        "int (length (out @ pass_text sent)) < cap \<or> out @ pass_text sent = []"
        "pass_result (chosen priority ignore exclusive pri) ctx ks sync1 sent sync'"
      by blast
    have "pass_result (chosen priority ignore exclusive pri) ctx (x # ks) sync sent sync'"
      using s1 by (intro pass_result_skipped [OF IH(3)]) (simp_all add: chosen_def)
    with IH(1,2) show ?thesis
      unfolding step by blast
  qed
qed

lemma not_large_complete: "key_ok x \<Longrightarrow> \<not> large x \<Longrightarrow> \<not> partial x"
  by (auto simp: key_ok_def InfoBuf_IsLarge_def)

lemma ToString_text:
  assumes "info_ok info" "0 < maxsize"
  shows "\<exists>sent r sync'. InfoBuf_ToString info (Some maxsize) priority ignore exclusive (Some sync) ctx
      = Inr (pass_text sent, r, Some sync') \<and> length (pass_text sent) < maxsize
    \<and> set sent \<subseteq> set (keys info) \<and> (\<forall>x \<in> set sent. \<not> large x) \<and> distinct (map key_name sent)
    \<and> (\<forall>x \<in> set (keys info). candidate ignore exclusive x \<longrightarrow> x \<in> set sent \<or> queued (Some sync') ctx (key_name x))"
proof -
  let ?cap = "int maxsize - 1"
  let ?pass = "\<lambda>pri. to_string_loop False ?cap ctx priority ignore exclusive pri (keys info)"
  let ?P = "chosen priority ignore exclusive"
  have cap: "0 \<le> ?cap" using assms(2) by simp
  obtain s0 r0 q0 where p0: "?pass 0 ([], 1, Some (InfoSync_Strip sync ctx)) = (pass_text s0, r0, q0)"
      "int (length (pass_text s0)) < ?cap \<or> pass_text s0 = []"
      "pass_result (?P 0) ctx (keys info) (Some (InfoSync_Strip sync ctx)) s0 q0"
    using to_string_loop_text [of "[]" ?cap "Some (InfoSync_Strip sync ctx)" ctx priority ignore exclusive 0 "keys info" 1]
      cap by auto
  have "q0 \<noteq> None" using p0(3) by (simp add: pass_result_def)
  then obtain s1 r1 q1 where p1: "?pass 1 (pass_text s0, r0, q0) = (pass_text s0 @ pass_text s1, r1, q1)"
      "int (length (pass_text s0 @ pass_text s1)) < ?cap \<or> pass_text s0 @ pass_text s1 = []"
      "pass_result (?P 1) ctx (keys info) q0 s1 q1"
    using to_string_loop_text [OF p0(2) cap, of q0 ctx priority ignore exclusive 1 "keys info" r0] by auto
  have joined: "pass_text (s0 @ s1) = pass_text s0 @ pass_text s1" by (simp add: pass_text_def)
  have dist: "distinct (map key_name (keys info))" using assms(1) by (simp add: info_ok_def)
  obtain sync' where q1: "q1 = Some sync'" using p1(3) by (auto simp: pass_result_def)
  have "InfoBuf_ToString info (Some maxsize) priority ignore exclusive (Some sync) ctx
      = Inr (pass_text (s0 @ s1), r1, Some sync')"
    using p0(1) p1(1,2) q1 assms(2) by (auto simp: InfoBuf_ToString_def Let_def joined)
  moreover have "length (pass_text (s0 @ s1)) < maxsize" using p1(2) assms(2) by (auto simp: joined)
  moreover have "set (s0 @ s1) \<subseteq> set (keys info)" "\<forall>x \<in> set (s0 @ s1). \<not> large x"
    using p0(3) p1(3) by (auto simp: pass_result_def)
  moreover have "key_name x \<noteq> key_name y" if "x \<in> set s0" "y \<in> set s1" for x y
    using that p0(3) p1(3) by (auto simp: pass_result_def chosen_def)
  then have "distinct (map key_name (s0 @ s1))"
    using dist p0(3) p1(3) by (auto simp: pass_result_def)
  moreover have "x \<in> set (s0 @ s1) \<or> queued (Some sync') ctx (key_name x)"
    if x: "x \<in> set (keys info)" "candidate ignore exclusive x" for x
  proof -
    have "key_priority priority (key_name x) = 0 \<or> key_priority priority (key_name x) = 1"
      by (simp add: key_priority_def split: option.splits)
    then have "?P 0 x \<or> ?P 1 x" using x(2) by (auto simp: chosen_def)
    then show ?thesis
    proof
      assume "?P 0 x"
      then have "x \<in> set s0 \<or> queued q0 ctx (key_name x)" using p0(3) x(1) by (auto simp: pass_result_def)
      then show ?thesis using p1(3) q1 by (auto simp: pass_result_def)
    next
      assume "?P 1 x"
      then show ?thesis using p1(3) x(1) q1 by (auto simp: pass_result_def)
    qed
  qed
  ultimately show ?thesis by blast
qed

text \<open>
  C29. No key gets lost between the info string and the queue of keys to send.  For a well-formed buffer and a
  string buffer of any positive size, \<open>InfoBuf_ToString\<close> stays inside it; reading the string back gives
  only pairs the buffer has, complete and to the byte; and every key the filters let through is
  either read back with its value or left in the sync queue, to be sent from the start.
\<close>

theorem infobuf_tostring_or_sync:
  assumes "info_ok info" "0 < maxsize"
  shows "\<exists>str r sync' info'.
    InfoBuf_ToString info (Some maxsize) priority ignore exclusive (Some sync) ctx = Inr (str, r, Some sync') \<and>
    length str < maxsize \<and> InfoBuf_FromString dest (str @ [0]) False = Inr info' \<and> info_ok info' \<and>
    (\<forall>key e. info_map info' key = Some e \<longrightarrow> info_map info key = Some e) \<and>
    (\<forall>x \<in> set (keys info). candidate ignore exclusive x \<longrightarrow>
       info_map info' (key_name x) = Some (True, blob x) \<or> queued (Some sync') ctx (key_name x))"
proof -
  obtain sent r sync' where s: "InfoBuf_ToString info (Some maxsize) priority ignore exclusive (Some sync) ctx
        = Inr (pass_text sent, r, Some sync')" "length (pass_text sent) < maxsize" "set sent \<subseteq> set (keys info)"
      "\<forall>x \<in> set sent. \<not> large x" "distinct (map key_name sent)"
      "\<forall>x \<in> set (keys info). candidate ignore exclusive x \<longrightarrow> x \<in> set sent \<or> queued (Some sync') ctx (key_name x)"
    using ToString_text [OF assms] by blast
  have joined: "concat (map pair_text (map key_pair sent)) = pass_text sent"
    by (simp add: pass_text_def)
  obtain info' where info': "InfoBuf_FromString dest (pass_text sent @ [0]) False = Inr info'" "whole info'"
      "info_map info' = (\<lambda>key. map_option (Pair True) (map_of (map key_pair sent) key))"
    using FromString_pairs [of "map key_pair sent" dest, unfolded joined] key_pairs_ok [OF assms(1) s(3,5)] by blast
  have sent: "map_of (map key_pair sent) (key_name x) = Some (blob x)" if "x \<in> set sent" for x
    using that s(5) by (auto simp: key_pair_def comp_def intro!: map_of_is_SomeI)
  have "info_map info key = Some e" if e: "info_map info' key = Some e" for key e
  proof -
    obtain v where v: "e = (True, v)" "map_of (map key_pair sent) key = Some v"
      using e by (auto simp: info'(3))
    from map_of_SomeD [OF v(2)] obtain x where x: "x \<in> set sent" "key = key_name x" "v = blob x"
      by (auto simp: key_pair_def)
    then have "key_ok x" using s(3) assms(1) by (auto simp: info_ok_def list_all_iff)
    with x s(3,4) v(1) in_keys_map [OF assms(1), of x] show ?thesis
      using not_large_complete by auto
  qed
  moreover have "info_map info' (key_name x) = Some (True, blob x) \<or> queued (Some sync') ctx (key_name x)"
    if "x \<in> set (keys info)" "candidate ignore exclusive x" for x
    using s(6) that sent [of x] by (auto simp: info'(3))
  moreover have "info_ok info'" using info'(2) by (simp add: whole_def)
  ultimately show ?thesis using s(1,2) info'(1) by blast
qed

theorem infobuf_tostring_or_sync_witness:
  "let info = snd (InfoBuf_SetStarBlobKey (empty_info None) [0x61] (Some [0x22, 0])) in
   \<exists>str r sync' info'.
    InfoBuf_ToString info (Some 8) None None None (Some []) 3 = Inr (str, r, Some sync') \<and>
    length str < 8 \<and> InfoBuf_FromString (empty_info None) (str @ [0]) False = Inr info' \<and> info_ok info' \<and>
    (\<forall>key e. info_map info' key = Some e \<longrightarrow> info_map info key = Some e) \<and>
    (\<forall>x \<in> set (keys info). candidate None None x \<longrightarrow>
       info_map info' (key_name x) = Some (True, blob x) \<or> queued (Some sync') 3 (key_name x))"
  unfolding Let_def by (rule infobuf_tostring_or_sync) (simp_all add: SetStarBlobKey_ok)

end
