(* ===== verification/InfoString.thy ===== *)
theory InfoString
  imports InfoStore
begin

text \<open>
  The older info strings of \<open>engine/common/common.c\<close>: keys and values in one C string,
  \<open>\key\value\key\value\<close>, searched and edited in place.  A pointer into the string is the list of
  the bytes from it to the end of the object that holds it, and an edit returns those bytes anew.
  Keys and values that come as arguments are the bytes of their C strings.  The functions return
  pointers to static arrays, here the string in them.  The model is that of a build
  with the client (\<open>SERVERONLY\<close> undefined).
\<close>

section \<open>Walking over keys and values\<close>

text \<open>
  The inner loops.  \<open>scan_key\<close> copies up to the next backslash into \<open>pkey[1024]\<close>, and gives up
  at the end of the string or when the array is nearly full; \<open>scan_value\<close> stops at a
  backslash or at the end.  \<open>copy_key\<close> and \<open>copy_value\<close> are the loops of the editing functions, which do
  not look at the room in their arrays.
\<close>

fun scan_key :: "u8 list \<Rightarrow> u8 list \<Rightarrow> (u8 list \<times> u8 list) option res" where
  "scan_key [] pkey = Inl OutOfBounds"
| "scan_key (c # s) pkey =
     (if c = 0x5C then Inr (Some (pkey, s))
      else if c = 0 then Inr None
      else if length pkey + 1 + 2 \<ge> 1024 then Inr None
      else scan_key s (pkey @ [c]))"

fun scan_value :: "u8 list \<Rightarrow> u8 list \<Rightarrow> (u8 list \<times> u8 list) option res" where
  "scan_value [] val = Inl OutOfBounds"
| "scan_value (c # s) val =
     (if c = 0x5C \<or> c = 0 then Inr (Some (val, c # s))
      else if length val + 1 + 2 \<ge> 1024 then Inr None
      else scan_value s (val @ [c]))"

fun skip_value :: "u8 list \<Rightarrow> u8 list res" where
  "skip_value [] = Inl OutOfBounds"
| "skip_value (c # s) = (if c = 0x5C \<or> c = 0 then Inr (c # s) else skip_value s)"

fun copy_key :: "u8 list \<Rightarrow> u8 list \<Rightarrow> (u8 list \<times> u8 list) option res" where
  "copy_key [] pkey = Inl OutOfBounds"
| "copy_key (c # s) pkey =
     (if c = 0x5C then rbind (put_byte 1024 pkey 0) (\<lambda>_. Inr (Some (pkey, s)))
      else if c = 0 then Inr None
      else rbind (put_byte 1024 pkey c) (copy_key s))"

fun copy_value :: "u8 list \<Rightarrow> u8 list \<Rightarrow> (u8 list \<times> u8 list) res" where
  "copy_value [] val = Inl OutOfBounds"
| "copy_value (c # s) val =
     (if c = 0x5C \<or> c = 0 then rbind (put_byte 1024 val 0) (\<lambda>_. Inr (val, c # s))
      else rbind (put_byte 1024 val c) (copy_value s))"

text \<open>\<open>if (*s == '\\') s++\<close>.\<close>

definition skip_slash :: "u8 list \<Rightarrow> u8 list" where
  "skip_slash s = (if s \<noteq> [] \<and> hd s = 0x5C then tl s else s)"

lemma skip_slash_length: "length (skip_slash s) \<le> length s"
  by (simp add: skip_slash_def)

lemma skip_slash_Cons [simp]: "skip_slash (0x5C # s) = s"
  by (simp add: skip_slash_def)

lemma scan_key_shorter: "scan_key s p = Inr (Some (k, r)) \<Longrightarrow> length r < length s"
  by (induction s p rule: scan_key.induct) (auto split: if_splits)

lemma scan_value_shorter: "scan_value s p = Inr (Some (v, r)) \<Longrightarrow> length r \<le> length s"
  by (induction s p rule: scan_value.induct) (auto split: if_splits)

lemma skip_value_shorter: "skip_value s = Inr r \<Longrightarrow> length r \<le> length s"
  by (induction s rule: skip_value.induct) (auto split: if_splits)

lemma copy_key_shorter: "copy_key s p = Inr (Some (k, r)) \<Longrightarrow> length r < length s"
  by (induction s arbitrary: p) (fastforce simp: rbind_eq_Inr split: if_splits)+

lemma copy_value_shorter: "copy_value s p = Inr (v, r) \<Longrightarrow> length r \<le> length s"
  by (induction s arbitrary: p) (fastforce simp: rbind_eq_Inr split: if_splits)+

section \<open>Looking up\<close>

text \<open>The body of \<open>while (1)\<close>; the last \<open>s++\<close> of an iteration steps over the backslash.\<close>

function value_for_key_loop :: "u8 list \<Rightarrow> u8 list \<Rightarrow> u8 list res" where
  "value_for_key_loop s key =
     rbind (scan_key s []) (\<lambda>k. case k of None \<Rightarrow> Inr [] | Some (pkey, s1) \<Rightarrow>
     rbind (scan_value s1 []) (\<lambda>v. case v of None \<Rightarrow> Inr [] | Some (val, s2) \<Rightarrow>
       if key = pkey then Inr val
       else rbind (read_char s2) (\<lambda>c.
         if c = 0 then Inr [] else value_for_key_loop (tl s2) key)))"
  by pat_completeness auto
termination
  by (relation "measure (length \<circ> fst)") (auto dest!: scan_key_shorter scan_value_shorter)

definition Info_ValueForKey :: "u8 list \<Rightarrow> u8 list \<Rightarrow> u8 list res" where
  "Info_ValueForKey s key = value_for_key_loop (skip_slash s) key"

function key_for_number_loop :: "u8 list \<Rightarrow> int \<Rightarrow> u8 list res" where
  "key_for_number_loop s num =
     rbind (scan_key s []) (\<lambda>k. case k of None \<Rightarrow> Inr [] | Some (pkey, s1) \<Rightarrow>
     rbind (skip_value s1) (\<lambda>s2.
       if num = 0 then Inr pkey
       else rbind (read_char s2) (\<lambda>c.
         if c = 0 then Inr [] else key_for_number_loop (tl s2) (num - 1))))"
  by pat_completeness auto
termination
  by (relation "measure (length \<circ> fst)") (auto dest!: scan_key_shorter skip_value_shorter)

definition Info_KeyForNumber :: "u8 list \<Rightarrow> int \<Rightarrow> u8 list res" where
  "Info_KeyForNumber s num = key_for_number_loop (skip_slash s) num"

declare value_for_key_loop.simps [simp del] key_for_number_loop.simps [simp del]

section \<open>Removing\<close>

text \<open>
  \<open>while (*s) *start++ = *s++; *start = 0\<close>: the string at \<open>s\<close> moves down to \<open>start\<close>; what lies behind
  its new terminator is left as it was.
\<close>

definition move_down :: "u8 list \<Rightarrow> u8 list \<Rightarrow> u8 list res" where
  "move_down start s =
     (if 0 \<in> set s then Inr (c_string s @ 0 # drop (length (c_string s) + 1) start) else Inl OutOfBounds)"

function remove_key_loop :: "u8 list \<Rightarrow> u8 list \<Rightarrow> u8 list res" where
  "remove_key_loop start key =
     rbind (copy_key (skip_slash start) []) (\<lambda>k. case k of None \<Rightarrow> Inr start | Some (pkey, s1) \<Rightarrow>
     rbind (copy_value s1 []) (\<lambda>(val, s2).
       if key = pkey then move_down start s2
       else rbind (read_char s2) (\<lambda>c.
         if c = 0 then Inr start
         else rbind (remove_key_loop s2 key) (\<lambda>s'.
           Inr (take (length start - length s2) start @ s')))))"
  by pat_completeness auto
termination
  using skip_slash_length
  by (relation "measure (length \<circ> fst)")
    (auto dest!: copy_key_shorter copy_value_shorter simp: less_le_trans order.strict_trans1)

declare remove_key_loop.simps [simp del]

definition Info_RemoveKey :: "u8 list \<Rightarrow> u8 list \<Rightarrow> u8 list res" where
  "Info_RemoveKey s key = (if 0x5C \<in> set key then Inr s else remove_key_loop s key)"

text \<open>The loop starts over after each key it removes: it is run with fuel.\<close>

fun remove_prefixed_loop :: "nat \<Rightarrow> u8 list \<Rightarrow> u8 list \<Rightarrow> u8 \<Rightarrow> u8 list res" where
  "remove_prefixed_loop 0 start s prefix = Inl OutOfFuel"
| "remove_prefixed_loop (Suc n) start s prefix =
     rbind (copy_key (skip_slash s) []) (\<lambda>k. case k of None \<Rightarrow> Inr start | Some (pkey, s1) \<Rightarrow>
     rbind (copy_value s1 []) (\<lambda>(val, s2).
     rbind (if first_char pkey = prefix
            then rbind (Info_RemoveKey start pkey) (\<lambda>start. Inr (start, start))
            else Inr (start, s2)) (\<lambda>(start, s).
     rbind (read_char s) (\<lambda>c.
       if c = 0 then Inr start else remove_prefixed_loop n start s prefix))))"

definition Info_RemovePrefixedKeys :: "nat \<Rightarrow> u8 list \<Rightarrow> u8 \<Rightarrow> u8 list res" where
  "Info_RemovePrefixedKeys n start prefix = remove_prefixed_loop n start start prefix"

section \<open>Setting\<close>

definition MAX_INFO_KEY :: nat where "MAX_INFO_KEY = 256"

lemma copy_key_length_eq: "copy_key s p = Inr (Some (k, r)) \<Longrightarrow>
    length k < 1024 \<and> (\<exists>a. s = a @ 0x5C # r \<and> k = p @ a \<and> 0x5C \<notin> set a \<and> 0 \<notin> set a)"
proof (induction s arbitrary: p)
  case (Cons c s)
  show ?case
  proof (cases "c = 0x5C \<or> c = 0")
    case True
    with Cons.prems show ?thesis by (auto simp: rbind_eq_Inr put_byte_def split: if_splits)
  next
    case False
    with Cons.prems have "copy_key s (p @ [c]) = Inr (Some (k, r))"
      by (auto simp: rbind_eq_Inr put_byte_def split: if_splits)
    from Cons.IH [OF this] obtain a where "length k < 1024" "s = a @ 0x5C # r" "k = (p @ [c]) @ a"
      "0x5C \<notin> set a" "0 \<notin> set a" by blast
    with False show ?thesis by (intro conjI exI [of _ "c # a"]) auto
  qed
qed simp

lemma copy_value_eq: "copy_value s p = Inr (v, r) \<Longrightarrow>
    length v < 1024 \<and> (\<exists>a. s = a @ r \<and> v = p @ a \<and> 0x5C \<notin> set a \<and> 0 \<notin> set a) \<and>
    (\<exists>c r'. r = c # r' \<and> (c = 0x5C \<or> c = 0))"
proof (induction s arbitrary: p)
  case (Cons c s)
  show ?case
  proof (cases "c = 0x5C \<or> c = 0")
    case True
    with Cons.prems show ?thesis by (auto simp: rbind_eq_Inr put_byte_def split: if_splits)
  next
    case False
    with Cons.prems have "copy_value s (p @ [c]) = Inr (v, r)"
      by (auto simp: rbind_eq_Inr put_byte_def split: if_splits)
    from Cons.IH [OF this] obtain a c' r' where "length v < 1024" "s = a @ r" "v = (p @ [c]) @ a"
      "0x5C \<notin> set a" "0 \<notin> set a" "r = c' # r'" "c' = 0x5C \<or> c' = 0" by blast
    with False show ?thesis by (intro conjI exI [of _ "c # a"]) auto
  qed
qed simp

lemma pair_prefix:
  assumes "copy_key (skip_slash s) [] = Inr (Some (k, s1))" "copy_value s1 [] = Inr (v, s2)"
  obtains pre where "s = pre @ s2" "pre \<noteq> []" "0 \<notin> set pre" "take (length s - length s2) s = pre"
proof -
  obtain a b where "skip_slash s = a @ 0x5C # s1" "0 \<notin> set a" "s1 = b @ s2" "0 \<notin> set b"
    using copy_key_length_eq [OF assms(1)] copy_value_eq [OF assms(2)] by auto
  moreover define h :: "u8 list" where "h = (if s \<noteq> [] \<and> hd s = 0x5C then [0x5C] else [])"
  moreover have "s = h @ skip_slash s" "0 \<notin> set h"
    by (cases s) (auto simp: skip_slash_def h_def)
  ultimately have "s = (h @ a @ 0x5C # b) @ s2" "0 \<notin> set (h @ a @ 0x5C # b)" by simp_all
  then show ?thesis by (intro that [of "h @ a @ 0x5C # b"]) simp_all
qed

lemma scan_copy_key: "scan_key s p = Inr (Some x) \<Longrightarrow> length p < 1022 \<Longrightarrow> copy_key s p = Inr (Some x)"
  by (induction s p rule: scan_key.induct) (auto simp: put_byte_def split: if_splits)

lemma scan_copy_value: "scan_value s p = Inr (Some x) \<Longrightarrow> length p < 1022 \<Longrightarrow> copy_value s p = Inr x"
  by (induction s p rule: scan_value.induct) (auto simp: put_byte_def split: if_splits)

lemma c_string_prefix: "0 \<notin> set pre \<Longrightarrow> c_string (pre @ r) = pre @ c_string r"
  by (induction pre) (auto simp: c_string_def)

lemma remove_shorter:
  "value_for_key_loop (skip_slash s) key = Inr v \<Longrightarrow> v \<noteq> [] \<Longrightarrow> remove_key_loop s key = Inr s' \<Longrightarrow>
   length (c_string s') < length (c_string s)"
proof (induction s key arbitrary: s' rule: remove_key_loop.induct)
  case (1 s key)
  from 1(2) obtain pkey s1 val s2 where
    scan: "scan_key (skip_slash s) [] = Inr (Some (pkey, s1))" "scan_value s1 [] = Inr (Some (val, s2))"
    and lookup: "(if key = pkey then Inr val
       else rbind (read_char s2) (\<lambda>c. if c = 0 then Inr [] else value_for_key_loop (tl s2) key)) = Inr v"
    using \<open>v \<noteq> []\<close> by (subst (asm) value_for_key_loop.simps) (auto simp: rbind_eq_Inr split: option.splits prod.splits)
  have copy: "copy_key (skip_slash s) [] = Inr (Some (pkey, s1))" "copy_value s1 [] = Inr (val, s2)"
    using scan scan_copy_key scan_copy_value by fastforce+
  obtain pre where pre: "s = pre @ s2" "pre \<noteq> []" "0 \<notin> set pre" "take (length s - length s2) s = pre"
    using pair_prefix [OF copy] .
  have s': "(if key = pkey then move_down s s2
       else rbind (read_char s2) (\<lambda>c. if c = 0 then Inr s else rbind (remove_key_loop s2 key) (\<lambda>s'. Inr (pre @ s')))) = Inr s'"
    using 1(4) by (subst (asm) remove_key_loop.simps) (simp only: copy rbind_Inr option.case prod.case pre(4))
  show ?case
  proof (cases "key = pkey")
    case True
    with s' have "c_string s' = c_string s2" by (auto simp: move_down_def split: if_splits)
    with pre show ?thesis by (simp add: c_string_prefix)
  next
    case False
    with lookup \<open>v \<noteq> []\<close> obtain c where c: "read_char s2 = Inr c" "c \<noteq> 0" "value_for_key_loop (tl s2) key = Inr v"
      by (auto simp: rbind_eq_Inr split: if_splits)
    then have "s2 = c # tl s2" by (cases s2) auto
    then have "skip_slash s2 = tl s2"
      using c(2) copy_value_eq [OF copy(2)] by (metis list.sel(1,3) skip_slash_Cons)
    moreover obtain s'' where "remove_key_loop s2 key = Inr s''" "s' = pre @ s''"
      using s' False c by (auto simp: rbind_eq_Inr)
    moreover have "length (c_string s'') < length (c_string s2)"
      if "value_for_key_loop (skip_slash s2) key = Inr v" "remove_key_loop s2 key = Inr s''"
      using 1(1) [OF copy(1) refl refl copy(2) refl False c(1) c(2) that(1) \<open>v \<noteq> []\<close> that(2)] .
    ultimately show ?thesis using c(3) pre by (simp add: c_string_prefix)
  qed
qed

text \<open>
  \<open>maxsize\<close> is compared as a \<open>size_t\<close> with the room for a changed value, and as an \<open>int\<close> with the room
  for a new key.  The key \<open>*ver\<close> gives way when there is no room.  A key or value with a control character is not
  refused: the characters up to 13 are dropped while the text is appended.
\<close>

definition ver_key :: "u8 list" where "ver_key = [0x2A, 0x76, 0x65, 0x72]"

definition append_info :: "u8 list \<Rightarrow> u8 list \<Rightarrow> u8 list res" where
  "append_info s newv =
     (if 0 \<in> set s then poke s (int (length (c_string s))) (filter (\<lambda>c. c > 13) newv @ [0]) else Inl OutOfBounds)"

definition replace_key :: "u8 list \<Rightarrow> u8 list \<Rightarrow> u8 list \<Rightarrow> int \<Rightarrow> u8 list res" where
  "replace_key s key val maxsize =
     rbind (Info_RemoveKey s key) (\<lambda>s.
       if val = [] then Inr s
       else
         let newv = take 1023 (0x5C # key @ 0x5C # val) in
         if int (length newv + length (c_string s) + 1) > maxsize then Inr s
         else append_info s newv)"

function Info_SetValueForStarKey :: "u8 list \<Rightarrow> u8 list \<Rightarrow> u8 list \<Rightarrow> int \<Rightarrow> u8 list res" where
  "Info_SetValueForStarKey s key val maxsize =
     (if 0x5C \<in> set key \<or> 0x5C \<in> set val \<or> 0x22 \<in> set key \<or> 0x22 \<in> set val \<or> length key \<ge> MAX_INFO_KEY
      then Inr s
      else rbind (Info_ValueForKey s key) (\<lambda>v.
        if v \<noteq> [] \<and> word_of_nat (length val) - word_of_nat (length v) + word_of_nat (length (c_string s)) + 1
             > (word_of_int maxsize :: u64)
        then rbind (Info_ValueForKey s ver_key) (\<lambda>w.
          if w \<noteq> []
          then rbind (Info_RemoveKey s ver_key) (\<lambda>s. Info_SetValueForStarKey s key val maxsize)
          else Inr s)
        else replace_key s key val maxsize))"
  by pat_completeness auto
termination
proof (relation "measure (\<lambda>(s, _). length (c_string s))", goal_cases)
  case (2 s key val maxsize v w s')
  then show ?case
    using remove_shorter [of s ver_key w s']
    by (simp add: Info_ValueForKey_def Info_RemoveKey_def ver_key_def)
qed simp

declare Info_SetValueForStarKey.simps [simp del]

definition Info_SetValueForKey :: "u8 list \<Rightarrow> u8 list \<Rightarrow> u8 list \<Rightarrow> int \<Rightarrow> u8 list res" where
  "Info_SetValueForKey s key val maxsize =
     (if first_char key = 0x2A then Inr s else Info_SetValueForStarKey s key val maxsize)"

section \<open>Enumerating\<close>

text \<open>Both copies stop when their array is full; the result is the list of the calls of \<open>cb\<close>.\<close>

fun take_part :: "u8 list \<Rightarrow> u8 list \<Rightarrow> (u8 list \<times> u8 list) res" where
  "take_part [] out = Inl OutOfBounds"
| "take_part (c # s) out =
     (if c \<noteq> 0 \<and> c \<noteq> 0x5C \<and> length out < 1024 - 1 then take_part s (out @ [c]) else Inr (out, c # s))"

lemma take_part_shorter: "take_part s p = Inr (v, r) \<Longrightarrow> length r \<le> length s"
  by (induction s p rule: take_part.induct) (auto split: if_splits)

function enumerate_loop :: "u8 list \<Rightarrow> (u8 list \<times> u8 list) list res" where
  "enumerate_loop s =
     rbind (read_char s) (\<lambda>c. if c = 0 then Inr []
     else rbind (take_part s []) (\<lambda>(key, s1).
       if first_char s1 = 0 then Inr [(key, [])]
       else rbind (take_part (tl s1) []) (\<lambda>(val, s2).
         rbind (enumerate_loop (if first_char s2 \<noteq> 0 then tl s2 else s2)) (\<lambda>calls. Inr ((key, val) # calls)))))"
  by pat_completeness auto
termination
proof (relation "measure length", goal_cases)
  case (2 s c p key s1 q val s2)
  then have "length s1 \<le> length s" "s1 \<noteq> []" "length s2 \<le> length (tl s1)"
    using take_part_shorter by (fastforce simp: first_char_def)+
  then show ?case by (cases s1) (auto simp: le_trans less_Suc_eq_le)
qed simp

declare enumerate_loop.simps [simp del]

definition Info_Enumerate :: "u8 list \<Rightarrow> (u8 list \<times> u8 list) list res" where
  "Info_Enumerate s = enumerate_loop (skip_slash s)"

end
