(* ===== verification/InfoPairs.thy ===== *)
theory InfoPairs
  imports InfoString
begin

text \<open>
  Info strings as lists of pairs.  What the functions of \<open>InfoString\<close> do to a string that
  spells out a list of keys and values, the refinement of a finite map, and a second implementation of
  the interface \<open>key_store\<close>; and what they do to strings that spell out nothing of the kind.
\<close>

section \<open>The text of a list of pairs\<close>

definition info_text :: "(u8 list \<times> u8 list) list \<Rightarrow> u8 list" where
  "info_text ps = concat (map (\<lambda>(k, v). 0x5C # k @ 0x5C # v) ps)"

definition part_ok :: "u8 list \<Rightarrow> bool" where
  "part_ok x \<longleftrightarrow> 0 \<notin> set x \<and> 0x5C \<notin> set x \<and> length x \<le> 1021"

definition pairs_ok :: "(u8 list \<times> u8 list) list \<Rightarrow> bool" where
  "pairs_ok ps \<longleftrightarrow> list_all (\<lambda>(k, v). part_ok k \<and> part_ok v) ps"

text \<open>The object \<open>m\<close> holds the string of \<open>ps\<close>.\<close>

definition holds :: "u8 list \<Rightarrow> (u8 list \<times> u8 list) list \<Rightarrow> bool" where
  "holds m ps \<longleftrightarrow> 0 \<in> set m \<and> c_string m = info_text ps"

lemma info_text_simps [simp]:
  "info_text [] = []" "info_text ((k, v) # ps) = 0x5C # k @ 0x5C # v @ info_text ps"
  "info_text (ps @ qs) = info_text ps @ info_text qs"
  by (simp_all add: info_text_def)

lemma pairs_ok_simps [simp]:
  "pairs_ok []" "pairs_ok ((k, v) # ps) \<longleftrightarrow> part_ok k \<and> part_ok v \<and> pairs_ok ps"
  "pairs_ok (ps @ qs) \<longleftrightarrow> pairs_ok ps \<and> pairs_ok qs"
  by (simp_all add: pairs_ok_def)

lemma info_text_cstr: "pairs_ok ps \<Longrightarrow> 0 \<notin> set (info_text ps)"
  by (induction ps) (auto simp: part_ok_def)

lemma c_string_split: "0 \<in> set m \<Longrightarrow> m = c_string m @ 0 # drop (length (c_string m) + 1) m"
  by (induction m) (auto simp: c_string_def)

lemma holdsE:
  assumes "holds m ps"
  obtains j where "m = info_text ps @ 0 # j"
  using assms c_string_split [of m] by (metis holds_def)

lemma holds_text: "pairs_ok ps \<Longrightarrow> holds (info_text ps @ 0 # j) ps"
  by (simp add: holds_def info_text_cstr)

lemma holds_cstr: "holds m ps \<Longrightarrow> 0 \<notin> set (info_text ps)"
  by (metis c_string_no_nul holds_def)

section \<open>The loops at a pair\<close>

lemma scan_key_at: "part_ok k \<Longrightarrow> length p + length k \<le> 1021 \<Longrightarrow> scan_key (k @ 0x5C # r) p = Inr (Some (p @ k, r))"
  by (induction k arbitrary: p) (auto simp: part_ok_def)

lemma scan_value_at:
  "part_ok v \<Longrightarrow> length p + length v \<le> 1021 \<Longrightarrow> c = 0x5C \<or> c = 0 \<Longrightarrow>
   scan_value (v @ c # r) p = Inr (Some (p @ v, c # r))"
  by (induction v arbitrary: p) (auto simp: part_ok_def)

lemma skip_value_at: "part_ok v \<Longrightarrow> c = 0x5C \<or> c = 0 \<Longrightarrow> skip_value (v @ c # r) = Inr (c # r)"
  by (induction v) (auto simp: part_ok_def)

lemma text_head: obtains c r where "info_text ps @ 0 # j = c # r" "c = 0x5C \<or> c = 0"
    "c = 0 \<longleftrightarrow> ps = []"
  by (cases ps) auto

lemma scan_pair_key:
  assumes "part_ok k"
  shows "scan_key (k @ 0x5C # r) [] = Inr (Some (k, r))" "copy_key (k @ 0x5C # r) [] = Inr (Some (k, r))"
proof -
  show s: "scan_key (k @ 0x5C # r) [] = Inr (Some (k, r))"
    using scan_key_at [OF assms, of "[]"] assms by (simp add: part_ok_def)
  show "copy_key (k @ 0x5C # r) [] = Inr (Some (k, r))"
    using scan_copy_key [OF s] by simp
qed

lemma scan_pair_value:
  assumes "part_ok v"
  shows "scan_value (v @ info_text ps @ 0 # j) [] = Inr (Some (v, info_text ps @ 0 # j))"
    "skip_value (v @ info_text ps @ 0 # j) = Inr (info_text ps @ 0 # j)"
    "copy_value (v @ info_text ps @ 0 # j) [] = Inr (v, info_text ps @ 0 # j)"
proof -
  have len: "length v \<le> 1021" using assms by (simp add: part_ok_def)
  obtain c r where cr: "info_text ps @ 0 # j = c # r" "c = 0x5C \<or> c = 0" by (rule text_head)
  show t: "scan_value (v @ info_text ps @ 0 # j) [] = Inr (Some (v, info_text ps @ 0 # j))"
    unfolding cr(1) using scan_value_at [OF assms, of "[]" c r] len cr(2) by simp
  show "skip_value (v @ info_text ps @ 0 # j) = Inr (info_text ps @ 0 # j)"
    unfolding cr(1) using skip_value_at [OF assms, of c r] cr(2) by simp
  show "copy_value (v @ info_text ps @ 0 # j) [] = Inr (v, info_text ps @ 0 # j)"
    using scan_copy_value [OF t] by simp
qed

lemmas scan_pair = scan_pair_key scan_pair_value

lemma read_text: "read_char (info_text ps @ 0 # j) = Inr (if ps = [] then 0 else 0x5C)"
  by (cases ps) auto

lemma skip_text: "skip_slash (info_text ((k, v) # ps) @ r) = k @ 0x5C # v @ info_text ps @ r"
  by simp

lemma tl_text: "ps \<noteq> [] \<Longrightarrow> tl (info_text ps @ r) = skip_slash (info_text ps @ r)"
  by (cases ps) auto

section \<open>Looking up\<close>

lemma value_loop_text:
  "pairs_ok ps \<Longrightarrow> value_for_key_loop (skip_slash (info_text ps @ 0 # j)) key
     = Inr (case map_of ps key of None \<Rightarrow> [] | Some v \<Rightarrow> v)"
proof (induction ps)
  case Nil
  then show ?case by (subst value_for_key_loop.simps) (simp add: skip_slash_def)
next
  case (Cons x ps)
  then show ?case
    by (cases x, subst value_for_key_loop.simps) (simp add: scan_pair read_text tl_text)
qed

lemma ValueForKey_pairs:
  "holds m ps \<Longrightarrow> pairs_ok ps \<Longrightarrow> Info_ValueForKey m key = Inr (case map_of ps key of None \<Rightarrow> [] | Some v \<Rightarrow> v)"
  by (erule holdsE) (simp add: Info_ValueForKey_def value_loop_text)

lemma number_loop_text:
  "pairs_ok ps \<Longrightarrow> key_for_number_loop (skip_slash (info_text ps @ 0 # j)) n
     = Inr (if 0 \<le> n \<and> n < int (length ps) then fst (ps ! nat n) else [])"
proof (induction ps arbitrary: n)
  case Nil
  then show ?case by (subst key_for_number_loop.simps) (auto simp: skip_slash_def)
next
  case (Cons x ps)
  have *: "nat n = Suc (nat (n - 1))" if "0 < n" using that by simp
  from Cons show ?case
    by (cases x, subst key_for_number_loop.simps)
      (auto simp: scan_pair read_text tl_text nth_Cons' nat_diff_distrib)
qed

lemma KeyForNumber_pairs:
  "holds m ps \<Longrightarrow> pairs_ok ps \<Longrightarrow>
   Info_KeyForNumber m n = Inr (if 0 \<le> n \<and> n < int (length ps) then fst (ps ! nat n) else [])"
  by (erule holdsE) (simp add: Info_KeyForNumber_def number_loop_text)

section \<open>Removing\<close>

fun remove_pair :: "u8 list \<Rightarrow> (u8 list \<times> u8 list) list \<Rightarrow> (u8 list \<times> u8 list) list" where
  "remove_pair key [] = []"
| "remove_pair key (p # ps) = (if fst p = key then ps else p # remove_pair key ps)"

lemma remove_loop_text:
  "pairs_ok ps \<Longrightarrow> \<exists>j'. remove_key_loop (info_text ps @ 0 # j) key = Inr (info_text (remove_pair key ps) @ 0 # j')
     \<and> length (info_text ps @ 0 # j) = length (info_text (remove_pair key ps) @ 0 # j')"
proof (induction ps)
  case Nil
  then show ?case by (subst remove_key_loop.simps) (simp add: skip_slash_def)
next
  case (Cons x ps)
  obtain k v where x: "x = (k, v)" by (cases x)
  with Cons have ok: "part_ok k" "part_ok v" "pairs_ok ps" by simp_all
  note step = remove_key_loop.simps [of "info_text ((k, v) # ps) @ 0 # j" key, unfolded skip_text]
  show ?case
  proof (cases "key = k")
    case True
    then have "remove_key_loop (info_text ((k, v) # ps) @ 0 # j) key
        = move_down (info_text ((k, v) # ps) @ 0 # j) (info_text ps @ 0 # j)"
      by (subst step) (simp add: scan_pair ok)
    then show ?thesis
      using True x ok by (simp add: move_down_def info_text_cstr)
  next
    case False
    obtain j' where "remove_key_loop (info_text ps @ 0 # j) key = Inr (info_text (remove_pair key ps) @ 0 # j')"
      "length (info_text ps @ 0 # j) = length (info_text (remove_pair key ps) @ 0 # j')"
      using Cons.IH ok by blast
    moreover have "take (length (info_text ((k, v) # ps) @ 0 # j) - length (info_text ps @ 0 # j)) (info_text ((k, v) # ps) @ 0 # j)
        = 0x5C # k @ 0x5C # v" by simp
    then have "remove_key_loop (info_text ((k, v) # ps) @ 0 # j) key
        = (if ps = [] then Inr (info_text ((k, v) # ps) @ 0 # j)
           else rbind (remove_key_loop (info_text ps @ 0 # j) key) (\<lambda>s'. Inr (0x5C # k @ 0x5C # v @ s')))"
      using False by (subst step) (simp add: scan_pair ok read_text)
    ultimately show ?thesis
      using False x by (cases "ps = []") auto
  qed
qed

lemma remove_pair_ok: "pairs_ok ps \<Longrightarrow> pairs_ok (remove_pair key ps)"
  by (induction ps) auto

lemma remove_pair_absent: "key \<notin> fst ` set ps \<Longrightarrow> remove_pair key ps = ps"
  by (induction ps) auto

lemma RemoveKey_pairs:
  assumes "holds m ps" "pairs_ok ps" "0x5C \<notin> set key"
  obtains m' where "Info_RemoveKey m key = Inr m'" "holds m' (remove_pair key ps)" "length m' = length m"
  using assms remove_loop_text [OF assms(2)] by (elim holdsE) (metis Info_RemoveKey_def holds_text remove_pair_ok)

section \<open>Setting\<close>

definition plain :: "u8 list \<Rightarrow> bool" where
  "plain x \<longleftrightarrow> list_all (\<lambda>c. c > 13 \<and> c \<noteq> 0x22 \<and> c \<noteq> 0x5C) x"

definition entry_ok :: "u8 list \<Rightarrow> u8 list \<Rightarrow> bool" where
  "entry_ok key val \<longleftrightarrow> plain key \<and> plain val \<and> length key < MAX_INFO_KEY \<and> length key + length val \<le> 1021"

text \<open>A string of distinct keys with values, in an object that holds the \<open>n\<close> bytes the callers allow.\<close>

definition string_ok :: "int \<Rightarrow> u8 list \<Rightarrow> (u8 list \<times> u8 list) list \<Rightarrow> bool" where
  "string_ok n m ps \<longleftrightarrow> holds m ps \<and> pairs_ok ps \<and> distinct (map fst ps) \<and> list_all (\<lambda>p. snd p \<noteq> []) ps
     \<and> int (length (info_text ps)) + 1 \<le> n \<and> n \<le> int (length m) \<and> n < 2 ^ 31"

definition room :: "int \<Rightarrow> u8 list \<Rightarrow> u8 list \<Rightarrow> (u8 list \<times> u8 list) list \<Rightarrow> bool" where
  "room n key val ps \<longleftrightarrow> val = [] \<or> int (length (info_text (remove_pair key ps)) + length key + length val) + 3 \<le> n"

definition put_pair :: "u8 list \<Rightarrow> u8 list \<Rightarrow> (u8 list \<times> u8 list) list \<Rightarrow> (u8 list \<times> u8 list) list" where
  "put_pair key val ps = (if val = [] then remove_pair key ps else remove_pair key ps @ [(key, val)])"

lemma remove_pair_subset: "set (remove_pair key ps) \<subseteq> set ps"
  by (induction ps) auto

lemma remove_pair_keys: "distinct (map fst ps) \<Longrightarrow> key \<notin> fst ` set (remove_pair key ps) \<and> distinct (map fst (remove_pair key ps))"
proof (induction ps)
  case (Cons p ps)
  have "fst ` set (remove_pair key ps) \<subseteq> fst ` set ps"
    using remove_pair_subset by (rule image_mono)
  with Cons show ?case by auto
qed simp

lemma remove_pair_length: "length (info_text (remove_pair key ps)) \<le> length (info_text ps)"
  by (induction ps) auto

lemma remove_pair_gain:
  "map_of ps key = Some v \<Longrightarrow>
   length (info_text (remove_pair key ps)) + length key + length v + 2 = length (info_text ps)"
  by (induction ps) (auto split: if_splits)

lemma map_of_remove_pair: "distinct (map fst ps) \<Longrightarrow> map_of (remove_pair key ps) = (map_of ps)(key := None)"
proof (induction ps)
  case (Cons x ps)
  then show ?case
    by (cases x) (auto simp: fun_eq_iff map_of_eq_None_iff)
qed auto

lemma put_pair_map:
  assumes "distinct (map fst ps)"
  shows "map_of (put_pair key val ps) = (map_of ps)(key := if val = [] then None else Some val)"
  using map_of_remove_pair [OF assms, of key]
  by (auto simp: put_pair_def map_add_def fun_eq_iff split: option.splits)

lemma string_ok_remove:
  assumes "string_ok n m ps" "holds m' (remove_pair key ps)" "length m' = length m"
  shows "string_ok n m' (remove_pair key ps)"
  using assms remove_pair_ok [of ps key] remove_pair_keys [of ps key] remove_pair_length [of key ps]
    remove_pair_subset [of key ps]
  by (auto simp: string_ok_def list_all_iff)

lemma plain_part: "plain x \<Longrightarrow> 0 \<notin> set x \<and> 0x5C \<notin> set x \<and> 0x22 \<notin> set x"
  by (auto simp: plain_def list_all_iff)

lemma plain_filter: "plain x \<Longrightarrow> filter (\<lambda>c. c > 13) x = x"
  by (simp add: plain_def list_all_iff)

lemma append_info_pairs:
  assumes "string_ok n m ps" "entry_ok key val" "val \<noteq> []" "key \<notin> fst ` set ps"
    "int (length (info_text ps) + length key + length val) + 3 \<le> n"
  obtains m' where "append_info m (0x5C # key @ 0x5C # val) = Inr m'" "string_ok n m' (ps @ [(key, val)])"
    "length m' = length m"
proof -
  have cm: "c_string m = info_text ps" "0 \<in> set m" and len: "n \<le> int (length m)"
    using assms(1) by (auto simp: string_ok_def holds_def)
  have f: "filter (\<lambda>c. c > 13) (0x5C # key @ 0x5C # val) = 0x5C # key @ 0x5C # val"
    using assms(2) by (simp add: entry_ok_def plain_filter)
  let ?new = "(0x5C # key @ 0x5C # val) @ [0]"
  have fits: "int (length (info_text ps)) + int (length ?new) \<le> int (length m)"
    using assms(5) len by simp
  define m' where "m' = take (length (info_text ps)) m @ ?new @ drop (length (info_text ps) + length ?new) m"
  have "append_info m (0x5C # key @ 0x5C # val) = Inr m'"
    unfolding append_info_def f using fits cm by (simp add: poke_ok m'_def del: append_Cons)
  moreover have "take (length (info_text ps)) m = info_text ps"
    using c_string_split [OF cm(2)] cm(1) by (metis append_eq_conv_conj)
  then have "m' = info_text (ps @ [(key, val)]) @ 0 # drop (length (info_text ps) + length ?new) m"
    by (simp add: m'_def)
  moreover have ok: "pairs_ok (ps @ [(key, val)])"
    using assms(1,2) plain_part by (auto simp: string_ok_def entry_ok_def part_ok_def)
  ultimately have "holds m' (ps @ [(key, val)])" "append_info m (0x5C # key @ 0x5C # val) = Inr m'"
    using holds_text by metis+
  moreover have "length m' = length m"
    using fits by (simp add: m'_def)
  ultimately show ?thesis
    using assms ok that by (auto simp: string_ok_def)
qed

lemma replace_key_pairs:
  assumes "string_ok n m ps" "entry_ok key val"
  obtains m' where "replace_key m key val n = Inr m'" "length m' = length m"
    "string_ok n m' (if room n key val ps then put_pair key val ps else remove_pair key ps)"
proof -
  have "holds m ps" "pairs_ok ps" "0x5C \<notin> set key"
    using assms plain_part by (auto simp: string_ok_def entry_ok_def)
  then obtain m1 where m1: "Info_RemoveKey m key = Inr m1" "holds m1 (remove_pair key ps)" "length m1 = length m"
    by (rule RemoveKey_pairs)
  have ok1: "string_ok n m1 (remove_pair key ps)"
    using string_ok_remove [OF assms(1) m1(2,3)] .
  have c1: "c_string m1 = info_text (remove_pair key ps)" using m1(2) by (simp add: holds_def)
  have newv: "take 1023 (0x5C # key @ 0x5C # val) = 0x5C # key @ 0x5C # val"
    using assms(2) by (simp add: entry_ok_def le_diff_conv2)
  show ?thesis
  proof (cases "val = [] \<or> \<not> room n key val ps")
    case True
    then have "replace_key m key val n = Inr m1"
      unfolding replace_key_def m1 rbind_Inr Let_def newv c1 by (auto simp: room_def)
    then show ?thesis using that [OF _ m1(3)] ok1 True by (auto simp: put_pair_def)
  next
    case False
    have "key \<notin> fst ` set (remove_pair key ps)"
      using assms(1) remove_pair_keys by (simp add: string_ok_def)
    moreover have fit: "int (length (info_text (remove_pair key ps)) + length key + length val) + 3 \<le> n"
      using False by (auto simp: room_def)
    ultimately obtain m' where m': "append_info m1 (0x5C # key @ 0x5C # val) = Inr m'"
      "string_ok n m' (remove_pair key ps @ [(key, val)])" "length m' = length m1"
      using append_info_pairs [OF ok1 assms(2)] False by blast
    have "replace_key m key val n = Inr m'"
      unfolding replace_key_def m1 rbind_Inr Let_def newv c1 using False fit m'(1) by simp
    then show ?thesis using that m' m1(3) False by (simp add: put_pair_def)
  qed
qed

lemma word_of_nat_less_64: "a < 2 ^ 64 \<Longrightarrow> b < 2 ^ 64 \<Longrightarrow> (word_of_nat a < (word_of_nat b :: u64)) = (a < b)"
  by (simp add: word_less_nat_alt unat_of_nat take_bit_nat_eq_self)

lemma string_value: "string_ok n m ps \<Longrightarrow> map_of ps k = Some v \<Longrightarrow> v \<noteq> []"
  by (auto simp: string_ok_def list_all_iff dest!: map_of_SomeD)

text \<open>The size test of the code, in \<open>size_t\<close>, is \<open>room\<close>.\<close>

lemma size_test:
  assumes "string_ok n m ps" "entry_ok key val" "map_of ps key = Some v"
  shows "word_of_nat (length val) - word_of_nat (length v) + word_of_nat (length (c_string m)) + 1 > (word_of_int n :: u64)
    \<longleftrightarrow> \<not> (int (length (info_text (remove_pair key ps)) + length key + length val) + 3 \<le> n)"
proof -
  have len: "length (c_string m) = length (info_text (remove_pair key ps)) + length key + length v + 2"
    using remove_pair_gain [OF assms(3)] assms(1) by (simp add: string_ok_def holds_def)
  let ?k = "length (info_text (remove_pair key ps)) + length key + length val + 3"
  have "word_of_nat (length val) - word_of_nat (length v) + word_of_nat (length (c_string m)) + 1 = (word_of_nat ?k :: u64)"
    unfolding len by (simp add: algebra_simps)
  moreover have small: "?k < 2 ^ 32" "0 \<le> n" "n < 2 ^ 31"
    using assms(1,2) remove_pair_length [of key ps] by (auto simp: string_ok_def entry_ok_def)
  moreover have "(word_of_int n :: u64) = word_of_nat (nat n)" using small(2) by simp
  moreover have "(word_of_nat (nat n) < (word_of_nat ?k :: u64)) \<longleftrightarrow> nat n < ?k"
    by (rule word_of_nat_less_64) (use small in simp_all)
  ultimately show ?thesis by (simp only:) (use small in linarith)
qed

lemma plain_ver: "0x5C \<notin> set ver_key"
  by (simp add: ver_key_def)

text \<open>
  The abstract operation: an update that finds no room is dropped, after \<open>*ver\<close> has been given up
  for it when the key was there already.
\<close>

definition set_pair :: "int \<Rightarrow> u8 list \<Rightarrow> u8 list \<Rightarrow> (u8 list \<times> u8 list) list \<Rightarrow> (u8 list \<times> u8 list) list" where
  "set_pair n key val ps =
     (if room n key val ps then put_pair key val ps
      else if map_of ps key = None \<or> map_of ps ver_key = None then ps
      else let qs = remove_pair ver_key ps in if room n key val qs then put_pair key val qs else qs)"

lemma set_star_no_ver:
  assumes "string_ok n m ps" "entry_ok key val" "room n key val ps \<or> map_of ps key = None \<or> map_of ps ver_key = None"
  obtains m' where "Info_SetValueForStarKey m key val n = Inr m'" "length m' = length m"
    "string_ok n m' (if room n key val ps then put_pair key val ps else ps)"
proof -
  have hp: "holds m ps" "pairs_ok ps" using assms(1) by (simp_all add: string_ok_def)
  have guard: "\<not> (0x5C \<in> set key \<or> 0x5C \<in> set val \<or> 0x22 \<in> set key \<or> 0x22 \<in> set val \<or> length key \<ge> MAX_INFO_KEY)"
    using assms(2) plain_part by (auto simp: entry_ok_def)
  note nonempty = string_value [OF assms(1)]
  note step = Info_SetValueForStarKey.simps [of m key val n] ValueForKey_pairs [OF hp]
  show ?thesis
  proof (cases "map_of ps key = None \<or> room n key val ps")
    case True
    have "Info_SetValueForStarKey m key val n = replace_key m key val n"
    proof (cases "map_of ps key")
      case None
      then show ?thesis using guard by (simp add: step)
    next
      case (Some v)
      then have "int (length (info_text (remove_pair key ps)) + length key + length val) + 3 \<le> n"
        using True assms(1) remove_pair_gain [OF Some] nonempty [OF Some]
        by (cases v) (auto simp: room_def string_ok_def)
      then show ?thesis
        using guard size_test [OF assms(1,2) Some] Some by (simp add: step)
    qed
    moreover obtain m' where "replace_key m key val n = Inr m'" "length m' = length m"
      "string_ok n m' (if room n key val ps then put_pair key val ps else remove_pair key ps)"
      using replace_key_pairs [OF assms(1,2)] .
    moreover have "\<not> room n key val ps \<Longrightarrow> remove_pair key ps = ps"
      using True by (simp add: map_of_eq_None_iff remove_pair_absent)
    ultimately show ?thesis using that by (simp split: if_splits)
  next
    case False
    then obtain v where v: "map_of ps key = Some v" "map_of ps ver_key = None" using assms(3) by auto
    then have "Info_SetValueForStarKey m key val n = Inr m"
      using guard size_test [OF assms(1,2) v(1)] nonempty [OF v(1)] False by (simp add: step room_def)
    then show ?thesis using that [of m] False assms(1) by simp
  qed
qed

lemma set_star_pairs:
  assumes "string_ok n m ps" "entry_ok key val"
  obtains m' where "Info_SetValueForStarKey m key val n = Inr m'" "length m' = length m" "string_ok n m' (set_pair n key val ps)"
proof (cases "room n key val ps \<or> map_of ps key = None \<or> map_of ps ver_key = None")
  case True
  obtain m' where "Info_SetValueForStarKey m key val n = Inr m'" "length m' = length m"
    "string_ok n m' (if room n key val ps then put_pair key val ps else ps)"
    using set_star_no_ver [OF assms True] .
  moreover have "set_pair n key val ps = (if room n key val ps then put_pair key val ps else ps)"
    using True by (auto simp: set_pair_def)
  ultimately show ?thesis using that by simp
next
  case False
  let ?qs = "remove_pair ver_key ps"
  have hp: "holds m ps" "pairs_ok ps" "distinct (map fst ps)" using assms(1) by (simp_all add: string_ok_def)
  obtain m1 where m1: "Info_RemoveKey m ver_key = Inr m1" "holds m1 ?qs" "length m1 = length m"
    using RemoveKey_pairs [OF hp(1,2) plain_ver] .
  have ok1: "string_ok n m1 ?qs" using string_ok_remove [OF assms(1) m1(2,3)] .
  have "map_of ?qs ver_key = None" by (simp add: map_of_remove_pair [OF hp(3)])
  then obtain m' where m': "Info_SetValueForStarKey m1 key val n = Inr m'" "length m' = length m1"
    "string_ok n m' (if room n key val ?qs then put_pair key val ?qs else ?qs)"
    using set_star_no_ver [OF ok1 assms(2)] by blast
  obtain v w where vw: "map_of ps key = Some v" "map_of ps ver_key = Some w" using False by auto
  then have "v \<noteq> []" "w \<noteq> []"
    using string_value [OF assms(1)] by blast+
  moreover have "\<not> (0x5C \<in> set key \<or> 0x5C \<in> set val \<or> 0x22 \<in> set key \<or> 0x22 \<in> set val \<or> length key \<ge> MAX_INFO_KEY)"
    using assms(2) plain_part by (auto simp: entry_ok_def)
  ultimately have "Info_SetValueForStarKey m key val n = Inr m'"
    using False size_test [OF assms vw(1)] m1(1) m'(1)
    by (subst Info_SetValueForStarKey.simps) (simp add: ValueForKey_pairs [OF hp(1,2)] vw room_def)
  moreover have "set_pair n key val ps = (if room n key val ?qs then put_pair key val ?qs else ?qs)"
    using False by (auto simp: set_pair_def Let_def)
  ultimately show ?thesis
    using that [of m'] m' m1(3) by simp
qed

lemma set_pair_room:
  assumes "distinct (map fst ps)" "room n key val ps"
  shows "map_of (set_pair n key val ps) = (map_of ps)(key := if val = [] then None else Some val)"
  using put_pair_map [OF assms(1)] assms(2) by (simp add: set_pair_def)

section \<open>Enumerating\<close>

lemma take_part_at:
  "0 \<notin> set x \<Longrightarrow> 0x5C \<notin> set x \<Longrightarrow> length p + length x \<le> 1023 \<Longrightarrow> c = 0x5C \<or> c = 0 \<Longrightarrow>
   take_part (x @ c # r) p = Inr (p @ x, c # r)"
  by (induction x arbitrary: p) auto

lemma enumerate_text: "pairs_ok ps \<Longrightarrow> list_all (\<lambda>(k, v). k \<noteq> []) ps \<Longrightarrow>
    enumerate_loop (skip_slash (info_text ps @ 0 # j)) = Inr ps"
proof (induction ps)
  case Nil
  then show ?case by (subst enumerate_loop.simps) (simp add: skip_slash_def)
next
  case (Cons x ps)
  obtain k v where x: "x = (k, v)" by (cases x)
  with Cons.prems have ok: "part_ok k" "part_ok v" "k \<noteq> []" by simp_all
  obtain c r where cr: "info_text ps @ 0 # j = c # r" "c = 0x5C \<or> c = 0" "c = 0 \<longleftrightarrow> ps = []" by (rule text_head)
  have key: "take_part (k @ 0x5C # w) [] = Inr (k, 0x5C # w)" for w
    using take_part_at [of k "[]" "0x5C" w] ok(1) by (simp add: part_ok_def)
  have val: "take_part (v @ c # r) [] = Inr (v, c # r)"
    using take_part_at [of v "[]" c r] ok(2) cr(2) by (simp add: part_ok_def)
  have start: "read_char (k @ w) = Inr (hd k)" "hd k \<noteq> 0" for w
    using ok by (cases k; simp add: part_ok_def)+
  have rest: "(if c \<noteq> 0 then r else c # r) = skip_slash (info_text ps @ 0 # j)"
    using cr by (auto simp: skip_slash_def)
  have "enumerate_loop (k @ 0x5C # v @ c # r) = rbind (enumerate_loop (if c \<noteq> 0 then r else c # r)) (\<lambda>calls. Inr ((k, v) # calls))"
    by (subst enumerate_loop.simps) (simp add: key val start first_char_def)
  then show ?case
    using Cons x unfolding rest by (simp add: cr(1) [symmetric])
qed

section \<open>A store of keys and values\<close>

definition look_info :: "u8 list \<Rightarrow> u8 list \<Rightarrow> u8 list option" where
  "look_info m key = (case Info_ValueForKey m key of Inr v \<Rightarrow> if v = [] then None else Some v | Inl _ \<Rightarrow> None)"

definition put_info :: "int \<Rightarrow> u8 list \<Rightarrow> u8 list \<Rightarrow> u8 list \<Rightarrow> u8 list" where
  "put_info n m key val = (case Info_SetValueForStarKey m key val n of Inr m' \<Rightarrow> m' | Inl _ \<Rightarrow> m)"

lemma look_info_pairs: "string_ok n m ps \<Longrightarrow> look_info m key = map_of ps key"
  using string_value [of n m ps key]
  by (auto simp: look_info_def string_ok_def ValueForKey_pairs split: option.splits)

interpretation info_string: key_store "\<lambda>m. \<exists>ps. string_ok n m ps"
    "\<lambda>m key val. entry_ok key val \<and> (\<forall>ps. string_ok n m ps \<longrightarrow> room n key val ps)"
    look_info "put_info n" "[]" for n
proof
  fix m key val k'
  assume "\<exists>ps. string_ok n m ps" and fits: "entry_ok key val \<and> (\<forall>ps. string_ok n m ps \<longrightarrow> room n key val ps)"
  then obtain ps where ps: "string_ok n m ps" "room n key val ps" by blast
  obtain m' where m': "Info_SetValueForStarKey m key val n = Inr m'" "string_ok n m' (set_pair n key val ps)"
    using set_star_pairs [OF ps(1)] fits by blast
  then have put: "put_info n m key val = m'" by (simp add: put_info_def)
  show "\<exists>ps. string_ok n (put_info n m key val) ps" using m'(2) put by blast
  have "distinct (map fst ps)" using ps(1) by (simp add: string_ok_def)
  then show "look_info (put_info n m key val) k' =
      (if k' = key then (if val = [] then None else Some val) else look_info m k')"
    by (simp add: put look_info_pairs [OF m'(2)] look_info_pairs [OF ps(1)] set_pair_room ps(2))
qed

section \<open>Properties\<close>

text \<open>
  C34. Editing an info string refines editing a list of pairs.  Take an object that holds the string of pairs
  with distinct names and values, within the size the callers allow.  Setting a key of printable
  characters leaves an object of the same size with the string of \<open>set_pair\<close>: the
  old pair is gone and the new one is last if there is room, otherwise nothing changes, except that \<open>*ver\<close> is given up
  when the key was there already.  A lookup then finds what the pairs say and nothing else; a key or value with a
  backslash or a quote, and for \<open>Info_SetValueForKey\<close> a starred key, is refused without a change.
\<close>

theorem info_string_set_refines:
  assumes "string_ok n m ps" "entry_ok key val"
  shows "(\<exists>m'. Info_SetValueForStarKey m key val n = Inr m' \<and> length m' = length m \<and>
      string_ok n m' (set_pair n key val ps) \<and>
      (\<forall>k. Info_ValueForKey m' k = Inr (case map_of (set_pair n key val ps) k of None \<Rightarrow> [] | Some v \<Rightarrow> v))) \<and>
    (room n key val ps \<longrightarrow> map_of (set_pair n key val ps) = (map_of ps)(key := if val = [] then None else Some val)) \<and>
    (0x5C \<in> set bad \<or> 0x22 \<in> set bad \<longrightarrow>
      Info_SetValueForStarKey m bad val n = Inr m \<and> Info_SetValueForStarKey m key bad n = Inr m) \<and>
    (first_char key = 0x2A \<longrightarrow> Info_SetValueForKey m key val n = Inr m)"
proof (intro conjI)
  obtain m' where m': "Info_SetValueForStarKey m key val n = Inr m'" "length m' = length m"
      "string_ok n m' (set_pair n key val ps)"
    using set_star_pairs [OF assms] .
  then have "Info_ValueForKey m' k = Inr (case map_of (set_pair n key val ps) k of None \<Rightarrow> [] | Some v \<Rightarrow> v)" for k
    using ValueForKey_pairs by (simp add: string_ok_def)
  with m' show "\<exists>m'. Info_SetValueForStarKey m key val n = Inr m' \<and> length m' = length m \<and>
      string_ok n m' (set_pair n key val ps) \<and>
      (\<forall>k. Info_ValueForKey m' k = Inr (case map_of (set_pair n key val ps) k of None \<Rightarrow> [] | Some v \<Rightarrow> v))"
    by blast
  show "room n key val ps \<longrightarrow> map_of (set_pair n key val ps) = (map_of ps)(key := if val = [] then None else Some val)"
    using set_pair_room assms(1) by (simp add: string_ok_def)
  show "0x5C \<in> set bad \<or> 0x22 \<in> set bad \<longrightarrow>
      Info_SetValueForStarKey m bad val n = Inr m \<and> Info_SetValueForStarKey m key bad n = Inr m"
    by (auto simp: Info_SetValueForStarKey.simps [of m])
  show "first_char key = 0x2A \<longrightarrow> Info_SetValueForKey m key val n = Inr m"
    by (simp add: Info_SetValueForKey_def)
qed

theorem info_string_set_refines_witness:
  "\<exists>m'. Info_SetValueForStarKey ([0x5C, 0x61, 0x5C, 0x62] @ replicate 8 0) [0x61] [0x63, 0x64] 12 = Inr m' \<and>
     Info_ValueForKey m' [0x61] = Inr [0x63, 0x64]"
proof -
  have "string_ok 12 ([0x5C, 0x61, 0x5C, 0x62] @ replicate 8 0) [([0x61], [0x62])]"
    by (simp add: string_ok_def holds_def part_ok_def c_string_def)
  moreover have "entry_ok [0x61] [0x63, 0x64]" by (simp add: entry_ok_def plain_def MAX_INFO_KEY_def)
  ultimately have "\<exists>m'. Info_SetValueForStarKey ([0x5C, 0x61, 0x5C, 0x62] @ replicate 8 0) [0x61] [0x63, 0x64] 12 = Inr m' \<and>
     Info_ValueForKey m' [0x61] = Inr (case map_of (set_pair 12 [0x61] [0x63, 0x64] [([0x61], [0x62])]) [0x61]
       of None \<Rightarrow> [] | Some v \<Rightarrow> v)"
    using info_string_set_refines by blast
  then show ?thesis by (simp add: set_pair_def put_pair_def room_def)
qed

text \<open>
  C35. The readers list the pairs.  On an object that holds the string of a list of pairs with nonempty names,
  \<open>Info_Enumerate\<close> calls back with exactly those pairs in order, \<open>Info_KeyForNumber\<close> gives the
  name of each and the empty string beyond them, and \<open>Info_ValueForKey\<close> the first value of a name.
\<close>

theorem info_string_enumerates:
  assumes "holds m ps" "pairs_ok ps" "list_all (\<lambda>(k, v). k \<noteq> []) ps"
  shows "Info_Enumerate m = Inr ps \<and>
    Info_KeyForNumber m i = Inr (if 0 \<le> i \<and> i < int (length ps) then fst (ps ! nat i) else []) \<and>
    Info_ValueForKey m key = Inr (case map_of ps key of None \<Rightarrow> [] | Some v \<Rightarrow> v)"
  using assms(1) enumerate_text [OF assms(2,3)] KeyForNumber_pairs [OF assms(1,2)] ValueForKey_pairs [OF assms(1,2)]
  by (auto simp: Info_Enumerate_def elim!: holdsE)

theorem info_string_enumerates_witness:
  "Info_Enumerate [0x5C, 0x61, 0x5C, 0x62, 0, 7] = Inr [([0x61], [0x62])]"
proof -
  have "holds [0x5C, 0x61, 0x5C, 0x62, 0, 7] [([0x61], [0x62])]" "pairs_ok [([0x61], [0x62])]"
    by (simp_all add: holds_def c_string_def part_ok_def)
  then show ?thesis using info_string_enumerates [of _ "[([0x61], [0x62])]"] by simp
qed

end
