(* ===== verification/InfoSafe.thy ===== *)
theory InfoSafe
  imports InfoPairs
begin

text \<open>
  Info strings from the other side of the network.  Whatever a string shorter than 1024 bytes holds, every function
  of \<open>InfoString\<close> returns, inside its memory, and the loop of \<open>Info_RemovePrefixedKeys\<close> ends, although it
  starts over after each key it removes.
\<close>

section \<open>The inner loops stay inside the string\<close>

lemma c_string_Cons: "c_string (c # s) = (if c = 0 then [] else c # c_string s)"
  by (simp add: c_string_def)

lemma scan_key_safe: "0 \<in> set s \<Longrightarrow> \<exists>x. scan_key s p = Inr x \<and> (\<forall>k r. x = Some (k, r) \<longrightarrow> 0 \<in> set r)"
  by (induction s p rule: scan_key.induct) auto

lemma scan_value_safe: "0 \<in> set s \<Longrightarrow> \<exists>x. scan_value s p = Inr x \<and> (\<forall>k r. x = Some (k, r) \<longrightarrow> 0 \<in> set r)"
  by (induction s p rule: scan_value.induct) auto

lemma skip_value_safe: "0 \<in> set s \<Longrightarrow> \<exists>r. skip_value s = Inr r \<and> 0 \<in> set r"
  by (induction s rule: skip_value.induct) auto

lemma take_part_safe: "0 \<in> set s \<Longrightarrow> \<exists>x r. take_part s p = Inr (x, r) \<and> 0 \<in> set r"
  by (induction s p rule: take_part.induct) auto

lemma copy_key_safe:
  "0 \<in> set s \<Longrightarrow> length p + length (c_string s) < 1024 \<Longrightarrow>
   \<exists>x. copy_key s p = Inr x \<and> (\<forall>k r. x = Some (k, r) \<longrightarrow> 0 \<in> set r \<and> length (c_string r) < length (c_string s))"
proof (induction s arbitrary: p)
  case (Cons c s)
  show ?case
  proof (cases "c = 0x5C \<or> c = 0")
    case True
    with Cons.prems show ?thesis by (auto simp: put_byte_def c_string_Cons)
  next
    case False
    with Cons.prems have "0 \<in> set s" "length (p @ [c]) + length (c_string s) < 1024"
      by (auto simp: c_string_Cons)
    from Cons.IH [OF this] obtain x where "copy_key s (p @ [c]) = Inr x"
      "\<forall>k r. x = Some (k, r) \<longrightarrow> 0 \<in> set r \<and> length (c_string r) < length (c_string s)" by blast
    with False Cons.prems show ?thesis by (auto simp: put_byte_def c_string_Cons)
  qed
qed simp

lemma copy_value_safe:
  "0 \<in> set s \<Longrightarrow> length p + length (c_string s) < 1024 \<Longrightarrow>
   \<exists>v r. copy_value s p = Inr (v, r) \<and> 0 \<in> set r \<and> length (c_string r) \<le> length (c_string s)"
proof (induction s arbitrary: p)
  case (Cons c s)
  show ?case
  proof (cases "c = 0x5C \<or> c = 0")
    case True
    with Cons.prems show ?thesis by (auto simp: put_byte_def c_string_Cons)
  next
    case False
    with Cons.prems have "0 \<in> set s" "length (p @ [c]) + length (c_string s) < 1024"
      by (auto simp: c_string_Cons)
    from Cons.IH [OF this] obtain v r where "copy_value s (p @ [c]) = Inr (v, r)"
      "0 \<in> set r" "length (c_string r) \<le> length (c_string s)" by blast
    with False Cons.prems show ?thesis by (auto simp: put_byte_def c_string_Cons)
  qed
qed simp

lemma skip_slash_safe: "0 \<in> set s \<Longrightarrow> 0 \<in> set (skip_slash s) \<and> length (c_string (skip_slash s)) \<le> length (c_string s)"
  by (cases s) (auto simp: skip_slash_def c_string_Cons)

lemma read_safe: "0 \<in> set s \<Longrightarrow> \<exists>c. read_char s = Inr c \<and> (c \<noteq> 0 \<longrightarrow> 0 \<in> set (tl s)) \<and> s = c # tl s"
  by (cases s) auto

text \<open>One key and one value, as the editing functions step over them.\<close>

lemma copy_pair_safe [consumes 2]:
  assumes "0 \<in> set s" "length (c_string s) < 1024"
  obtains (stop) "copy_key (skip_slash s) [] = Inr None"
  | (pair) k s1 v s2 where "copy_key (skip_slash s) [] = Inr (Some (k, s1))" "copy_value s1 [] = Inr (v, s2)"
      "0 \<in> set s2" "length (c_string s2) < length (c_string s)"
proof -
  have sl: "0 \<in> set (skip_slash s)" "length (c_string (skip_slash s)) \<le> length (c_string s)"
    using skip_slash_safe [OF assms(1)] by simp_all
  obtain x where x: "copy_key (skip_slash s) [] = Inr x"
    "\<forall>k r. x = Some (k, r) \<longrightarrow> 0 \<in> set r \<and> length (c_string r) < length (c_string (skip_slash s))"
    using copy_key_safe [OF sl(1), of "[]"] sl(2) assms(2) by auto
  show ?thesis
  proof (cases x)
    case None
    with x stop show ?thesis by simp
  next
    case (Some y)
    obtain k s1 where y: "y = (k, s1)" by (cases y)
    with x Some have s1: "0 \<in> set s1" "length (c_string s1) < length (c_string (skip_slash s))" by simp_all
    obtain v s2 where "copy_value s1 [] = Inr (v, s2)" "0 \<in> set s2" "length (c_string s2) \<le> length (c_string s1)"
      using copy_value_safe [OF s1(1), of "[]"] s1(2) sl(2) assms(2) by auto
    with pair x Some y s1 sl show ?thesis by simp
  qed
qed

section \<open>The functions\<close>

lemma value_loop_safe: "0 \<in> set s \<Longrightarrow> \<exists>v. value_for_key_loop s key = Inr v"
proof (induction s key rule: value_for_key_loop.induct)
  case (1 s key)
  obtain x where x: "scan_key s [] = Inr x" "\<forall>k r. x = Some (k, r) \<longrightarrow> 0 \<in> set r"
    using scan_key_safe [OF 1(2)] by blast
  show ?case
  proof (cases x)
    case None
    with x show ?thesis by (subst value_for_key_loop.simps) simp
  next
    case (Some y)
    obtain k s1 where y: "y = (k, s1)" by (cases y)
    obtain z where z: "scan_value s1 [] = Inr z" "\<forall>k r. z = Some (k, r) \<longrightarrow> 0 \<in> set r"
      using scan_value_safe [of s1 "[]"] x Some y by blast
    show ?thesis
    proof (cases z)
      case None
      with x z Some y show ?thesis by (subst value_for_key_loop.simps) simp
    next
      case (Some w)
      obtain v s2 where w: "w = (v, s2)" by (cases w)
      obtain c where c: "read_char s2 = Inr c" "c \<noteq> 0 \<longrightarrow> 0 \<in> set (tl s2)"
        using read_safe [of s2] z Some w by blast
      have "\<exists>v. value_for_key_loop (tl s2) key = Inr v" if "key \<noteq> k" "c \<noteq> 0"
        using 1(1) [OF x(1) \<open>x = Some y\<close> y [symmetric] z(1) Some w [symmetric] that(1) c(1) that(2)] c(2) that(2) by simp
      then show ?thesis
        using x(1) \<open>x = Some y\<close> y z(1) Some w c by (subst value_for_key_loop.simps) auto
    qed
  qed
qed

lemma ValueForKey_safe: "0 \<in> set s \<Longrightarrow> \<exists>v. Info_ValueForKey s key = Inr v"
  using value_loop_safe skip_slash_safe by (simp add: Info_ValueForKey_def)

lemma number_loop_safe: "0 \<in> set s \<Longrightarrow> \<exists>v. key_for_number_loop s n = Inr v"
proof (induction s n rule: key_for_number_loop.induct)
  case (1 s n)
  obtain x where x: "scan_key s [] = Inr x" "\<forall>k r. x = Some (k, r) \<longrightarrow> 0 \<in> set r"
    using scan_key_safe [OF 1(2)] by blast
  show ?case
  proof (cases x)
    case None
    with x show ?thesis by (subst key_for_number_loop.simps) simp
  next
    case (Some y)
    obtain k s1 where y: "y = (k, s1)" by (cases y)
    obtain s2 where z: "skip_value s1 = Inr s2" "0 \<in> set s2"
      using skip_value_safe [of s1] x Some y by blast
    obtain c where c: "read_char s2 = Inr c" "c \<noteq> 0 \<longrightarrow> 0 \<in> set (tl s2)"
      using read_safe [OF z(2)] by blast
    have "\<exists>v. key_for_number_loop (tl s2) (n - 1) = Inr v" if "n \<noteq> 0" "c \<noteq> 0"
      using 1(1) [OF x(1) Some y [symmetric] z(1) that(1) c(1) that(2)] c(2) that(2) by simp
    then show ?thesis
      using x(1) Some y z(1) c by (subst key_for_number_loop.simps) auto
  qed
qed

lemma enumerate_safe: "0 \<in> set s \<Longrightarrow> \<exists>l. enumerate_loop s = Inr l"
proof (induction s rule: enumerate_loop.induct)
  case (1 s)
  obtain c where c: "read_char s = Inr c" using read_safe [OF 1(2)] by blast
  obtain k s1 where k: "take_part s [] = Inr (k, s1)" "0 \<in> set s1" using take_part_safe [OF 1(2)] by blast
  have step: "first_char w \<noteq> 0 \<Longrightarrow> 0 \<in> set w \<Longrightarrow> 0 \<in> set (tl w)" for w
    by (cases w) (auto simp: first_char_def)
  show ?case
  proof (cases "c = 0 \<or> first_char s1 = 0")
    case True
    then show ?thesis using c k by (subst enumerate_loop.simps) auto
  next
    case False
    then obtain v s2 where v: "take_part (tl s1) [] = Inr (v, s2)" "0 \<in> set s2"
      using take_part_safe [of "tl s1" "[]"] step k by blast
    have "0 \<in> set (if first_char s2 \<noteq> 0 then tl s2 else s2)" using v step by simp
    then obtain l where "enumerate_loop (if first_char s2 \<noteq> 0 then tl s2 else s2) = Inr l"
      using 1(1) [OF c _ k(1) refl _ v(1) refl] False by auto
    then show ?thesis using c k(1) False v(1) by (subst enumerate_loop.simps) simp
  qed
qed

lemma c_string_le: "length (c_string (pre @ r)) \<le> length pre + length (c_string r)"
  by (simp add: c_string_def takeWhile_append le_trans [OF length_takeWhile_le])

lemma c_string_shorter: "0 \<in> set s \<Longrightarrow> length (c_string s) < length s"
  by (induction s) (auto simp: c_string_Cons)

lemma move_down_safe:
  assumes "0 \<in> set s2" "s = pre @ s2" "0 \<notin> set pre"
  shows "\<exists>s'. move_down s s2 = Inr s' \<and> 0 \<in> set s' \<and> length s' = length s \<and> length (c_string s') \<le> length (c_string s)"
proof -
  have "length (c_string s2) < length s" "length (c_string s2) \<le> length (c_string s)"
    using assms c_string_shorter [OF assms(1)] by (simp_all add: c_string_prefix)
  with assms(1) show ?thesis by (simp add: move_down_def)
qed

lemma remove_loop_safe:
  "0 \<in> set s \<Longrightarrow> length (c_string s) < 1024 \<Longrightarrow>
   \<exists>s'. remove_key_loop s key = Inr s' \<and> 0 \<in> set s' \<and> length s' = length s \<and> length (c_string s') \<le> length (c_string s)"
proof (induction s key rule: remove_key_loop.induct)
  case (1 s key)
  note IH = 1(1) and nul = 1(2) and short = 1(3)
  from nul short show ?case
  proof (cases rule: copy_pair_safe)
    case stop
    then show ?thesis using nul by (subst remove_key_loop.simps) simp
  next
    case (pair k s1 v s2)
    obtain pre where pre: "s = pre @ s2" "0 \<notin> set pre" "take (length s - length s2) s = pre"
      using pair_prefix [OF pair(1,2)] .
    obtain c where c: "read_char s2 = Inr c" using read_safe [OF pair(3)] by blast
    have eq: "remove_key_loop s key = (if key = k then move_down s s2
        else if c = 0 then Inr s else rbind (remove_key_loop s2 key) (\<lambda>s'. Inr (pre @ s')))"
      by (subst remove_key_loop.simps) (simp only: pair(1,2) c rbind_Inr option.case prod.case pre(3))
    consider "key = k" | "key \<noteq> k" "c = 0" | "key \<noteq> k" "c \<noteq> 0" by blast
    then show ?thesis
    proof cases
      case 1
      then show ?thesis
        unfolding eq using move_down_safe [OF pair(3) pre(1,2)] by simp
    next
      case 2
      then show ?thesis unfolding eq using nul by simp
    next
      case 3
      then obtain s' where "remove_key_loop s2 key = Inr s'" "0 \<in> set s'" "length s' = length s2"
          "length (c_string s') \<le> length (c_string s2)"
        using IH [OF pair(1) refl refl pair(2) refl 3(1) c 3(2) pair(3)] pair(4) short by auto
      then show ?thesis
        unfolding eq using 3 pre(1,2) by (simp add: c_string_prefix)
    qed
  qed
qed

lemma RemoveKey_safe:
  "0 \<in> set s \<Longrightarrow> length (c_string s) < 1024 \<Longrightarrow>
   \<exists>s'. Info_RemoveKey s key = Inr s' \<and> 0 \<in> set s' \<and> length s' = length s \<and> length (c_string s') \<le> length (c_string s)"
  using remove_loop_safe by (simp add: Info_RemoveKey_def)

lemma append_info_safe:
  assumes "0 \<in> set s" "length newv + length (c_string s) + 1 \<le> length s"
  shows "\<exists>s'. append_info s newv = Inr s' \<and> 0 \<in> set s' \<and> length s' = length s"
proof -
  define f where "f = filter (\<lambda>c. c > 13) newv"
  have "length f \<le> length newv" unfolding f_def by (rule length_filter_le)
  with assms(2) have fit: "int (length (c_string s)) + int (length (f @ [0])) \<le> int (length s)" by simp
  then obtain s' where s': "poke s (int (length (c_string s))) (f @ [0]) = Inr s'"
    by (simp add: poke_ok)
  moreover have "0 \<in> set s'"
    using s' by (auto simp: poke_def split: if_splits)
  ultimately show ?thesis
    using assms(1) poke_length [OF s'] by (simp add: append_info_def f_def)
qed

lemma replace_key_safe:
  assumes "0 \<in> set s" "length (c_string s) < 1024" "n \<le> int (length s)"
  shows "\<exists>s'. replace_key s key val n = Inr s' \<and> 0 \<in> set s' \<and> length s' = length s"
proof -
  obtain s1 where s1: "Info_RemoveKey s key = Inr s1" "0 \<in> set s1" "length s1 = length s"
    using RemoveKey_safe [OF assms(1,2)] by blast
  let ?newv = "take 1023 (0x5C # key @ 0x5C # val)"
  have "length ?newv + length (c_string s1) + 1 \<le> length s1" if "int (length ?newv + length (c_string s1) + 1) \<le> n"
    using that assms(3) s1(3) by linarith
  then show ?thesis
    using append_info_safe [OF s1(2), of ?newv] s1 unfolding replace_key_def s1(1) rbind_Inr Let_def
    by (cases "int (length ?newv + length (c_string s1) + 1) \<le> n"; cases "val = []") (simp_all only: if_True if_False not_le [symmetric] simp_thms, blast+)
qed

lemma SetValue_safe:
  "0 \<in> set s \<Longrightarrow> length (c_string s) < 1024 \<Longrightarrow> n \<le> int (length s) \<Longrightarrow>
   \<exists>s'. Info_SetValueForStarKey s key val n = Inr s' \<and> 0 \<in> set s' \<and> length s' = length s"
proof (induction s key val n rule: Info_SetValueForStarKey.induct)
  case (1 s key val n)
  obtain v where v: "Info_ValueForKey s key = Inr v" using ValueForKey_safe [OF 1(2)] by blast
  obtain w where w: "Info_ValueForKey s ver_key = Inr w" using ValueForKey_safe [OF 1(2)] by blast
  obtain s1 where s1: "Info_RemoveKey s ver_key = Inr s1" "0 \<in> set s1" "length s1 = length s"
      "length (c_string s1) \<le> length (c_string s)"
    using RemoveKey_safe [OF 1(2,3)] by blast
  let ?bad = "0x5C \<in> set key \<or> 0x5C \<in> set val \<or> 0x22 \<in> set key \<or> 0x22 \<in> set val \<or> length key \<ge> MAX_INFO_KEY"
  let ?full = "v \<noteq> [] \<and> word_of_nat (length val) - word_of_nat (length v) + word_of_nat (length (c_string s)) + 1
             > (word_of_int n :: u64)"
  note step = Info_SetValueForStarKey.simps [of s key val n, unfolded v w s1(1) rbind_Inr]
  consider "?bad" | "\<not> ?bad" "\<not> ?full" | "\<not> ?bad" ?full "w = []" | "\<not> ?bad" ?full "w \<noteq> []" by blast
  then show ?case
  proof cases
    case 1
    then show ?thesis unfolding step using \<open>0 \<in> set s\<close> by simp
  next
    case 2
    then show ?thesis
      unfolding step using replace_key_safe [OF \<open>0 \<in> set s\<close> \<open>length (c_string s) < 1024\<close> \<open>n \<le> int (length s)\<close>]
      by (simp only: if_False)
  next
    case 3
    then show ?thesis unfolding step using \<open>0 \<in> set s\<close> by (simp only: if_False if_True not_True_eq_False) simp
  next
    case 4
    then have "\<exists>s'. Info_SetValueForStarKey s1 key val n = Inr s' \<and> 0 \<in> set s' \<and> length s' = length s1"
      using 1(1) [OF 4(1) v 4(2) w 4(3) s1(1,2)] s1(3,4) 1(3,4) by simp
    then show ?thesis
      unfolding step s1(3) using 4 by (simp only: if_False if_True not_False_eq_True simp_thms)
  qed
qed

section \<open>Removing by prefix\<close>

inductive walk :: "u8 list \<Rightarrow> u8 list \<Rightarrow> bool" where
  here: "walk s s"
| pair: "copy_key (skip_slash s) [] = Inr (Some (k, s1)) \<Longrightarrow> copy_value s1 [] = Inr (v, s2) \<Longrightarrow>
    read_char s2 = Inr c \<Longrightarrow> c \<noteq> 0 \<Longrightarrow> walk s2 t \<Longrightarrow> walk s t"

lemma walk_step:
  "walk s t \<Longrightarrow> copy_key (skip_slash t) [] = Inr (Some (k, s1)) \<Longrightarrow> copy_value s1 [] = Inr (v, t2) \<Longrightarrow>
   read_char t2 = Inr c \<Longrightarrow> c \<noteq> 0 \<Longrightarrow> walk s t2"
  by (induction rule: walk.induct) (blast intro: walk.intros)+

lemma walk_remove:
  "walk s t \<Longrightarrow> copy_key (skip_slash t) [] = Inr (Some (k, s1)) \<Longrightarrow> copy_value s1 [] = Inr (v, t2) \<Longrightarrow>
   remove_key_loop s k = Inr s' \<Longrightarrow> length (c_string s') < length (c_string s)"
proof (induction arbitrary: s' rule: walk.induct)
  case (here s)
  obtain pre where pre: "s = pre @ t2" "pre \<noteq> []" "0 \<notin> set pre"
    using pair_prefix [OF here(1,2)] .
  have "move_down s t2 = Inr s'"
    using here(3) by (subst (asm) remove_key_loop.simps) (simp add: here(1,2))
  then have "c_string s' = c_string t2" by (auto simp: move_down_def split: if_splits)
  with pre show ?case by (simp add: c_string_prefix)
next
  case (pair s k' s1' v' s2 c t)
  obtain pre where pre: "s = pre @ s2" "pre \<noteq> []" "0 \<notin> set pre" "take (length s - length s2) s = pre"
    using pair_prefix [OF pair(1,2)] .
  have eq: "remove_key_loop s k = (if k = k' then move_down s s2 else rbind (remove_key_loop s2 k) (\<lambda>s'. Inr (pre @ s')))"
    using pair(4) by (subst remove_key_loop.simps) (simp only: pair(1-3) rbind_Inr option.case prod.case pre(4) if_False)
  show ?case
  proof (cases "k = k'")
    case True
    then have "move_down s s2 = Inr s'" using eq pair(9) by simp
    then have "c_string s' = c_string s2" by (auto simp: move_down_def split: if_splits)
    with pre show ?thesis by (simp add: c_string_prefix)
  next
    case False
    then have "rbind (remove_key_loop s2 k) (\<lambda>s'. Inr (pre @ s')) = Inr s'"
      using eq pair(9) by simp
    then obtain s'' where "remove_key_loop s2 k = Inr s''" "s' = pre @ s''"
      by (auto simp: rbind_eq_Inr)
    with pair pre show ?thesis by (simp add: c_string_prefix)
  qed
qed

lemma prefixed_loop_safe:
  "walk start s \<Longrightarrow> 0 \<in> set start \<Longrightarrow> 0 \<in> set s \<Longrightarrow> length (c_string start) < 1024 \<Longrightarrow>
   length (c_string s) \<le> length (c_string start) \<Longrightarrow> 1024 * length (c_string start) + length (c_string s) < n \<Longrightarrow>
   \<exists>m'. remove_prefixed_loop n start s prefix = Inr m' \<and> 0 \<in> set m' \<and> length m' = length start"
proof (induction n arbitrary: start s)
  case (Suc n)
  have short: "length (c_string s) < 1024" using Suc.prems(4,5) by simp
  from Suc.prems(3) short show ?case
  proof (cases rule: copy_pair_safe)
    case stop
    then show ?thesis using Suc.prems by simp
  next
    case (pair k s1 v s2)
    show ?thesis
    proof (cases "first_char k = prefix")
      case True
      have noslash: "0x5C \<notin> set k" using copy_key_length_eq [OF pair(1)] by auto
      obtain m1 where m1: "Info_RemoveKey start k = Inr m1" "0 \<in> set m1" "length m1 = length start"
        using RemoveKey_safe [OF Suc.prems(2,4)] by blast
      have less: "length (c_string m1) < length (c_string start)"
        using walk_remove [OF Suc.prems(1) pair(1,2)] m1(1) noslash by (simp add: Info_RemoveKey_def)
      obtain c where c: "read_char m1 = Inr c" using read_safe [OF m1(2)] by blast
      have eq: "remove_prefixed_loop (Suc n) start s prefix
          = (if c = 0 then Inr m1 else remove_prefixed_loop n m1 m1 prefix)"
        by (simp add: pair True m1 c)
      have "\<exists>m'. remove_prefixed_loop n m1 m1 prefix = Inr m' \<and> 0 \<in> set m' \<and> length m' = length m1"
        using Suc.IH [OF walk.here m1(2,2)] less Suc.prems(4,6) by simp
      then show ?thesis unfolding eq using m1 by simp
    next
      case False
      obtain c where c: "read_char s2 = Inr c" using read_safe [OF pair(3)] by blast
      have eq: "remove_prefixed_loop (Suc n) start s prefix
          = (if c = 0 then Inr start else remove_prefixed_loop n start s2 prefix)"
        using False by (simp add: pair c)
      show ?thesis
      proof (cases "c = 0")
        case True
        then show ?thesis unfolding eq using Suc.prems(2) by simp
      next
        case False
        have "\<exists>m'. remove_prefixed_loop n start s2 prefix = Inr m' \<and> 0 \<in> set m' \<and> length m' = length start"
          using Suc.IH [OF walk_step [OF Suc.prems(1) pair(1,2) c False] Suc.prems(2) pair(3) Suc.prems(4)]
            pair(4) Suc.prems(5,6) by simp
        then show ?thesis unfolding eq using False by simp
      qed
    qed
  qed
qed simp

lemma remove_pair_middle:
  "key \<notin> fst ` set pre \<Longrightarrow> remove_pair key (pre @ (key, v) # post) = pre @ post"
  by (induction pre) auto

text \<open>On the string of a list of pairs: those with the prefix go, the others stay.\<close>

lemma prefixed_loop_text:
  "remove_prefixed_loop n (info_text (pre @ post) @ 0 # j) (info_text post @ 0 # j) prefix = Inr m' \<Longrightarrow>
   pairs_ok (pre @ post) \<Longrightarrow> list_all (\<lambda>p. first_char (fst p) \<noteq> prefix) pre \<Longrightarrow>
   holds m' (pre @ filter (\<lambda>p. first_char (fst p) \<noteq> prefix) post)"
proof (induction n arbitrary: pre post j)
  case (Suc n)
  show ?case
  proof (cases post)
    case Nil
    then show ?thesis using Suc.prems holds_text [of pre j] by (simp add: skip_slash_def)
  next
    case (Cons x rest)
    obtain k v where x: "x = (k, v)" by (cases x)
    have ok: "part_ok k" "part_ok v" "pairs_ok rest" "pairs_ok pre" using Suc.prems(2) Cons x by simp_all
    have copy: "copy_key (skip_slash (info_text post @ 0 # j)) [] = Inr (Some (k, v @ info_text rest @ 0 # j))"
        "copy_value (v @ info_text rest @ 0 # j) [] = Inr (v, info_text rest @ 0 # j)"
      using ok Cons x by (simp_all add: scan_pair)
    note step = Suc.prems(1) [unfolded remove_prefixed_loop.simps copy rbind_Inr option.case prod.case]
    show ?thesis
    proof (cases "first_char k = prefix")
      case True
      have "k \<notin> fst ` set pre" using Suc.prems(3) True by (auto simp: list_all_iff)
      then have mid: "remove_pair k (pre @ post) = pre @ rest" by (simp add: Cons x remove_pair_middle)
      have "0x5C \<notin> set k" using ok(1) by (simp add: part_ok_def)
      then obtain j' where j': "Info_RemoveKey (info_text (pre @ post) @ 0 # j) k = Inr (info_text (pre @ rest) @ 0 # j')"
        using remove_loop_text [OF Suc.prems(2), of j k] mid by (auto simp: Info_RemoveKey_def)
      show ?thesis
      proof (cases "pre @ rest = []")
        case True
        then show ?thesis
          using step j' \<open>first_char k = prefix\<close> Cons x holds_text [of "[]" j'] by simp
      next
        case False
        then have "remove_prefixed_loop n (info_text ([] @ (pre @ rest)) @ 0 # j') (info_text (pre @ rest) @ 0 # j') prefix = Inr m'"
          using step j' \<open>first_char k = prefix\<close> by (auto simp: read_text simp del: info_text_simps(3) split: if_splits)
        from Suc.IH [OF this] ok show ?thesis
          using Suc.prems(3) Cons x True by (simp add: list_all_iff)
      qed
    next
      case False
      show ?thesis
      proof (cases "rest = []")
        case True
        then show ?thesis
          using step False Cons x holds_text [OF Suc.prems(2), of j] by simp
      next
        case nonempty: False
        then have "remove_prefixed_loop n (info_text ((pre @ [x]) @ rest) @ 0 # j) (info_text rest @ 0 # j) prefix = Inr m'"
          using step False Cons by (simp add: read_text)
        from Suc.IH [OF this] ok show ?thesis
          using Suc.prems(3) Cons x False by simp
      qed
    qed
  qed
qed simp

section \<open>Properties\<close>

text \<open>
  C36. Any string a peer sends is handled within memory, and the functions return.  Let an object hold a terminated
  string shorter than 1024 bytes, whatever it looks like.  Looking up, numbering, enumerating, removing a key,
  setting a key up to a size the object has, and removing every key with a prefix all return without
  leaving the object or their own arrays; \<open>2 ^ 20\<close> rounds are enough for the last one, although it starts
  over after each key it removes.  The edited object has its size and is still terminated.
\<close>

theorem info_string_safe:
  assumes "0 \<in> set m" "length (c_string m) < 1024" "maxsize \<le> int (length m)" "2 ^ 20 \<le> n"
  shows "(\<exists>v. Info_ValueForKey m key = Inr v) \<and> (\<exists>v. Info_KeyForNumber m i = Inr v) \<and> (\<exists>l. Info_Enumerate m = Inr l) \<and>
    (\<forall>r \<in> {Info_RemoveKey m key, Info_SetValueForStarKey m key val maxsize, Info_SetValueForKey m key val maxsize,
        Info_RemovePrefixedKeys n m prefix}.
      \<exists>m'. r = Inr m' \<and> 0 \<in> set m' \<and> length m' = length m)"
proof -
  have "1024 * length (c_string m) + length (c_string m) < n" using assms(2,4) by simp
  then have "\<exists>m'. Info_RemovePrefixedKeys n m prefix = Inr m' \<and> 0 \<in> set m' \<and> length m' = length m"
    using prefixed_loop_safe [OF walk.here assms(1,1,2)] by (simp add: Info_RemovePrefixedKeys_def)
  moreover have "\<exists>m'. Info_RemoveKey m key = Inr m' \<and> 0 \<in> set m' \<and> length m' = length m"
    using RemoveKey_safe [OF assms(1,2)] by blast
  moreover have set_ok: "\<exists>m'. Info_SetValueForStarKey m key val maxsize = Inr m' \<and> 0 \<in> set m' \<and> length m' = length m"
    using SetValue_safe [OF assms(1-3)] .
  moreover have "\<exists>m'. Info_SetValueForKey m key val maxsize = Inr m' \<and> 0 \<in> set m' \<and> length m' = length m"
    using set_ok assms(1) by (simp add: Info_SetValueForKey_def)
  moreover have "0 \<in> set (skip_slash m)" using skip_slash_safe [OF assms(1)] by simp
  then have "(\<exists>v. Info_KeyForNumber m i = Inr v)" "(\<exists>l. Info_Enumerate m = Inr l)"
    using number_loop_safe enumerate_safe by (simp_all add: Info_KeyForNumber_def Info_Enumerate_def)
  ultimately show ?thesis
    using ValueForKey_safe [OF assms(1)] by blast
qed

theorem info_string_safe_witness:
  "\<exists>m'. Info_SetValueForStarKey [0x5C, 0x5C, 0x5C, 0x61, 0, 0, 0, 0] [0x61] [0x62] 8 = Inr m' \<and> 0 \<in> set m' \<and>
     length m' = length [0x5C, 0x5C, 0x5C, 0x61, 0, 0, 0, 0 :: u8]"
  using info_string_safe [of "[0x5C, 0x5C, 0x5C, 0x61, 0, 0, 0, 0]" 8 "2 ^ 20" "[0x61]" 0 "[0x62]" 0]
  by (simp add: c_string_def)

text \<open>
  C37. Removing by prefix removes exactly the keys with the prefix.  On an object with the string of a list of pairs, shorter
  than 1024 bytes, \<open>Info_RemovePrefixedKeys\<close> leaves the pairs whose name does not begin with the
  character, in their order.
\<close>

theorem info_string_remove_prefixed:
  assumes "holds m ps" "pairs_ok ps" "length (c_string m) < 1024" "2 ^ 20 \<le> n"
  shows "\<exists>m'. Info_RemovePrefixedKeys n m prefix = Inr m' \<and> holds m' (filter (\<lambda>p. first_char (fst p) \<noteq> prefix) ps)"
proof -
  obtain j where j: "m = info_text ps @ 0 # j" using assms(1) by (rule holdsE)
  have "1024 * length (c_string m) + length (c_string m) < n" "0 \<in> set m"
    using assms(3,4) j by simp_all
  then obtain m' where m': "remove_prefixed_loop n m m prefix = Inr m'"
    using prefixed_loop_safe [OF walk.here _ _ assms(3)] by blast
  then show ?thesis
    using prefixed_loop_text [of n "[]" ps j prefix m'] assms(2) j by (simp add: Info_RemovePrefixedKeys_def)
qed

theorem info_string_remove_prefixed_witness:
  "\<exists>m'. Info_RemovePrefixedKeys (2 ^ 20) (0x5C # [0x2A] @ 0x5C # [0x31] @ 0x5C # [0x61] @ 0x5C # [0x62] @ [0]) 0x2A = Inr m' \<and>
     holds m' [([0x61], [0x62])]"
proof -
  let ?m = "0x5C # [0x2A] @ 0x5C # [0x31] @ 0x5C # [0x61] @ 0x5C # [0x62] @ [0]" and ?ps = "[([0x2A], [0x31]), ([0x61], [0x62])]"
  have "holds ?m ?ps" "pairs_ok ?ps" "length (c_string ?m) < 1024"
    by (simp_all add: holds_def c_string_def part_ok_def)
  then show ?thesis using info_string_remove_prefixed [where m = ?m and ps = ?ps and n = "2 ^ 20" and prefix = "0x2A"] by (simp add: first_char_def)
qed

end
