(* ===== verification/InfoJoin.thy ===== *)
theory InfoJoin
  imports InfoText InfoSafe
begin

text \<open>
  The two generations of info strings together: what \<open>InfoBuf_ToString\<close> writes for peers, read by the
  older \<open>Info_ValueForKey\<close>.
\<close>

lemma not_large_parts:
  assumes "key_ok x" "\<not> large x"
  shows "info_encode (key_name x) = key_name x" "info_encode (blob x) = blob x" "part_ok (key_name x)" "part_ok (blob x)"
    "blob x \<noteq> []"
proof -
  have facts: "key_size x < 64" "length (key_name x) < 64" "\<not> InfoBuf_NeedsEncoding (key_name x)"
    "\<not> InfoBuf_NeedsEncoding (blob x)" "length (blob x) = key_size x" "0 < key_size x"
    using assms by (auto simp: key_ok_def InfoBuf_IsLarge_def blob_def Let_def split: if_splits)
  then show "info_encode (key_name x) = key_name x" "info_encode (blob x) = blob x" "blob x \<noteq> []"
    by (auto simp: info_encode_def)
  show "part_ok (key_name x)" "part_ok (blob x)"
    using facts by (auto simp: part_ok_def NeedsEncoding_iff needs_encoding_char_def)
qed

lemma pass_text_pairs:
  "list_all (\<lambda>x. key_ok x \<and> \<not> large x) sent \<Longrightarrow>
   pass_text sent = info_text (map key_pair sent) \<and> pairs_ok (map key_pair sent)"
proof (induction sent)
  case (Cons x sent)
  then show ?case
    using not_large_parts [of x] by (simp add: pass_text_def pair_text_def key_pair_def)
qed (simp add: pass_text_def)

text \<open>
  C38. Old readers understand new writers.  For a well-formed buffer and a string buffer of any positive
  size, whatever follows the string in memory: every value \<open>Info_ValueForKey\<close> finds in what
  \<open>InfoBuf_ToString\<close> wrote is the complete value the buffer has for that key, and every key the filters
  let through is either found that way or left in the sync queue.
\<close>

theorem infobuf_read_by_info_string:
  assumes "info_ok info" "0 < maxsize"
  shows "\<exists>str r sync'.
    InfoBuf_ToString info (Some maxsize) priority ignore exclusive (Some sync) ctx = Inr (str, r, Some sync') \<and>
    (\<forall>key v. Info_ValueForKey (str @ 0 # rest) key = Inr v \<and> v \<noteq> [] \<longrightarrow> info_map info key = Some (True, v)) \<and>
    (\<forall>x \<in> set (keys info). candidate ignore exclusive x \<longrightarrow>
       Info_ValueForKey (str @ 0 # rest) (key_name x) = Inr (blob x) \<or> queued (Some sync') ctx (key_name x))"
proof -
  obtain sent r sync' where s: "InfoBuf_ToString info (Some maxsize) priority ignore exclusive (Some sync) ctx
        = Inr (pass_text sent, r, Some sync')" "set sent \<subseteq> set (keys info)"
      "\<forall>x \<in> set sent. \<not> large x" "distinct (map key_name sent)"
      "\<forall>x \<in> set (keys info). candidate ignore exclusive x \<longrightarrow> x \<in> set sent \<or> queued (Some sync') ctx (key_name x)"
    using ToString_text [OF assms, of priority ignore exclusive sync ctx] by blast
  have ok: "key_ok x \<and> \<not> large x" if "x \<in> set sent" for x
    using that s(2,3) assms(1) by (auto simp: info_ok_def list_all_iff)
  then have pairs: "pass_text sent = info_text (map key_pair sent)" "pairs_ok (map key_pair sent)"
    using pass_text_pairs [of sent] by (auto simp: list_all_iff)
  have look: "Info_ValueForKey (pass_text sent @ 0 # rest) key
      = Inr (case map_of (map key_pair sent) key of None \<Rightarrow> [] | Some v \<Rightarrow> v)" for key
    using ValueForKey_pairs [OF holds_text [OF pairs(2)] pairs(2)] by (simp add: pairs(1))
  have sent: "map_of (map key_pair sent) (key_name x) = Some (blob x)" if "x \<in> set sent" for x
    using that s(4) by (auto simp: key_pair_def comp_def intro!: map_of_is_SomeI)
  have "info_map info key = Some (True, v)"
    if v: "Info_ValueForKey (pass_text sent @ 0 # rest) key = Inr v" "v \<noteq> []" for key v
  proof -
    obtain w where "map_of (map key_pair sent) key = Some w" "w = v"
      using v by (simp add: look split: option.splits)
    then obtain x where x: "x \<in> set sent" "key = key_name x" "v = blob x"
      by (auto simp: key_pair_def dest!: map_of_SomeD)
    then show ?thesis
      using in_keys_map [OF assms(1), of x] s(2) ok [OF x(1)] not_large_complete by auto
  qed
  moreover have "Info_ValueForKey (pass_text sent @ 0 # rest) (key_name x) = Inr (blob x) \<or> queued (Some sync') ctx (key_name x)"
    if "x \<in> set (keys info)" "candidate ignore exclusive x" for x
    using s(5) that sent [of x] by (auto simp: look)
  ultimately show ?thesis using s(1) by blast
qed

theorem infobuf_read_by_info_string_witness:
  "\<exists>str r sync'.
    InfoBuf_ToString (snd (InfoBuf_SetStarBlobKey (empty_info None) [0x61] (Some [0x62, 0x63]))) (Some 8) None None None (Some []) 3
      = Inr (str, r, Some sync') \<and>
    (Info_ValueForKey (str @ [0]) [0x61] = Inr [0x62, 0x63] \<or> queued (Some sync') 3 [0x61])"
proof -
  let ?info = "snd (InfoBuf_SetStarBlobKey (empty_info None) [0x61] (Some [0x62, 0x63]))"
  have ok: "info_ok ?info" by (simp add: SetStarBlobKey_ok)
  have "info_map ?info [0x61] = Some (True, [0x62, 0x63])"
    using SetStarBlobKey_spec [of "empty_info None" "[0x61]" "[0x62, 0x63]" "Some [0x62, 0x63]"] by (simp add: set_value_def)
  then obtain x where "x \<in> set (keys ?info)" "key_name x = [0x61]" "blob x = [0x62, 0x63]"
    using map_in_keys by metis
  moreover have "candidate None None x" for x by (simp add: candidate_def)
  ultimately show ?thesis
    using infobuf_read_by_info_string [OF ok, where maxsize = 8 and rest = "[]" and priority = None and ignore = None and exclusive = None and sync = "[]" and ctx = 3] by (metis zero_less_numeral)
qed

end
