(* ===== verification/BackBuf.thy ===== *)
theory BackBuf
  imports Netchan
begin

text \<open>
  The reliable stream of a server's client (\<open>engine/server/sv_nchan.c\<close>, and the place of
  \<open>engine/server/sv_send.c\<close> that empties it): what is written for a client goes into the
  message buffer of its network channel and, once that is full, into at most sixteen back
  buffers, which are moved into the message one by one as it is sent.  Demo recording, a
  build option, is left out.
\<close>

section \<open>State\<close>

definition MAX_BACK_BUFFERS :: nat where "MAX_BACK_BUFFERS = 16"
definition MAX_BACKBUFLEN :: int where "MAX_BACKBUFLEN = 1200"
definition svcfte_choosesplitclient :: u32 where "svcfte_choosesplitclient = 68"

text \<open>
  The part of \<open>client_t\<close> that the stream is made of (\<open>drop_me\<close> is its \<open>drop\<close>).  \<open>backbuf\<close> has no storage of its
  own: its \<open>data\<close> points at the array \<open>backbuf_data[backbuf_ptr]\<close>.  Clients are numbered;
  \<open>controller\<close> and \<open>controlled\<close> are the links of a split-screen connection.
\<close>

record client =
  netchan :: netchan
  backbuf :: sizebuf
  backbuf_ptr :: nat
  num_backbuf :: nat
  backbuf_size :: "int list"
  backbuf_data :: "u8 list list"
  drop_me :: bool
  seat :: nat
  controller :: "nat option"
  controlled :: "nat option"

text \<open>Where \<open>ClientReliable_StartWrite\<close> tells its caller to write.\<close>

datatype bufptr = Backbuf nat | Message nat

definition elem :: "'a list \<Rightarrow> nat \<Rightarrow> 'a res" where
  "elem xs i = (if i < length xs then Inr (xs ! i) else Inl OutOfBounds)"

definition put_elem :: "'a list \<Rightarrow> nat \<Rightarrow> 'a \<Rightarrow> 'a list res" where
  "put_elem xs i x = (if i < length xs then Inr (xs[i := x]) else Inl OutOfBounds)"

abbreviation msg :: "client \<Rightarrow> sizebuf" where
  "msg cl \<equiv> message (netchan cl)"

definition set_msg :: "client \<Rightarrow> sizebuf \<Rightarrow> client" where
  "set_msg cl b = cl\<lparr>netchan := (netchan cl)\<lparr>message := b\<rparr>\<rparr>"

text \<open>A buffer operation on the message, and one on the back buffer (through its pointer).\<close>

definition on_message :: "(sizebuf \<Rightarrow> sizebuf res) \<Rightarrow> client \<Rightarrow> client res" where
  "on_message f cl = rbind (f (msg cl)) (\<lambda>b. Inr (set_msg cl b))"

definition on_backbuf :: "(sizebuf \<Rightarrow> sizebuf res) \<Rightarrow> client \<Rightarrow> client res" where
  "on_backbuf f cl =
     rbind (elem (backbuf_data cl) (backbuf_ptr cl)) (\<lambda>d.
     rbind (f ((backbuf cl)\<lparr>data := d\<rparr>)) (\<lambda>b.
     Inr (cl\<lparr>backbuf := b\<lparr>data := []\<rparr>, backbuf_data := (backbuf_data cl)[backbuf_ptr cl := data b]\<rparr>)))"

definition on_client :: "(client \<Rightarrow> client res) \<Rightarrow> client list \<Rightarrow> nat \<Rightarrow> client list res" where
  "on_client f svs i = rbind (elem svs i) (\<lambda>cl. rbind (f cl) (\<lambda>cl. put_elem svs i cl))"

section \<open>Making room\<close>

text \<open>\<open>memset\<close> and the assignments that follow it, twice in the code; \<open>num_backbuf++\<close>.\<close>

definition new_backbuf :: "client \<Rightarrow> client res" where
  "new_backbuf cl =
     (let n = num_backbuf cl;
          b = \<lparr>allowoverflow = True, overflowed = False, data = [],
               maxsize = min (maxsize (msg cl)) MAX_BACKBUFLEN, cursize = 0,
               packing = SZ_BAD, currentbit = 0, prim = prim (msg cl)\<rparr> in
      rbind (put_elem (backbuf_size cl) n 0) (\<lambda>sizes.
      rbind (elem (backbuf_data cl) n) (\<lambda>_.
      Inr (cl\<lparr>backbuf := b, backbuf_ptr := n, backbuf_size := sizes, num_backbuf := n + 1\<rparr>))))"

definition ClientReliableCheckBlock :: "client \<Rightarrow> int \<Rightarrow> client res" where
  "ClientReliableCheckBlock cl len =
     (if num_backbuf cl \<noteq> 0 \<or> cursize (msg cl) > maxsize (msg cl) - len - 1 then
        rbind (if num_backbuf cl = 0 then new_backbuf cl else Inr cl) (\<lambda>cl.
        if cursize (backbuf cl) > maxsize (backbuf cl) - len - 1 then
          if num_backbuf cl = MAX_BACK_BUFFERS then
            Inr ((set_msg cl ((msg cl)\<lparr>overflowed := True\<rparr>))
              \<lparr>backbuf := (backbuf cl)\<lparr>cursize := 0\<rparr>, drop_me := True\<rparr>)
          else new_backbuf cl
        else Inr cl)
      else Inr cl)"

section \<open>Writing\<close>

text \<open>\<open>cl = cl->controller\<close> where there is one.\<close>

definition master :: "client list \<Rightarrow> nat \<Rightarrow> nat res" where
  "master svs i = rbind (elem svs i) (\<lambda>cl. Inr (case controller cl of Some j \<Rightarrow> j | None \<Rightarrow> i))"

definition finish_write :: "client \<Rightarrow> client res" where
  "finish_write cl =
     (if num_backbuf cl \<noteq> 0 then
        rbind (put_elem (backbuf_size cl) (num_backbuf cl - 1) (cursize (backbuf cl))) (\<lambda>sizes.
        let cl = cl\<lparr>backbuf_size := sizes\<rparr> in
        Inr (if overflowed (backbuf cl) then set_msg cl ((msg cl)\<lparr>overflowed := True\<rparr>) else cl))
      else Inr cl)"

definition ClientReliable_FinishWrite :: "client list \<Rightarrow> nat \<Rightarrow> client list res" where
  "ClientReliable_FinishWrite svs i = rbind (master svs i) (on_client finish_write svs)"

text \<open>The common shape of the \<open>ClientReliableWrite_*\<close> functions.\<close>

definition reliable_write :: "(sizebuf \<Rightarrow> sizebuf res) \<Rightarrow> client list \<Rightarrow> nat \<Rightarrow> client list res" where
  "reliable_write f svs i =
     rbind (elem svs i) (\<lambda>cl.
     if num_backbuf cl \<noteq> 0
     then rbind (on_client (on_backbuf f) svs i) (\<lambda>svs. ClientReliable_FinishWrite svs i)
     else on_client (on_message f) svs i)"

definition ClientReliableWrite_Byte :: "client list \<Rightarrow> nat \<Rightarrow> u32 \<Rightarrow> client list res" where
  "ClientReliableWrite_Byte svs i c = reliable_write (\<lambda>b. MSG_WriteByte b c) svs i"

definition ClientReliableWrite_Char :: "client list \<Rightarrow> nat \<Rightarrow> u32 \<Rightarrow> client list res" where
  "ClientReliableWrite_Char svs i c = reliable_write (\<lambda>b. MSG_WriteChar b c) svs i"

definition ClientReliableWrite_Double :: "client list \<Rightarrow> nat \<Rightarrow> u64 \<Rightarrow> client list res" where
  "ClientReliableWrite_Double svs i f = reliable_write (\<lambda>b. MSG_WriteDouble b f) svs i"

definition ClientReliableWrite_Float :: "client list \<Rightarrow> nat \<Rightarrow> u32 \<Rightarrow> client list res" where
  "ClientReliableWrite_Float svs i f = reliable_write (\<lambda>b. MSG_WriteFloat b f) svs i"

definition ClientReliableWrite_Int64 :: "client list \<Rightarrow> nat \<Rightarrow> u64 \<Rightarrow> client list res" where
  "ClientReliableWrite_Int64 svs i c = reliable_write (\<lambda>b. MSG_WriteInt64 b c) svs i"

definition ClientReliableWrite_Long :: "client list \<Rightarrow> nat \<Rightarrow> u32 \<Rightarrow> client list res" where
  "ClientReliableWrite_Long svs i c = reliable_write (\<lambda>b. MSG_WriteLong b c) svs i"

definition ClientReliableWrite_Short :: "client list \<Rightarrow> nat \<Rightarrow> u32 \<Rightarrow> client list res" where
  "ClientReliableWrite_Short svs i c = reliable_write (\<lambda>b. MSG_WriteShort b c) svs i"

definition ClientReliableWrite_Entity :: "client list \<Rightarrow> nat \<Rightarrow> u32 \<Rightarrow> client list res" where
  "ClientReliableWrite_Entity svs i c = reliable_write (\<lambda>b. MSG_WriteEntity b c) svs i"

definition ClientReliableWrite_String :: "client list \<Rightarrow> nat \<Rightarrow> u8 list option \<Rightarrow> client list res" where
  "ClientReliableWrite_String svs i s = reliable_write (\<lambda>b. MSG_WriteString b s) svs i"

definition ClientReliableWrite_SZ :: "client list \<Rightarrow> nat \<Rightarrow> u8 list \<Rightarrow> client list res" where
  "ClientReliableWrite_SZ svs i bs = reliable_write (\<lambda>b. SZ_Write b bs) svs i"

definition ClientReliableWrite_Begin :: "client list \<Rightarrow> nat \<Rightarrow> u32 \<Rightarrow> int \<Rightarrow> client list res" where
  "ClientReliableWrite_Begin svs i c len =
     rbind (on_client (\<lambda>cl. ClientReliableCheckBlock cl len) svs i) (\<lambda>svs.
     ClientReliableWrite_Byte svs i c)"

text \<open>
  \<open>for (sp = cl->controller; sp; sp = sp->controlled)\<close>, with the number of clients as
  the bound of a chain that does not come back on itself.
\<close>

fun seat_number :: "nat \<Rightarrow> client list \<Rightarrow> nat \<Rightarrow> nat option \<Rightarrow> nat \<Rightarrow> nat res" where
  "seat_number fuel svs i None pnum = Inr pnum"
| "seat_number 0 svs i (Some sp) pnum = Inl OutOfFuel"
| "seat_number (Suc fuel) svs i (Some sp) pnum =
     (if sp = i then Inr pnum
      else rbind (elem svs sp) (\<lambda>cl. seat_number fuel svs i (controlled cl) (pnum + 1)))"

definition ClientReliableWrite_BeginSplit ::
    "client list \<Rightarrow> nat \<Rightarrow> u32 \<Rightarrow> int \<Rightarrow> (nat \<times> client list) res" where
  "ClientReliableWrite_BeginSplit svs i svc svclen =
     rbind (elem svs i) (\<lambda>cl.
     case controller cl of
       Some sp \<Rightarrow>
         rbind (seat_number (length svs + 1) svs i (Some sp) 0) (\<lambda>pnum.
         rbind (ClientReliableWrite_Begin svs sp svcfte_choosesplitclient (2 + svclen)) (\<lambda>svs.
         rbind (ClientReliableWrite_Byte svs sp (word_of_nat pnum)) (\<lambda>svs.
         rbind (ClientReliableWrite_Byte svs sp svc) (\<lambda>svs. Inr (sp, svs)))))
     | None \<Rightarrow> rbind (ClientReliableWrite_Begin svs i svc svclen) (\<lambda>svs. Inr (i, svs)))"

definition ClientReliable_StartWrite :: "client list \<Rightarrow> nat \<Rightarrow> int \<Rightarrow> (bufptr \<times> client list) res" where
  "ClientReliable_StartWrite svs i len =
     rbind (elem svs i) (\<lambda>cl.
     rbind (if seat cl \<noteq> 0 then
              case controller cl of
                None \<Rightarrow> Inl NullDeref
              | Some j \<Rightarrow>
                  rbind (ClientReliableWrite_Begin svs j svcfte_choosesplitclient (2 + len)) (\<lambda>svs.
                  rbind (ClientReliableWrite_Byte svs j (word_of_nat (seat cl))) (\<lambda>svs. Inr (j, svs)))
            else rbind (on_client (\<lambda>cl. ClientReliableCheckBlock cl len) svs i) (\<lambda>svs. Inr (i, svs)))
     (\<lambda>(j, svs). rbind (elem svs j) (\<lambda>cl.
     Inr (if num_backbuf cl \<noteq> 0 then Backbuf j else Message j, svs))))"

text \<open>What the caller does with the pointer.\<close>

definition write_ptr :: "bufptr \<Rightarrow> (sizebuf \<Rightarrow> sizebuf res) \<Rightarrow> client list \<Rightarrow> client list res" where
  "write_ptr p f svs =
     (case p of Backbuf j \<Rightarrow> on_client (on_backbuf f) svs j | Message j \<Rightarrow> on_client (on_message f) svs j)"

section \<open>Emptying the back buffers\<close>

text \<open>\<open>for (j = 1; j < c->num_backbuf; j++)\<close>, run \<open>n\<close> times from \<open>j\<close> on.\<close>

fun shift_backbufs :: "nat \<Rightarrow> nat \<Rightarrow> client \<Rightarrow> client res" where
  "shift_backbufs 0 j cl = Inr cl"
| "shift_backbufs (Suc n) j cl =
     rbind (elem (backbuf_size cl) j) (\<lambda>len.
     rbind (elem (backbuf_data cl) j) (\<lambda>src.
     rbind (elem (backbuf_data cl) (j - 1)) (\<lambda>dst.
     rbind (slice src 0 len) (\<lambda>bs.
     rbind (poke dst 0 bs) (\<lambda>dst.
     shift_backbufs n (j + 1) (cl\<lparr>backbuf_data := (backbuf_data cl)[j - 1 := dst],
       backbuf_size := (backbuf_size cl)[j - 1 := len]\<rparr>))))))"

text \<open>One visit of the client in \<open>SV_SendClientMessages\<close>.\<close>

definition flush_backbuf :: "client \<Rightarrow> client res" where
  "flush_backbuf cl =
     (if num_backbuf cl = 0 then Inr cl else
      rbind (elem (backbuf_size cl) 0) (\<lambda>len.
      if cursize (msg cl) + len \<le> maxsize (msg cl) then
        rbind (elem (backbuf_data cl) 0) (\<lambda>d. rbind (slice d 0 len) (\<lambda>bs.
        rbind (on_message (\<lambda>b. SZ_Write b bs) cl) (\<lambda>cl.
        rbind (shift_backbufs (num_backbuf cl - 1) 1 cl) (\<lambda>cl.
        let n = num_backbuf cl - 1; cl = cl\<lparr>num_backbuf := n\<rparr> in
        if n \<noteq> 0 then
          rbind (elem (backbuf_size cl) (n - 1)) (\<lambda>cur.
          Inr (cl\<lparr>backbuf := \<lparr>allowoverflow = False, overflowed = False, data = [],
                 maxsize = min (maxsize (msg cl)) MAX_BACKBUFLEN, cursize = cur,
                 packing = SZ_BAD, currentbit = 0, prim = prim (msg cl)\<rparr>,
               backbuf_ptr := n - 1\<rparr>))
        else Inr cl))))
      else Inr cl))"

end
