(* ===== verification/BackBufOrder.thy ===== *)
theory BackBufOrder
  imports BackBuf
begin

text \<open>
  What the reliable stream of a client promises: its bytes leave in the order in which they
  were written, each once, or the client is marked to be dropped.
\<close>

section \<open>The stream and the invariant\<close>

text \<open>The bytes of back buffer \<open>k\<close>, and of the first \<open>n\<close>.\<close>

definition back_part :: "client \<Rightarrow> nat \<Rightarrow> u8 list" where
  "back_part cl k = take (nat (backbuf_size cl ! k)) (backbuf_data cl ! k)"

definition back_parts :: "client \<Rightarrow> nat \<Rightarrow> u8 list" where
  "back_parts cl n = concat (map (back_part cl) [0..<n])"

definition stream :: "client \<Rightarrow> u8 list" where
  "stream cl = contents (msg cl) @ back_parts cl (num_backbuf cl)"

definition back_max :: "client \<Rightarrow> int" where
  "back_max cl = min (maxsize (msg cl)) MAX_BACKBUFLEN"

definition shape_ok :: "client \<Rightarrow> bool" where
  "shape_ok cl \<longleftrightarrow> 0 \<le> cursize (msg cl) \<and> cursize (msg cl) \<le> maxsize (msg cl)
     \<and> maxsize (msg cl) \<le> int (length (data (msg cl)))
     \<and> num_backbuf cl \<le> MAX_BACK_BUFFERS \<and> length (backbuf_size cl) = MAX_BACK_BUFFERS
     \<and> length (backbuf_data cl) = MAX_BACK_BUFFERS
     \<and> (\<forall>k < MAX_BACK_BUFFERS. int (length (backbuf_data cl ! k)) = MAX_BACKBUFLEN)
     \<and> (\<forall>k < num_backbuf cl. 0 \<le> backbuf_size cl ! k \<and> backbuf_size cl ! k \<le> back_max cl)
     \<and> (num_backbuf cl \<noteq> 0 \<longrightarrow> backbuf_ptr cl = num_backbuf cl - 1 \<and> maxsize (backbuf cl) = back_max cl
          \<and> 0 \<le> cursize (backbuf cl) \<and> cursize (backbuf cl) \<le> back_max cl)"

text \<open>Between two blocks the last size is the one of \<open>backbuf\<close>.\<close>

definition queue_ok :: "client \<Rightarrow> bool" where
  "queue_ok cl \<longleftrightarrow> shape_ok cl \<and>
     (num_backbuf cl \<noteq> 0 \<longrightarrow> backbuf_size cl ! (num_backbuf cl - 1) = cursize (backbuf cl))"

definition room_for :: "client \<Rightarrow> int \<Rightarrow> bool" where
  "room_for cl n \<longleftrightarrow> (if num_backbuf cl = 0 then cursize (msg cl) \<le> maxsize (msg cl) - n - 1
     else cursize (backbuf cl) \<le> maxsize (backbuf cl) - n - 1)"

text \<open>The client is to be dropped: the reliable message counts as overflowed.\<close>

definition lost :: "client \<Rightarrow> bool" where
  "lost cl \<longleftrightarrow> overflowed (msg cl)"

lemma back_max_le: "back_max cl \<le> MAX_BACKBUFLEN"
  by (simp add: back_max_def)

lemma back_parts_cong:
  "(\<And>k. k < n \<Longrightarrow> back_part cl k = back_part cl' k) \<Longrightarrow> back_parts cl n = back_parts cl' n"
  by (auto simp: back_parts_def intro!: arg_cong [where f = concat] map_cong)

lemma back_parts_Suc: "back_parts cl (Suc n) = back_parts cl n @ back_part cl n"
  by (simp add: back_parts_def)

section \<open>A new back buffer\<close>

lemma new_backbuf_spec:
  assumes "queue_ok cl" "num_backbuf cl < MAX_BACK_BUFFERS"
  shows "\<exists>cl'. new_backbuf cl = Inr cl' \<and> queue_ok cl' \<and> stream cl' = stream cl \<and> netchan cl' = netchan cl
    \<and> num_backbuf cl' = num_backbuf cl + 1 \<and> cursize (backbuf cl') = 0 \<and> controller cl' = controller cl"
proof -
  let ?n = "num_backbuf cl"
  obtain cl' where cl': "new_backbuf cl = Inr cl'"
      "cl' = cl\<lparr>backbuf := \<lparr>allowoverflow = True, overflowed = False, data = [], maxsize = back_max cl, cursize = 0,
         packing = SZ_BAD, currentbit = 0, prim = prim (msg cl)\<rparr>, backbuf_ptr := ?n,
         backbuf_size := (backbuf_size cl)[?n := 0], num_backbuf := ?n + 1\<rparr>"
    using assms by (simp add: new_backbuf_def queue_ok_def shape_ok_def put_elem_def elem_def back_max_def Let_def)
  have m: "0 \<le> back_max cl"
    using assms(1) by (auto simp: back_max_def queue_ok_def shape_ok_def MAX_BACKBUFLEN_def)
  have bm: "back_max cl' = back_max cl" by (simp add: cl'(2) back_max_def)
  have "shape_ok cl'"
    using assms m bm by (auto simp: queue_ok_def shape_ok_def cl'(2) nth_list_update less_Suc_eq)
  moreover have "backbuf_size cl' ! ?n = 0"
    using assms by (simp add: cl'(2) queue_ok_def shape_ok_def)
  moreover have "back_parts cl' ?n = back_parts cl ?n"
    using assms by (intro back_parts_cong) (simp add: back_part_def cl'(2) queue_ok_def shape_ok_def)
  moreover have "num_backbuf cl' = Suc ?n" "netchan cl' = netchan cl" "cursize (backbuf cl') = 0"
      "controller cl' = controller cl"
    by (simp_all add: cl'(2))
  ultimately show ?thesis
    using cl'(1) by (simp add: queue_ok_def stream_def back_parts_Suc back_part_def)
qed

lemma check_block_spec:
  assumes ok: "queue_ok cl" and len: "len + 1 \<le> back_max cl"
  shows "\<exists>cl'. ClientReliableCheckBlock cl len = Inr cl' \<and> shape_ok cl' \<and> room_for cl' len
    \<and> back_max cl' = back_max cl \<and> controller cl' = controller cl \<and> (lost cl \<longrightarrow> lost cl')
    \<and> (lost cl' \<or> queue_ok cl' \<and> stream cl' = stream cl)"
proof (cases "num_backbuf cl = 0 \<and> cursize (msg cl) \<le> maxsize (msg cl) - len - 1
    \<or> num_backbuf cl \<noteq> 0 \<and> cursize (backbuf cl) \<le> maxsize (backbuf cl) - len - 1")
  case True
  then show ?thesis
    using ok by (auto simp: ClientReliableCheckBlock_def room_for_def queue_ok_def)
next
  case False
  show ?thesis
  proof (cases "num_backbuf cl < MAX_BACK_BUFFERS")
    case True
    obtain cl' where cl': "new_backbuf cl = Inr cl'" "queue_ok cl'" "stream cl' = stream cl" "netchan cl' = netchan cl"
        "num_backbuf cl' = num_backbuf cl + 1" "cursize (backbuf cl') = 0" "controller cl' = controller cl"
      using new_backbuf_spec [OF ok True] by blast
    have bm: "back_max cl' = back_max cl" "maxsize (backbuf cl') = back_max cl"
      using cl'(2,4,5) by (auto simp: back_max_def queue_ok_def shape_ok_def)
    have "ClientReliableCheckBlock cl len = Inr cl'"
      using False True cl'(1,5,6) bm(2) len by (auto simp: ClientReliableCheckBlock_def)
    moreover have "room_for cl' len" using cl'(5,6) bm(2) len by (simp add: room_for_def)
    ultimately show ?thesis using cl'(2-4,7) bm(1) by (auto simp: queue_ok_def lost_def)
  next
    case full: False
    then have n: "num_backbuf cl = MAX_BACK_BUFFERS" using ok by (simp add: queue_ok_def shape_ok_def)
    define cl' where "cl' = (set_msg cl ((msg cl)\<lparr>overflowed := True\<rparr>))
        \<lparr>backbuf := (backbuf cl)\<lparr>cursize := 0\<rparr>, drop_me := True\<rparr>"
    have "ClientReliableCheckBlock cl len = Inr cl'"
      using False n by (simp add: ClientReliableCheckBlock_def MAX_BACK_BUFFERS_def cl'_def)
    moreover have bm: "back_max cl' = back_max cl" by (simp add: cl'_def back_max_def set_msg_def)
    moreover have "shape_ok cl'"
      using ok bm n by (auto simp: queue_ok_def shape_ok_def cl'_def set_msg_def MAX_BACK_BUFFERS_def)
    moreover have "room_for cl' len"
      using ok len n by (simp add: room_for_def cl'_def set_msg_def queue_ok_def shape_ok_def MAX_BACK_BUFFERS_def)
    ultimately show ?thesis by (simp add: lost_def cl'_def set_msg_def)
  qed
qed

section \<open>Writing a block\<close>

lemma SZ_Write_room:
  assumes "0 \<le> cursize b" "cursize b + int (length bs) \<le> maxsize b" "maxsize b \<le> int (length (data b))"
  shows "SZ_Write b bs = Inr (sz_put b bs)"
  using assms by (intro SZ_Write_fits) (simp add: sz_fits_def)

text \<open>A block of bytes, from making room to noting the new size, for a client of its own.\<close>

definition append_bytes :: "u8 list \<Rightarrow> client \<Rightarrow> client res" where
  "append_bytes bs cl =
     rbind (if num_backbuf cl \<noteq> 0 then on_backbuf (\<lambda>b. SZ_Write b bs) cl else on_message (\<lambda>b. SZ_Write b bs) cl)
       finish_write"

lemma append_message:
  assumes ok: "shape_ok cl" and n: "num_backbuf cl = 0" and room: "room_for cl (int (length bs))"
  shows "\<exists>cl'. append_bytes bs cl = Inr cl' \<and> queue_ok cl' \<and> stream cl' = stream cl @ bs
    \<and> back_max cl' = back_max cl \<and> controller cl' = controller cl \<and> lost cl' = lost cl"
proof -
  have fits: "sz_fits (msg cl) (length bs)"
    using ok n room by (simp add: sz_fits_def shape_ok_def room_for_def)
  have "append_bytes bs cl = Inr (set_msg cl (sz_put (msg cl) bs))"
    using n fits by (simp add: append_bytes_def on_message_def SZ_Write_fits finish_write_def set_msg_def)
  moreover have "queue_ok (set_msg cl (sz_put (msg cl) bs))"
    using ok n fits length_data_sz_put [OF fits]
    by (auto simp: queue_ok_def shape_ok_def set_msg_def sz_fits_def)
  ultimately show ?thesis
    using n fits by (simp add: set_msg_def stream_def back_parts_def contents_sz_put back_max_def lost_def)
qed

lemma append_backbuf:
  assumes ok: "shape_ok cl" and n: "num_backbuf cl = Suc k" and room: "room_for cl (int (length bs))"
  shows "\<exists>cl'. append_bytes bs cl = Inr cl' \<and> queue_ok cl'
    \<and> stream cl' = contents (msg cl) @ back_parts cl k @ take (nat (cursize (backbuf cl))) (backbuf_data cl ! k) @ bs
    \<and> back_max cl' = back_max cl \<and> controller cl' = controller cl \<and> (lost cl \<longrightarrow> lost cl')"
proof -
  define b where "b = (backbuf cl)\<lparr>data := backbuf_data cl ! k\<rparr>"
  have k: "k < MAX_BACK_BUFFERS" "backbuf_ptr cl = k" and len: "int (length (backbuf_data cl ! k)) = MAX_BACKBUFLEN"
    using ok n by (auto simp: shape_ok_def)
  have fits: "sz_fits b (length bs)"
    using ok n room len back_max_le [of cl] by (simp add: sz_fits_def b_def shape_ok_def room_for_def)
  define b' where "b' = sz_put b bs"
  have b': "cursize b' = cursize (backbuf cl) + int (length bs)" "maxsize b' = maxsize (backbuf cl)"
      "length (data b') = length (backbuf_data cl ! k)"
      "take (nat (cursize b')) (data b') = take (nat (cursize (backbuf cl))) (backbuf_data cl ! k) @ bs"
    using contents_sz_put [OF fits] length_data_sz_put [OF fits] by (simp_all add: b'_def b_def contents_def)
  define cl1 where "cl1 = cl\<lparr>backbuf := b'\<lparr>data := []\<rparr>, backbuf_data := (backbuf_data cl)[k := data b'],
      backbuf_size := (backbuf_size cl)[k := cursize b']\<rparr>"
  have "on_backbuf (\<lambda>b. SZ_Write b bs) cl
      = Inr (cl\<lparr>backbuf := b'\<lparr>data := []\<rparr>, backbuf_data := (backbuf_data cl)[k := data b']\<rparr>)"
    using ok k fits by (simp add: on_backbuf_def elem_def shape_ok_def b_def [symmetric] b'_def SZ_Write_fits)
  then obtain cl' where cl': "append_bytes bs cl = Inr cl'"
      "cl' = (if overflowed b' then set_msg cl1 ((msg cl1)\<lparr>overflowed := True\<rparr>) else cl1)"
    using ok n k by (simp add: append_bytes_def finish_write_def put_elem_def shape_ok_def cl1_def Let_def)
  have same: "msg cl1 = msg cl" "num_backbuf cl1 = Suc k" "back_max cl1 = back_max cl"
    using n by (simp_all add: cl1_def back_max_def)
  have "queue_ok cl1"
    using ok n k room b' len same
    by (auto simp: queue_ok_def shape_ok_def room_for_def cl1_def nth_list_update less_Suc_eq)
  then have "queue_ok cl'"
    by (auto simp: cl'(2) queue_ok_def shape_ok_def set_msg_def back_max_def)
  moreover have "back_parts cl1 k = back_parts cl k"
    using k by (intro back_parts_cong) (simp add: back_part_def cl1_def)
  then have "back_parts cl' k = back_parts cl k"
    by (auto simp: cl'(2) set_msg_def back_parts_def back_part_def [abs_def])
  moreover have "back_part cl' k = take (nat (cursize (backbuf cl))) (backbuf_data cl ! k) @ bs"
    using ok k b'(4) by (auto simp: cl'(2) cl1_def back_part_def set_msg_def shape_ok_def)
  moreover have "contents (msg cl') = contents (msg cl)" "num_backbuf cl' = Suc k" "back_max cl' = back_max cl"
      "controller cl' = controller cl" "lost cl \<longrightarrow> lost cl'"
    using same by (auto simp: cl'(2) set_msg_def contents_def back_max_def lost_def) (simp_all add: cl1_def)
  ultimately show ?thesis
    using cl'(1) by (simp add: stream_def back_parts_Suc)
qed

definition block :: "int \<Rightarrow> u8 list \<Rightarrow> client \<Rightarrow> client res" where
  "block len bs cl = rbind (ClientReliableCheckBlock cl len) (append_bytes bs)"

lemma block_spec:
  assumes "queue_ok cl" "int (length bs) \<le> len" "len + 1 \<le> back_max cl"
  shows "\<exists>cl'. block len bs cl = Inr cl' \<and> queue_ok cl' \<and> back_max cl' = back_max cl \<and> controller cl' = controller cl
    \<and> (lost cl \<longrightarrow> lost cl') \<and> (lost cl' \<or> stream cl' = stream cl @ bs)"
proof -
  obtain cl1 where cl1: "ClientReliableCheckBlock cl len = Inr cl1" "shape_ok cl1" "room_for cl1 len"
      "back_max cl1 = back_max cl" "controller cl1 = controller cl" "lost cl \<longrightarrow> lost cl1"
      "lost cl1 \<or> queue_ok cl1 \<and> stream cl1 = stream cl"
    using check_block_spec [OF assms(1,3)] by blast
  have room: "room_for cl1 (int (length bs))" using cl1(3) assms(2) by (simp add: room_for_def split: if_splits)
  show ?thesis
  proof (cases "num_backbuf cl1")
    case 0
    then show ?thesis
      using append_message [OF cl1(2) _ room] cl1 by (auto simp: block_def)
  next
    case (Suc k)
    obtain cl' where cl': "append_bytes bs cl1 = Inr cl'" "queue_ok cl'"
        "stream cl' = contents (msg cl1) @ back_parts cl1 k @ take (nat (cursize (backbuf cl1))) (backbuf_data cl1 ! k) @ bs"
        "back_max cl' = back_max cl1" "controller cl' = controller cl1" "lost cl1 \<longrightarrow> lost cl'"
      using append_backbuf [OF cl1(2) Suc room] by blast
    have "stream cl' = stream cl1 @ bs" if "queue_ok cl1"
      using that cl'(3) Suc by (simp add: stream_def back_parts_Suc back_part_def queue_ok_def)
    then show ?thesis
      using cl' cl1 by (auto simp: block_def)
  qed
qed

section \<open>Moving a back buffer into the message\<close>

lemma shift_backbufs_spec:
  assumes "1 \<le> j" "j + n \<le> MAX_BACK_BUFFERS" "length (backbuf_size cl) = MAX_BACK_BUFFERS"
    "length (backbuf_data cl) = MAX_BACK_BUFFERS"
    "\<forall>k < MAX_BACK_BUFFERS. int (length (backbuf_data cl ! k)) = MAX_BACKBUFLEN"
    "\<forall>k. j \<le> k \<longrightarrow> k < j + n \<longrightarrow> 0 \<le> backbuf_size cl ! k \<and> backbuf_size cl ! k \<le> MAX_BACKBUFLEN"
  shows "\<exists>dat sizes. shift_backbufs n j cl = Inr (cl\<lparr>backbuf_data := dat, backbuf_size := sizes\<rparr>)
    \<and> length dat = MAX_BACK_BUFFERS \<and> length sizes = MAX_BACK_BUFFERS
    \<and> (\<forall>k < MAX_BACK_BUFFERS. int (length (dat ! k)) = MAX_BACKBUFLEN)
    \<and> (\<forall>k. j \<le> k \<longrightarrow> k < j + n \<longrightarrow> sizes ! (k - 1) = backbuf_size cl ! k
         \<and> take (nat (sizes ! (k - 1))) (dat ! (k - 1)) = back_part cl k)
    \<and> (\<forall>k. k + 1 < j \<longrightarrow> sizes ! k = backbuf_size cl ! k \<and> dat ! k = backbuf_data cl ! k)"
  using assms
proof (induction n arbitrary: j cl)
  case 0
  then show ?case by (intro exI [of _ "backbuf_data cl"] exI [of _ "backbuf_size cl"]) simp
next
  case (Suc n)
  define len where "len = backbuf_size cl ! j"
  have j: "j < MAX_BACK_BUFFERS" using Suc.prems(2) by simp
  have len: "0 \<le> len" "len \<le> MAX_BACKBUFLEN" using Suc.prems(6) by (simp_all add: len_def)
  define src where "src = take (nat len) (backbuf_data cl ! j)"
  define dst where "dst = src @ List.drop (nat len) (backbuf_data cl ! (j - 1))"
  have dl: "int (length (backbuf_data cl ! j)) = MAX_BACKBUFLEN" "int (length (backbuf_data cl ! (j - 1))) = MAX_BACKBUFLEN"
    using Suc.prems(5) j by auto
  have sl: "length src = nat len" using len dl by (auto simp: src_def)
  define cl1 where "cl1 = cl\<lparr>backbuf_data := (backbuf_data cl)[j - 1 := dst], backbuf_size := (backbuf_size cl)[j - 1 := len]\<rparr>"
  have fit: "nat len \<le> length (backbuf_data cl ! (j - Suc 0))" "j - Suc 0 < MAX_BACK_BUFFERS"
    using dl len j by auto
  have step: "shift_backbufs (Suc n) j cl = shift_backbufs n (j + 1) cl1"
    using Suc.prems(3,4) j len dl sl fit
    by (simp add: elem_def slice_def poke_def len_def [symmetric] src_def [symmetric] dst_def cl1_def)
  have dst: "int (length dst) = MAX_BACKBUFLEN" "take (nat len) dst = src"
    using sl len dl by (auto simp: dst_def)
  have same: "backbuf_size cl1 ! k = backbuf_size cl ! k" "backbuf_data cl1 ! k = backbuf_data cl ! k"
      "back_part cl1 k = back_part cl k" if "k \<noteq> j - 1" for k
    using that by (simp_all add: cl1_def back_part_def)
  have "\<forall>k < MAX_BACK_BUFFERS. int (length (backbuf_data cl1 ! k)) = MAX_BACKBUFLEN"
    using Suc.prems(4,5) dst(1) fit(2) by (auto simp: cl1_def nth_list_update [of "j - Suc 0"])
  moreover have "\<forall>k. j + 1 \<le> k \<longrightarrow> k < j + 1 + n \<longrightarrow> 0 \<le> backbuf_size cl1 ! k \<and> backbuf_size cl1 ! k \<le> MAX_BACKBUFLEN"
    using Suc.prems(6) same by auto
  ultimately obtain dat sizes where IH: "shift_backbufs n (j + 1) cl1 = Inr (cl1\<lparr>backbuf_data := dat, backbuf_size := sizes\<rparr>)"
      "length dat = MAX_BACK_BUFFERS" "length sizes = MAX_BACK_BUFFERS"
      "\<forall>k < MAX_BACK_BUFFERS. int (length (dat ! k)) = MAX_BACKBUFLEN"
      "\<forall>k. j + 1 \<le> k \<longrightarrow> k < j + 1 + n \<longrightarrow> sizes ! (k - 1) = backbuf_size cl1 ! k
         \<and> take (nat (sizes ! (k - 1))) (dat ! (k - 1)) = back_part cl1 k"
      "\<forall>k. k + 1 < j + 1 \<longrightarrow> sizes ! k = backbuf_size cl1 ! k \<and> dat ! k = backbuf_data cl1 ! k"
    using Suc.IH [of "j + 1" cl1] Suc.prems(1-4) by (auto simp: cl1_def)
  have "cl1\<lparr>backbuf_data := dat, backbuf_size := sizes\<rparr> = cl\<lparr>backbuf_data := dat, backbuf_size := sizes\<rparr>"
    by (simp add: cl1_def)
  moreover have "sizes ! (j - 1) = len" "dat ! (j - 1) = dst"
    using IH(6) Suc.prems(1,3,4) j by (auto simp: cl1_def)
  then have first: "sizes ! (j - 1) = backbuf_size cl ! j \<and> take (nat (sizes ! (j - 1))) (dat ! (j - 1)) = back_part cl j"
    using dst(2) by (simp add: len_def back_part_def src_def)
  have "sizes ! (k - 1) = backbuf_size cl ! k \<and> take (nat (sizes ! (k - 1))) (dat ! (k - 1)) = back_part cl k"
    if "j \<le> k" "k < j + Suc n" for k
  proof (cases "k = j")
    case False
    with that Suc.prems(1) have "j + 1 \<le> k" "k < j + 1 + n" "k \<noteq> j - 1" by auto
    then show ?thesis using spec [OF IH(5), of k] same [of k] by auto
  qed (use first in auto)
  moreover have "\<forall>k. k + 1 < j \<longrightarrow> sizes ! k = backbuf_size cl ! k \<and> dat ! k = backbuf_data cl ! k"
    using IH(6) same by auto
  ultimately show ?case
    using step IH(1-4) by auto
qed

lemma back_parts_first: "back_parts cl (Suc n) = back_part cl 0 @ concat (map (\<lambda>k. back_part cl (Suc k)) [0..<n])"
proof -
  have "[0..<Suc n] = 0 # map Suc [0..<n]"
    by (simp only: upt_conv_Cons zero_less_Suc map_Suc_upt)
  then show ?thesis by (simp add: back_parts_def comp_def del: upt_Suc)
qed

lemma flush_backbuf_spec:
  assumes ok: "queue_ok cl"
  shows "\<exists>cl'. flush_backbuf cl = Inr cl' \<and> queue_ok cl' \<and> stream cl' = stream cl \<and> back_max cl' = back_max cl
    \<and> lost cl' = lost cl
    \<and> num_backbuf cl' = (if num_backbuf cl \<noteq> 0 \<and> cursize (msg cl) + backbuf_size cl ! 0 \<le> maxsize (msg cl)
        then num_backbuf cl - 1 else num_backbuf cl)"
proof (cases "num_backbuf cl \<noteq> 0 \<and> cursize (msg cl) + backbuf_size cl ! 0 \<le> maxsize (msg cl)")
  case False
  then have "flush_backbuf cl = Inr cl"
    using ok by (auto simp: flush_backbuf_def queue_ok_def shape_ok_def elem_def MAX_BACK_BUFFERS_def)
  with ok False show ?thesis by auto
next
  case True
  then obtain n where n: "num_backbuf cl = Suc n" by (cases "num_backbuf cl") auto
  have sh: "length (backbuf_size cl) = MAX_BACK_BUFFERS" "length (backbuf_data cl) = MAX_BACK_BUFFERS"
      "Suc n \<le> MAX_BACK_BUFFERS" "int (length (backbuf_data cl ! 0)) = MAX_BACKBUFLEN"
      "0 \<le> backbuf_size cl ! 0" "backbuf_size cl ! 0 \<le> MAX_BACKBUFLEN"
    using ok n back_max_le [of cl] by (auto simp: queue_ok_def shape_ok_def)
  define bs where "bs = back_part cl 0"
  have bs: "slice (backbuf_data cl ! 0) 0 (backbuf_size cl ! 0) = Inr bs" "int (length bs) = backbuf_size cl ! 0"
    using sh by (auto simp: slice_def bs_def back_part_def)
  have fits: "sz_fits (msg cl) (length bs)"
    using ok True bs(2) by (simp add: sz_fits_def queue_ok_def shape_ok_def)
  define cl1 where "cl1 = set_msg cl (sz_put (msg cl) bs)"
  have wr: "on_message (\<lambda>b. SZ_Write b bs) cl = Inr cl1"
    using fits by (simp add: on_message_def SZ_Write_fits cl1_def)
  have same1: "backbuf_size cl1 = backbuf_size cl" "backbuf_data cl1 = backbuf_data cl" "back_part cl1 k = back_part cl k" for k
    by (simp_all add: cl1_def set_msg_def back_part_def)
  have "\<exists>dat sizes. shift_backbufs n 1 cl1 = Inr (cl1\<lparr>backbuf_data := dat, backbuf_size := sizes\<rparr>)
    \<and> length dat = MAX_BACK_BUFFERS \<and> length sizes = MAX_BACK_BUFFERS
    \<and> (\<forall>k < MAX_BACK_BUFFERS. int (length (dat ! k)) = MAX_BACKBUFLEN)
    \<and> (\<forall>k. 1 \<le> k \<longrightarrow> k < 1 + n \<longrightarrow> sizes ! (k - 1) = backbuf_size cl1 ! k
         \<and> take (nat (sizes ! (k - 1))) (dat ! (k - 1)) = back_part cl1 k)
    \<and> (\<forall>k. k + 1 < 1 \<longrightarrow> sizes ! k = backbuf_size cl1 ! k \<and> dat ! k = backbuf_data cl1 ! k)"
    using ok n sh back_max_le [of cl]
    by (intro shift_backbufs_spec) (auto simp: same1 queue_ok_def shape_ok_def intro: order_trans)
  then obtain dat sizes where shift: "shift_backbufs n 1 cl1 = Inr (cl1\<lparr>backbuf_data := dat, backbuf_size := sizes\<rparr>)"
      "length dat = MAX_BACK_BUFFERS" "length sizes = MAX_BACK_BUFFERS"
      "\<forall>k < MAX_BACK_BUFFERS. int (length (dat ! k)) = MAX_BACKBUFLEN"
      "\<forall>k. 1 \<le> k \<longrightarrow> k < 1 + n \<longrightarrow> sizes ! (k - 1) = backbuf_size cl1 ! k
         \<and> take (nat (sizes ! (k - 1))) (dat ! (k - 1)) = back_part cl1 k"
    by blast
  have moved: "sizes ! k = backbuf_size cl ! Suc k \<and> take (nat (sizes ! k)) (dat ! k) = back_part cl (Suc k)"
    if "k < n" for k
    using spec [OF shift(5), of "Suc k"] that by (auto simp: same1)
  note sh2 = shift(1-4) moved
  define cl2 where "cl2 = cl1\<lparr>backbuf_data := dat, backbuf_size := sizes, num_backbuf := n\<rparr>"
  define cl3 where "cl3 = (if n = 0 then cl2 else cl2\<lparr>backbuf := \<lparr>allowoverflow = False, overflowed = False, data = [],
      maxsize = min (maxsize (msg cl2)) MAX_BACKBUFLEN, cursize = sizes ! (n - 1), packing = SZ_BAD, currentbit = 0,
      prim = prim (msg cl2)\<rparr>, backbuf_ptr := n - 1\<rparr>)"
  have num: "num_backbuf cl1 = Suc n" using n by (simp add: cl1_def set_msg_def)
  have "n - Suc 0 < MAX_BACK_BUFFERS" using sh(3) by simp
  then have "flush_backbuf cl = Inr cl3"
    using True n sh sh2(1,3) bs(1) wr num
    by (simp add: flush_backbuf_def elem_def Let_def cl2_def [symmetric] cl3_def) (simp add: cl2_def)
  moreover have f: "num_backbuf cl3 = n" "backbuf_size cl3 = sizes" "backbuf_data cl3 = dat" "msg cl3 = sz_put (msg cl) bs"
      "back_max cl3 = back_max cl" "lost cl3 = lost cl"
    by (simp_all add: cl3_def cl2_def cl1_def set_msg_def back_max_def lost_def)
  have sizes: "0 \<le> sizes ! k \<and> sizes ! k \<le> back_max cl" if "k < n" for k
    using ok n sh2(5) [OF that] that by (auto simp: queue_ok_def shape_ok_def)
  have "queue_ok cl3"
    using ok n sh sh2(2-4) sizes fits length_data_sz_put [OF fits]
    by (auto simp: queue_ok_def shape_ok_def f sz_fits_def) (auto simp: cl3_def cl2_def cl1_def set_msg_def back_max_def)
  moreover have "stream cl3 = stream cl"
  proof -
    have "back_parts cl3 n = concat (map (\<lambda>k. back_part cl (Suc k)) [0..<n])"
    proof -
      have "back_part cl3 k = back_part cl (Suc k)" if "k < n" for k
        using moved [OF that] unfolding back_part_def [of cl3] f by (rule conjunct2)
      then show ?thesis by (auto simp: back_parts_def intro!: arg_cong [where f = concat] map_cong)
    qed
    then show ?thesis
      using fits by (simp add: stream_def f n back_parts_first contents_sz_put bs_def)
  qed
  ultimately show ?thesis using True n f by auto
qed

section \<open>An ordered outlet\<close>

text \<open>A run: blocks (\<open>Inl\<close>) and frames (\<open>Inr\<close>, with the message sent or not); what came out.\<close>

fun run_events :: "('b \<Rightarrow> 's \<Rightarrow> 's res) \<Rightarrow> (bool \<Rightarrow> 's \<Rightarrow> (u8 list \<times> 's) res) \<Rightarrow> ('b + bool) list
    \<Rightarrow> u8 list \<times> 's \<Rightarrow> (u8 list \<times> 's) res" where
  "run_events emit frame [] (out, s) = Inr (out, s)"
| "run_events emit frame (Inl x # es) (out, s) = rbind (emit x s) (\<lambda>s. run_events emit frame es (out, s))"
| "run_events emit frame (Inr sent # es) (out, s) =
     rbind (frame sent s) (\<lambda>(o', s). run_events emit frame es (out @ o', s))"

fun written :: "('b \<Rightarrow> u8 list) \<Rightarrow> ('b + bool) list \<Rightarrow> u8 list" where
  "written bytes [] = []"
| "written bytes (Inl x # es) = bytes x @ written bytes es"
| "written bytes (Inr sent # es) = written bytes es"

lemma run_events_append: "run_events emit frame (es @ fs) x = rbind (run_events emit frame es x) (run_events emit frame fs)"
proof (induction es arbitrary: x)
  case Nil
  show ?case by (cases x) simp
next
  case (Cons e es)
  show ?case
    by (cases x; cases e) (auto simp: Cons rbind_def split: sum.splits prod.splits)
qed

text \<open>
  What the writers of a reliable stream rely on: blocks are appended, a frame lets some of the stream out
  at its front, and nothing else changes it, unless the stream is lost.  \<open>pending\<close> counts the
  sending frames that empty it.
\<close>

locale outlet =
  fixes ok :: "'s \<Rightarrow> bool" and lost :: "'s \<Rightarrow> bool" and room :: "'s \<Rightarrow> 'b \<Rightarrow> bool"
    and bytes :: "'b \<Rightarrow> u8 list" and stream :: "'s \<Rightarrow> u8 list" and pending :: "'s \<Rightarrow> nat"
    and emit :: "'b \<Rightarrow> 's \<Rightarrow> 's res" and frame :: "bool \<Rightarrow> 's \<Rightarrow> (u8 list \<times> 's) res"
  assumes emit: "ok s \<Longrightarrow> room s x \<Longrightarrow> \<exists>s'. emit x s = Inr s' \<and> ok s' \<and> room s' = room s
      \<and> (lost s \<longrightarrow> lost s') \<and> (lost s' \<or> stream s' = stream s @ bytes x)"
    and frame: "ok s \<Longrightarrow> \<exists>out s'. frame sent s = Inr (out, s') \<and> ok s' \<and> room s' = room s
      \<and> (lost s \<longleftrightarrow> lost s') \<and> out @ stream s' = stream s \<and> (sent \<longrightarrow> pending s' \<le> pending s - 1)"
    and empty: "ok s \<Longrightarrow> pending s = 0 \<Longrightarrow> stream s = []"
begin

lemma run_in_order:
  "ok s \<Longrightarrow> (\<And>x. Inl x \<in> set es \<Longrightarrow> room s x) \<Longrightarrow>
   \<exists>out' s'. run_events emit frame es (out, s) = Inr (out', s') \<and> ok s' \<and> room s' = room s \<and> (lost s \<longrightarrow> lost s')
     \<and> (lost s' \<or> out' @ stream s' = out @ stream s @ written bytes es)"
proof (induction es arbitrary: out s)
  case (Cons e es)
  show ?case
  proof (cases e)
    case (Inl x)
    then obtain s1 where s1: "emit x s = Inr s1" "ok s1" "room s1 = room s" "lost s \<longrightarrow> lost s1"
        "lost s1 \<or> stream s1 = stream s @ bytes x"
      using emit [OF Cons.prems(1), of x] Cons.prems(2) by auto
    then show ?thesis using Cons.IH [of s1 out] Cons.prems(2) Inl by auto
  next
    case (Inr sent)
    then obtain o1 s1 where s1: "frame sent s = Inr (o1, s1)" "ok s1" "room s1 = room s" "lost s \<longleftrightarrow> lost s1"
        "o1 @ stream s1 = stream s"
      using frame [OF Cons.prems(1), of sent] by auto
    then have "out @ stream s = (out @ o1) @ stream s1" by simp
    then show ?thesis using Cons.IH [of s1 "out @ o1"] Cons.prems(2) Inr s1 by auto
  qed
qed simp

lemma run_drains:
  "ok s \<Longrightarrow> pending s \<le> n \<Longrightarrow>
   \<exists>s'. run_events emit frame (replicate n (Inr True)) (out, s) = Inr (out @ stream s, s') \<and> ok s' \<and> stream s' = [] \<and> lost s' = lost s"
proof (induction n arbitrary: out s)
  case 0
  then show ?case using empty [of s] by auto
next
  case (Suc n)
  then obtain o1 s1 where s1: "frame True s = Inr (o1, s1)" "ok s1" "lost s \<longleftrightarrow> lost s1" "o1 @ stream s1 = stream s"
      "pending s1 \<le> pending s - 1"
    using frame [of s True] by auto
  then show ?case using Suc.IH [of s1 "out @ o1"] Suc.prems(2) by auto
qed

lemma all_delivered:
  assumes "ok s" "\<And>x. Inl x \<in> set es \<Longrightarrow> room s x" "stream s = []" "\<And>s. ok s \<Longrightarrow> pending s \<le> n"
  shows "\<exists>out s'. run_events emit frame (es @ replicate n (Inr True)) ([], s) = Inr (out, s') \<and> ok s' \<and> (lost s' \<or> out = written bytes es)"
proof -
  obtain out s1 where s1: "run_events emit frame es ([], s) = Inr (out, s1)" "ok s1" "lost s1 \<or> out @ stream s1 = written bytes es"
    using run_in_order [OF assms(1), of es "[]"] assms(2,3) by auto
  obtain s2 where s2: "run_events emit frame (replicate n (Inr True)) (out, s1) = Inr (out @ stream s1, s2)" "ok s2" "lost s2 = lost s1"
    using run_drains [OF s1(2) assms(4) [OF s1(2)], of out] by blast
  then show ?thesis
    using s1 by (simp add: run_events_append)
qed

end

section \<open>The client's stream is one\<close>

text \<open>A client with a connection of its own (no split-screen seat of another one).\<close>

definition own :: "client \<Rightarrow> bool" where
  "own cl \<longleftrightarrow> seat cl = 0 \<and> controller cl = None"

text \<open>What a writer does: start, write the bytes through the pointer it gets, finish.\<close>

definition reliable_put :: "client list \<Rightarrow> nat \<Rightarrow> int \<Rightarrow> u8 list \<Rightarrow> client list res" where
  "reliable_put svs i len bs =
     rbind (ClientReliable_StartWrite svs i len) (\<lambda>(p, svs).
     rbind (write_ptr p (\<lambda>b. SZ_Write b bs) svs) (\<lambda>svs. ClientReliable_FinishWrite svs i))"

lemma on_client_at: "i < length svs \<Longrightarrow> on_client f svs i = rbind (f (svs ! i)) (\<lambda>cl. Inr (svs[i := cl]))"
  by (simp add: on_client_def elem_def put_elem_def)

lemma new_backbuf_keeps: "new_backbuf cl = Inr cl' \<Longrightarrow> own cl' = own cl"
  by (auto simp: new_backbuf_def Let_def rbind_eq_Inr own_def)

lemma check_block_keeps: "ClientReliableCheckBlock cl len = Inr cl' \<Longrightarrow> own cl' = own cl"
  by (auto simp: ClientReliableCheckBlock_def rbind_eq_Inr own_def set_msg_def
      dest!: new_backbuf_keeps [unfolded own_def] split: if_splits)

lemma write_keeps:
  "on_backbuf f cl = Inr cl' \<Longrightarrow> controller cl' = controller cl \<and> own cl' = own cl"
  "on_message f cl = Inr cl' \<Longrightarrow> controller cl' = controller cl \<and> own cl' = own cl"
  by (auto simp: on_backbuf_def on_message_def rbind_eq_Inr set_msg_def own_def)

lemma finish_write_keeps: "finish_write cl = Inr cl' \<Longrightarrow> own cl' = own cl"
proof -
  have eq: "own (c\<lparr>backbuf_size := z\<rparr>) = own c" "own (set_msg c b) = own c" for c z b
    by (simp_all add: own_def set_msg_def)
  assume "finish_write cl = Inr cl'"
  then show "own cl' = own cl"
    by (cases "num_backbuf cl = 0"; cases "overflowed (backbuf cl)")
      (auto simp: finish_write_def Let_def put_elem_def eq split: if_splits)
qed

lemma append_bytes_keeps: "append_bytes bs cl = Inr cl' \<Longrightarrow> own cl' = own cl"
proof -
  assume "append_bytes bs cl = Inr cl'"
  then obtain c where c: "(if num_backbuf cl \<noteq> 0 then on_backbuf (\<lambda>b. SZ_Write b bs) cl
      else on_message (\<lambda>b. SZ_Write b bs) cl) = Inr c" "finish_write c = Inr cl'"
    by (auto simp: append_bytes_def rbind_eq_Inr)
  from c(1) have "own c = own cl" using write_keeps by (simp split: if_splits)
  with finish_write_keeps [OF c(2)] show "own cl' = own cl" by simp
qed

lemma shift_backbufs_keeps: "shift_backbufs n j cl = Inr cl' \<Longrightarrow> own cl' = own cl"
proof (induction n arbitrary: j cl)
  case (Suc n)
  have eq: "own (c\<lparr>backbuf_data := d, backbuf_size := z\<rparr>) = own c" for c d z
    by (simp add: own_def)
  show ?case using Suc.prems by (auto simp: rbind_eq_Inr eq dest!: Suc.IH)
qed simp

lemma flush_backbuf_keeps: "flush_backbuf cl = Inr cl' \<Longrightarrow> own cl' = own cl"
proof -
  have eq: "own (c\<lparr>num_backbuf := n\<rparr>) = own c" "own (c\<lparr>num_backbuf := n, backbuf := b, backbuf_ptr := k\<rparr>) = own c" for c n b k
    by (simp_all add: own_def)
  show "flush_backbuf cl = Inr cl' \<Longrightarrow> own cl' = own cl"
    by (auto simp: flush_backbuf_def Let_def rbind_eq_Inr eq split: if_splits
        dest!: shift_backbufs_keeps write_keeps)
qed

lemma reliable_put_block:
  assumes i: "i < length svs" and own: "own (svs ! i)"
  shows "reliable_put svs i len bs = on_client (block len bs) svs i"
proof (cases "ClientReliableCheckBlock (svs ! i) len")
  case (Inl e)
  then show ?thesis
    using i own by (simp add: reliable_put_def ClientReliable_StartWrite_def on_client_at elem_def own_def block_def)
next
  case (Inr cl)
  have own1: "controller cl = None" using check_block_keeps [OF Inr] own by (simp add: own_def)
  have start: "ClientReliable_StartWrite svs i len
      = Inr (if num_backbuf cl \<noteq> 0 then Backbuf i else Message i, svs[i := cl])"
    using i own Inr by (simp add: ClientReliable_StartWrite_def on_client_at elem_def own_def)
  define w where "w = (if num_backbuf cl \<noteq> 0 then on_backbuf (\<lambda>b. SZ_Write b bs) cl else on_message (\<lambda>b. SZ_Write b bs) cl)"
  define p where "p = (if num_backbuf cl \<noteq> 0 then Backbuf i else Message i)"
  have wr: "write_ptr p (\<lambda>b. SZ_Write b bs) (svs[i := cl]) = rbind w (\<lambda>cl'. Inr (svs[i := cl']))"
    using i by (simp add: write_ptr_def on_client_at w_def p_def)
  have fin: "ClientReliable_FinishWrite (svs[i := cl']) i = rbind (finish_write cl') (\<lambda>c. Inr (svs[i := c]))"
    if "controller cl' = None" for cl'
    using i that by (simp add: ClientReliable_FinishWrite_def master_def elem_def on_client_at)
  have put: "reliable_put svs i len bs = rbind w (\<lambda>cl'. ClientReliable_FinishWrite (svs[i := cl']) i)"
    unfolding reliable_put_def start p_def [symmetric] by (simp add: wr rbind_assoc)
  have blk: "on_client (block len bs) svs i = rbind w (\<lambda>cl'. rbind (finish_write cl') (\<lambda>c. Inr (svs[i := c])))"
    using i Inr by (simp add: on_client_at block_def append_bytes_def w_def rbind_assoc)
  show ?thesis
  proof (cases w)
    case w: (Inr cl')
    then have "controller cl' = None"
      using write_keeps own1 by (simp add: w_def split: if_splits)
    with w show ?thesis by (simp add: put blk fin)
  qed (simp add: put blk)
qed

text \<open>
  A frame: a back buffer is moved if it fits, and when the channel takes the message
  (\<open>Netchan_Transmit\<close> copies it and sets its size to 0) its bytes are out.
\<close>

definition send_frame :: "bool \<Rightarrow> client \<Rightarrow> (u8 list \<times> client) res" where
  "send_frame sent cl =
     rbind (flush_backbuf cl) (\<lambda>cl.
     Inr (if sent then (contents (msg cl), set_msg cl ((msg cl)\<lparr>cursize := 0\<rparr>)) else ([], cl)))"

text \<open>A block put by a client alone on the server.\<close>

definition put_block :: "int \<times> u8 list \<Rightarrow> client \<Rightarrow> client res" where
  "put_block x cl = rbind (reliable_put [cl] 0 (fst x) (snd x)) (\<lambda>svs. elem svs 0)"

definition frames_left :: "client \<Rightarrow> nat" where
  "frames_left cl = num_backbuf cl + (if cursize (msg cl) = 0 then 0 else 1)"

definition fits_client :: "client \<Rightarrow> int \<times> u8 list \<Rightarrow> bool" where
  "fits_client cl x \<longleftrightarrow> int (length (snd x)) \<le> fst x \<and> fst x + 1 \<le> back_max cl"

lemma fits_client_cong: "back_max cl' = back_max cl \<Longrightarrow> fits_client cl' = fits_client cl"
  by (simp add: fits_client_def fun_eq_iff)

lemma put_block_spec:
  assumes "queue_ok cl \<and> own cl" "fits_client cl x"
  shows "\<exists>cl'. put_block x cl = Inr cl' \<and> (queue_ok cl' \<and> own cl') \<and> fits_client cl' = fits_client cl
    \<and> (lost cl \<longrightarrow> lost cl') \<and> (lost cl' \<or> stream cl' = stream cl @ snd x)"
proof -
  obtain cl' where cl': "block (fst x) (snd x) cl = Inr cl'" "queue_ok cl'" "back_max cl' = back_max cl"
      "lost cl \<longrightarrow> lost cl'" "lost cl' \<or> stream cl' = stream cl @ snd x"
    using block_spec [of cl "snd x" "fst x"] assms by (auto simp: fits_client_def)
  have "own cl'"
    using cl'(1) assms(1) check_block_keeps append_bytes_keeps by (auto simp: block_def rbind_eq_Inr)
  moreover have "put_block x cl = Inr cl'"
    using reliable_put_block [of 0 "[cl]" "fst x" "snd x"] assms(1) cl'(1)
    by (simp add: put_block_def on_client_at elem_def)
  ultimately show ?thesis
    using cl'(2-5) fits_client_cong by blast
qed

lemma send_frame_spec:
  assumes ok: "queue_ok cl \<and> own cl"
  shows "\<exists>out s'. send_frame sent cl = Inr (out, s') \<and> (queue_ok s' \<and> own s') \<and> fits_client s' = fits_client cl
    \<and> (lost cl \<longleftrightarrow> lost s') \<and> out @ stream s' = stream cl \<and> (sent \<longrightarrow> frames_left s' \<le> frames_left cl - 1)"
proof -
  obtain cl1 where cl1: "flush_backbuf cl = Inr cl1" "queue_ok cl1" "stream cl1 = stream cl" "back_max cl1 = back_max cl"
      "lost cl1 = lost cl" "num_backbuf cl1 = (if num_backbuf cl \<noteq> 0
         \<and> cursize (msg cl) + backbuf_size cl ! 0 \<le> maxsize (msg cl) then num_backbuf cl - 1 else num_backbuf cl)"
      "own cl1 = own cl"
    using flush_backbuf_spec [of cl] flush_backbuf_keeps ok by blast
  define cl' where "cl' = set_msg cl1 ((msg cl1)\<lparr>cursize := 0\<rparr>)"
  have bm: "back_max cl' = back_max cl" using cl1(4) by (simp add: cl'_def set_msg_def back_max_def)
  have "queue_ok cl' \<and> own cl'"
    using cl1(2,7) ok by (auto simp: queue_ok_def shape_ok_def cl'_def set_msg_def back_max_def own_def)
  moreover have "contents (msg cl1) @ stream cl' = stream cl1"
    by (simp add: stream_def cl'_def set_msg_def contents_def back_parts_def back_part_def [abs_def])
  moreover have "num_backbuf cl \<noteq> 0 \<longrightarrow> backbuf_size cl ! 0 \<le> maxsize (msg cl)"
    using ok by (auto simp: queue_ok_def shape_ok_def back_max_def)
  then have "frames_left cl' \<le> frames_left cl - 1"
    using cl1(6) by (cases "num_backbuf cl") (auto simp: frames_left_def cl'_def set_msg_def)
  moreover have "lost cl' = lost cl" using cl1(5) by (simp add: lost_def cl'_def set_msg_def)
  ultimately show ?thesis
    using cl1(1-5,7) ok fits_client_cong [OF bm] fits_client_cong [OF cl1(4)]
    by (cases sent) (simp_all add: send_frame_def cl'_def [symmetric])
qed

interpretation reliable: outlet "\<lambda>cl. queue_ok cl \<and> own cl" lost fits_client snd stream frames_left put_block send_frame
proof
  fix cl
  assume "queue_ok cl \<and> own cl" "frames_left cl = 0"
  then show "stream cl = []"
    by (simp add: frames_left_def stream_def contents_def back_parts_def split: if_splits)
qed (use put_block_spec send_frame_spec in blast)+

section \<open>Properties\<close>

text \<open>A client as it is set up: empty message and back buffers.\<close>

definition new_client :: "netchan \<Rightarrow> client" where
  "new_client chan = \<lparr>netchan = chan,
     backbuf = \<lparr>allowoverflow = False, overflowed = False, data = [], maxsize = 0, cursize = 0, packing = SZ_BAD,
       currentbit = 0, prim = prim (message chan)\<rparr>,
     backbuf_ptr = 0, num_backbuf = 0, backbuf_size = replicate MAX_BACK_BUFFERS 0,
     backbuf_data = replicate MAX_BACK_BUFFERS (replicate (nat MAX_BACKBUFLEN) 0),
     drop_me = False, seat = 0, controller = None, controlled = None\<rparr>"

definition message_ok :: "sizebuf \<Rightarrow> bool" where
  "message_ok m \<longleftrightarrow> 0 \<le> cursize m \<and> cursize m \<le> maxsize m \<and> maxsize m \<le> int (length (data m))"

lemma new_client_ok: "message_ok (message chan) \<Longrightarrow> queue_ok (new_client chan) \<and> own (new_client chan)"
  by (simp add: new_client_def queue_ok_def shape_ok_def own_def message_ok_def MAX_BACKBUFLEN_def)

text \<open>
  C30. A block written for a client is appended to its reliable stream.  For a client with a connection of its
  own, a block within its announced size, which is smaller than a back buffer, goes behind everything
  written before (message and back buffers in order), no access leaves a buffer, and the buffers stay well
  formed; or all sixteen back buffers are full and the message is marked as overflowed.
\<close>

theorem reliable_block_appends:
  assumes "i < length svs" "queue_ok (svs ! i)" "own (svs ! i)" "int (length bs) \<le> len" "len + 1 \<le> back_max (svs ! i)"
  shows "\<exists>p svs1 svs2 cl. ClientReliable_StartWrite svs i len = Inr (p, svs1) \<and>
    write_ptr p (\<lambda>b. SZ_Write b bs) svs1 = Inr svs2 \<and>
    ClientReliable_FinishWrite svs2 i = Inr (svs[i := cl]) \<and> queue_ok cl \<and>
    (overflowed (msg cl) \<or> stream cl = stream (svs ! i) @ bs)"
proof -
  obtain cl where cl: "block len bs (svs ! i) = Inr cl" "queue_ok cl" "lost cl \<or> stream cl = stream (svs ! i) @ bs"
    using block_spec [OF assms(2,4,5)] by blast
  have "reliable_put svs i len bs = Inr (svs[i := cl])"
    using reliable_put_block [OF assms(1,3)] cl(1) assms(1) by (simp add: on_client_at)
  then show ?thesis
    using cl(2,3) by (auto simp: reliable_put_def rbind_eq_Inr lost_def)
qed

definition test_client :: client where
  "test_client = new_client ((Netchan_Setup NS_SERVER 7)\<lparr>message := new_buffer True 10\<rparr>)"

lemma test_client_ok: "queue_ok test_client \<and> own test_client" "back_max test_client = 10"
  using new_client_ok [of "(Netchan_Setup NS_SERVER 7)\<lparr>message := new_buffer True 10\<rparr>"]
  by (simp_all add: test_client_def message_ok_def new_buffer_def back_max_def new_client_def MAX_BACKBUFLEN_def)

theorem reliable_block_appends_witness:
  "\<exists>p svs1 svs2 cl. ClientReliable_StartWrite [test_client] 0 9 = Inr (p, svs1) \<and>
    write_ptr p (\<lambda>b. SZ_Write b [1, 2, 3]) svs1 = Inr svs2 \<and>
    ClientReliable_FinishWrite svs2 0 = Inr ([test_client][0 := cl]) \<and> queue_ok cl \<and>
    (overflowed (msg cl) \<or> stream cl = stream ([test_client] ! 0) @ [1, 2, 3])"
  by (rule reliable_block_appends) (simp_all add: test_client_ok)

text \<open>
  C31. Everything comes out, in order, once.  Take any sequence of blocks and frames, in which the channel
  sends the message or does not, on a client that starts with empty buffers: after at most seventeen more
  sending frames the bytes sent are exactly the written blocks, one after the other, unless the client's
  message overflowed on the way.
\<close>

theorem reliable_stream_delivered:
  assumes "message_ok (message chan)" "cursize (message chan) = 0"
    "list_all (\<lambda>e. case e of Inl x \<Rightarrow> fits_client (new_client chan) x | Inr sent \<Rightarrow> True) es"
  shows "\<exists>out cl. run_events put_block send_frame (es @ replicate 17 (Inr True)) ([], new_client chan) = Inr (out, cl) \<and>
    (overflowed (msg cl) \<or> out = written snd es)"
proof -
  have "frames_left cl \<le> 17" if "queue_ok cl \<and> own cl" for cl
    using that by (simp add: frames_left_def queue_ok_def shape_ok_def MAX_BACK_BUFFERS_def)
  moreover have "stream (new_client chan) = []"
    using assms(2) by (simp add: stream_def new_client_def contents_def back_parts_def)
  moreover have "fits_client (new_client chan) x" if "Inl x \<in> set es" for x
    using assms(3) that by (auto simp: list_all_iff)
  ultimately show ?thesis
    using reliable.all_delivered [of "new_client chan" es 17] new_client_ok [OF assms(1)] by (auto simp: lost_def)
qed

theorem reliable_stream_delivered_witness:
  "\<exists>out cl. run_events put_block send_frame ([Inl (9, [1, 2, 3]), Inl (9, [4, 5]), Inr False, Inl (2, [6])]
      @ replicate 17 (Inr True)) ([], test_client) = Inr (out, cl) \<and>
    (overflowed (msg cl) \<or> out = [1, 2, 3, 4, 5, 6])"
  using reliable_stream_delivered [of "(Netchan_Setup NS_SERVER 7)\<lparr>message := new_buffer True 10\<rparr>"
      "[Inl (9, [1, 2, 3]), Inl (9, [4, 5]), Inr False, Inl (2, [6])]"] test_client_ok(2)
  unfolding test_client_def [symmetric]
  by (simp add: message_ok_def new_buffer_def fits_client_def)

text \<open>
  After a back buffer has been moved the next one is set up without \<open>allowoverflow\<close>: a write that
  does not fit what is left of it ends the server instead of dropping the client.
\<close>

lemma flush_disallows_overflow:
  "flush_backbuf cl = Inr cl' \<Longrightarrow> num_backbuf cl' < num_backbuf cl \<Longrightarrow> num_backbuf cl' \<noteq> 0 \<Longrightarrow>
   \<not> allowoverflow (backbuf cl')"
  by (auto simp: flush_backbuf_def Let_def rbind_eq_Inr split: if_splits
      dest: arg_cong [where f = "\<lambda>c. allowoverflow (backbuf c)"])

lemma flushed_backbuf_is_fatal:
  assumes "queue_ok cl" "flush_backbuf cl = Inr cl'" "num_backbuf cl' < num_backbuf cl" "num_backbuf cl' \<noteq> 0"
    "cursize (backbuf cl') + int (length bs) > back_max cl'"
  shows "on_backbuf (\<lambda>b. SZ_Write b bs) cl' = Inl (Sys_Error ''SZ_GetSpace'')"
proof -
  have "queue_ok cl'" using flush_backbuf_spec [OF assms(1)] assms(2) by auto
  then have "backbuf_ptr cl' < length (backbuf_data cl')" "maxsize (backbuf cl') = back_max cl'"
    using assms(4) by (auto simp: queue_ok_def shape_ok_def)
  then show ?thesis
    using assms(5) flush_disallows_overflow [OF assms(2-4)]
    by (simp add: on_backbuf_def elem_def SZ_Write_def SZ_GetSpace_def)
qed

end
