(* ===== verification/InfoTransfer.thy ===== *)
theory InfoTransfer
  imports InfoText BackBufOrder QvmLoad
begin

text \<open>
  Info buffers on the wire.  The server walks over a client's queue of keys (\<open>SV_SyncInfoBuf\<close> of
  \<open>engine/server/sv_send.c\<close>) and writes each value to the client's reliable stream, a long one in
  pieces; the client reads a piece with \<open>CL_ParseSetInfoBlob\<close> of \<open>engine/client/cl_parse.c\<close> and gives it to
  \<open>InfoBuf_SyncReceive\<close>.
\<close>

section \<open>State of the server\<close>

datatype serverprotocols_e =
    SCP_BAD | SCP_QUAKEWORLD | SCP_QUAKE2 | SCP_QUAKE3 | SCP_NETQUAKE
  | SCP_BJP3 | SCP_FITZ666 | SCP_DARKPLACES6 | SCP_DARKPLACES7

text \<open>\<open>(cl)->protocol >= SCP_NETQUAKE\<close>.\<close>

definition ISNQCLIENT :: "serverprotocols_e \<Rightarrow> bool" where
  "ISNQCLIENT p \<longleftrightarrow> p \<noteq> SCP_BAD \<and> p \<noteq> SCP_QUAKEWORLD \<and> p \<noteq> SCP_QUAKE2 \<and> p \<noteq> SCP_QUAKE3"

definition ISQWCLIENT :: "serverprotocols_e \<Rightarrow> bool" where
  "ISQWCLIENT p \<longleftrightarrow> p = SCP_QUAKEWORLD"

definition PEXT2_INFOBLOBS :: u32 where "PEXT2_INFOBLOBS = 0x80"
definition svc_stufftext :: u32 where "svc_stufftext = 9"
definition svc_setinfo :: u32 where "svc_setinfo = 51"
definition svc_serverinfo :: u32 where "svc_serverinfo = 52"
definition svcfte_setinfoblob :: u32 where "svcfte_setinfoblob = 89"
definition MAX_CLIENTS :: nat where "MAX_CLIENTS = 255"

text \<open>
  What else \<open>client_t\<close> has, beside the reliable stream.  The context of a queued key is 0 for \<open>svs.info\<close> and
  \<open>k + 1\<close> for the \<open>userinfo\<close> of client \<open>k\<close>.
\<close>

record client_info =
  protocol :: serverprotocols_e
  fteprotocolextensions2 :: u32
  infosync :: infosync
  userinfo :: infobuf

record server_static =
  clients :: "client list"
  client_infos :: "client_info list"
  svs_info :: infobuf

definition context_info :: "server_static \<Rightarrow> nat \<Rightarrow> infobuf res" where
  "context_info svs ctx =
     (case ctx of 0 \<Rightarrow> Inr (svs_info svs)
      | Suc k \<Rightarrow> rbind (elem (client_infos svs) k) (\<lambda>c. Inr (userinfo c)))"

definition set_infosync :: "nat \<Rightarrow> infosync \<Rightarrow> server_static \<Rightarrow> server_static" where
  "set_infosync i sync svs =
     svs\<lparr>client_infos := (client_infos svs)[i := (client_infos svs ! i)\<lparr>infosync := sync\<rparr>]\<rparr>"

section \<open>Writing the key at the head of the queue\<close>

text \<open>What every writer does with \<open>buf\<close>: start, some writes through the pointer, finish.\<close>

definition write_reliable :: "(sizebuf \<Rightarrow> sizebuf res) \<Rightarrow> nat \<Rightarrow> int \<Rightarrow> server_static \<Rightarrow> server_static res" where
  "write_reliable f i len svs =
     rbind (ClientReliable_StartWrite (clients svs) i len) (\<lambda>(p, cls).
     rbind (write_ptr p f cls) (\<lambda>cls.
     rbind (ClientReliable_FinishWrite cls i) (\<lambda>cls. Inr (svs\<lparr>clients := cls\<rparr>))))"

text \<open>\<open>va\<close> prints into 8192 bytes, of which it uses one less; \<open>%i\<close> of a number that is not negative.\<close>

definition va :: "u8 list \<Rightarrow> u8 list" where
  "va s = take 8190 s"

fun decimal :: "nat \<Rightarrow> u8 list" where
  "decimal n = (if n < 10 then [] else decimal (n div 10)) @ [0x30 + word_of_nat (n mod 10)]"

declare decimal.simps [simp del]

definition stufftext_info :: "nat \<Rightarrow> u8 list \<Rightarrow> u8 list \<Rightarrow> u8 list" where
  "stufftext_info ctx key val = va (
     (case ctx of 0 \<Rightarrow> [0x2F, 0x2F, 0x73, 0x76, 0x69, 0x20]
      | Suc k \<Rightarrow> [0x2F, 0x2F, 0x75, 0x69, 0x20] @ decimal k @ [0x20])
     @ [0x22] @ key @ [0x22, 0x20, 0x22] @ val @ [0x22, 0x0A])"

definition send_small :: "server_static \<Rightarrow> nat \<Rightarrow> nat \<Rightarrow> u8 list \<Rightarrow> u8 list option \<Rightarrow> server_static res" where
  "send_small svs i ctx key blobdata =
     (let p = protocol (client_infos svs ! i);
          val = (case blobdata of None \<Rightarrow> [] | Some v \<Rightarrow> c_string v) in
      if ISNQCLIENT p then
        let s = stufftext_info ctx key val in
        write_reliable (\<lambda>b. rbind (MSG_WriteByte b svc_stufftext) (\<lambda>b. MSG_WriteString b (Some s)))
          i (2 + int (length s)) svs
      else if ISQWCLIENT p then
        write_reliable (\<lambda>b.
            rbind (case ctx of 0 \<Rightarrow> MSG_WriteByte b svc_serverinfo
              | Suc k \<Rightarrow> rbind (MSG_WriteByte b svc_setinfo) (\<lambda>b. MSG_WriteByte b (word_of_nat k))) (\<lambda>b.
            rbind (MSG_WriteString b (Some key)) (\<lambda>b. MSG_WriteString b (Some val))))
          i (2 + int (length key) + 1 + int (length val) + 1) svs
      else Inr svs)"

text \<open>
  The memory a value pointer points into.  The sizes of a piece are of type \<open>size_t\<close>, and
  so is the room, from which the overhead is subtracted without a test.
\<close>

definition blob_memory :: "infobuf \<Rightarrow> u8 list \<Rightarrow> u8 list" where
  "blob_memory info key = (case InfoBuf_FindKey info key of Some k \<Rightarrow> key_value (keys info ! k) | None \<Rightarrow> [])"

definition as_int :: "u64 \<Rightarrow> int" where
  "as_int n = sint (ucast n :: u32)"

definition blob_sizes :: "nat \<Rightarrow> nat \<Rightarrow> u8 list option \<Rightarrow> int \<Rightarrow> u8 list \<Rightarrow> u64 \<times> u64 \<times> bool" where
  "blob_sizes pos blobsize blobdata used enckey =
     (let bloboffset = (if blobdata = None then 0 else word_of_nat pos) :: u64;
          sendsize = word_of_nat blobsize - bloboffset;
          bufferspace = word_of_int (MAX_BACKBUFLEN - used) - word_of_nat (8 + length enckey + 1);
          sendsize = min bufferspace sendsize
      in (bloboffset, sendsize, bloboffset + sendsize \<ge> word_of_nat blobsize))"

definition write_blob :: "u32 \<Rightarrow> u8 list \<Rightarrow> u64 \<Rightarrow> u64 \<Rightarrow> bool \<Rightarrow> u8 list \<Rightarrow> sizebuf \<Rightarrow> sizebuf res" where
  "write_blob pl enckey bloboffset sendsize final mem b =
     rbind (MSG_WriteByte b svcfte_setinfoblob) (\<lambda>b.
     rbind (MSG_WriteByte b pl) (\<lambda>b.
     rbind (MSG_WriteString b (Some enckey)) (\<lambda>b.
     rbind (MSG_WriteLong b ((if final then 0x80000000 else 0) OR ucast bloboffset)) (\<lambda>b.
     rbind (MSG_WriteShort b (ucast sendsize)) (\<lambda>b.
     rbind (slice mem (uint bloboffset) (as_int sendsize)) (\<lambda>bs. SZ_Write b bs))))))"

definition advance_head :: "nat \<Rightarrow> infosync \<Rightarrow> infosync" where
  "advance_head n sync = sync[0 := (sync ! 0)\<lparr>syncpos := syncpos (sync ! 0) + n\<rparr>]"

definition send_blob :: "server_static \<Rightarrow> nat \<Rightarrow> synckey \<Rightarrow> infobuf \<Rightarrow> (bool \<times> server_static) res" where
  "send_blob svs i item info =
     (let key = sync_name item; sync = infosync (client_infos svs ! i);
          blobdata = fst (InfoBuf_BlobForKey info key);
          blobsize = (case blobdata of None \<Rightarrow> 0 | Some v \<Rightarrow> length v);
          mem = (case blobdata of None \<Rightarrow> [] | Some v \<Rightarrow> blob_memory info key) in
      rbind (InfoBuf_EncodeString key 2048) (\<lambda>(ok, enckey).
      if \<not> ok then Inr (False, set_infosync i (InfoSync_Remove sync 0) svs)
      else
        let (bloboffset, sendsize, final) =
              blob_sizes (syncpos item) blobsize blobdata (cursize (msg (clients svs ! i))) enckey in
        rbind (write_reliable (write_blob (word_of_nat (sync_context item)) enckey bloboffset sendsize final mem) i
                 (as_int (word_of_nat (8 + length enckey + 1) + sendsize)) svs) (\<lambda>svs.
        Inr (True, set_infosync i (if final then InfoSync_Remove sync 0 else advance_head (unat sendsize) sync) svs))))"

definition SV_SyncInfoBuf :: "server_static \<Rightarrow> nat \<Rightarrow> (bool \<times> server_static) res" where
  "SV_SyncInfoBuf svs i =
     rbind (elem (client_infos svs) i) (\<lambda>c.
     rbind (elem (clients svs) i) (\<lambda>cl.
     rbind (elem (infosync c) 0) (\<lambda>item.
     rbind (context_info svs (sync_context item)) (\<lambda>info.
     let (blobdata, large) = InfoBuf_BlobForKey info (sync_name item) in
     if protocol c = SCP_QUAKE2 then Inr (False, set_infosync i (InfoSync_Clear (infosync c)) svs)
     else if num_backbuf cl \<noteq> 0 then Inr (False, svs)
     else if cursize (msg cl) \<ge> MAX_BACKBUFLEN div 2 then Inr (False, svs)
     else if \<not> large then
       rbind (send_small svs i (sync_context item) (sync_name item) blobdata) (\<lambda>svs.
       Inr (True, set_infosync i (InfoSync_Remove (infosync c) 0) svs))
     else if fteprotocolextensions2 c AND PEXT2_INFOBLOBS \<noteq> 0 then send_blob svs i item info
     else Inr (True, set_infosync i (InfoSync_Remove (infosync c) 0) svs)))))"

section \<open>Reading a piece\<close>

text \<open>The buffers of the client's side: \<open>cl.serverinfo\<close>, \<open>cl.players[].userinfo\<close> and \<open>userinfovalid\<close>.\<close>

record client_state =
  serverinfo :: infobuf
  players :: "infobuf list"
  userinfovalid :: "bool list"

definition receive_blob :: "nat \<Rightarrow> u8 list \<Rightarrow> u8 list \<Rightarrow> nat \<Rightarrow> bool \<Rightarrow> client_state \<Rightarrow> client_state res" where
  "receive_blob slot key val offset final cs =
     (if slot = 0 then
        rbind (InfoBuf_SyncReceive (serverinfo cs) key val offset final) (\<lambda>(_, info). Inr (cs\<lparr>serverinfo := info\<rparr>))
      else let slot = slot - 1 in
      if slot \<ge> MAX_CLIENTS then Inr cs
      else
        rbind (elem (players cs) slot) (\<lambda>info.
        rbind (InfoBuf_SyncReceive info key val offset final) (\<lambda>(_, info).
        rbind (put_elem (players cs) slot info) (\<lambda>ps.
        rbind (put_elem (userinfovalid cs) slot True) (\<lambda>vs.
        Inr (cs\<lparr>players := ps, userinfovalid := vs\<rparr>))))))"

definition CL_ParseSetInfoBlob :: "msgstate \<Rightarrow> client_state \<Rightarrow> (msgstate \<times> client_state) res" where
  "CL_ParseSetInfoBlob st cs =
     rbind (MSG_ReadByte st) (\<lambda>(slot, st).
     rbind (MSG_ReadString st) (\<lambda>(key, st).
     rbind (MSG_ReadLong st) (\<lambda>(offset, st).
     rbind (MSG_ReadShort st) (\<lambda>(valsize, st).
     rbind (MSG_ReadData st (unat (ucast valsize :: u16))) (\<lambda>(val, st).
     rbind (InfoBuf_DecodeString (key @ [0]) 1) (\<lambda>key.
     rbind (receive_blob (unat (ucast slot :: u8)) (c_string key) val (unat (offset AND 0x7fffffff))
        (offset AND 0x80000000 \<noteq> 0) cs) (\<lambda>cs. Inr (st, cs))))))))"

section \<open>The sizes of a piece\<close>

lemma word_of_nat_eq_iff_small: "a < 2 ^ 64 \<Longrightarrow> unat (word_of_nat a :: u64) = a"
  by (simp add: unat_of_nat take_bit_nat_eq_self)

lemma min_word_of_nat: "a < 2 ^ 64 \<Longrightarrow> b < 2 ^ 64 \<Longrightarrow> min (word_of_nat a) (word_of_nat b) = (word_of_nat (min a b) :: u64)"
  by (simp add: min_def word_le_nat_alt word_of_nat_eq_iff_small)

lemma blob_sizes_fit:
  assumes "pos \<le> vlen" "vlen < 2 ^ 31" "0 \<le> used" "used + int (9 + length enckey) \<le> 1200"
    and n: "n = min (nat (1191 - used) - length enckey) (vlen - pos)" and "d \<noteq> None"
  shows "blob_sizes pos vlen d used enckey = (word_of_nat pos, word_of_nat n, vlen \<le> pos + n)"
proof -
  have "int (nat (1191 - used) - length enckey) = 1200 - used - int (8 + length enckey + 1)"
    using assms(3,4) by simp
  then have space: "word_of_int (MAX_BACKBUFLEN - used) - word_of_nat (8 + length enckey + 1)
      = (word_of_nat (nat (1191 - used) - length enckey) :: u64)"
    by (metis MAX_BACKBUFLEN_def of_int_diff of_int_of_nat_eq)
  have send: "word_of_nat vlen - word_of_nat pos = (word_of_nat (vlen - pos) :: u64)"
    using assms(1) by (simp add: of_nat_diff)
  have "nat (1191 - used) \<le> 1191" using assms(3) by simp
  then have bounds: "nat (1191 - used) - length enckey < 2 ^ 64" "vlen - pos < 2 ^ 64" "pos + n < 2 ^ 64" "vlen < 2 ^ 64"
    using assms(1,2) n by simp_all
  then have n': "min (word_of_nat (nat (1191 - used) - length enckey)) (word_of_nat (vlen - pos)) = (word_of_nat n :: u64)"
    by (simp only: min_word_of_nat n)
  have "(word_of_nat pos + word_of_nat n \<ge> (word_of_nat vlen :: u64)) \<longleftrightarrow> vlen \<le> pos + n"
    using bounds(3,4) by (simp only: of_nat_add [symmetric] word_le_nat_alt word_of_nat_eq_iff_small)
  then show ?thesis
    unfolding blob_sizes_def Let_def by (simp only: assms(6) if_False space send n')
qed

text \<open>The offset field.\<close>

lemma ucast_word_of_nat: "p < 2 ^ 31 \<Longrightarrow> (ucast (word_of_nat p :: u64) :: u32) = word_of_nat p"
  by (simp add: unsigned_of_nat take_bit_nat_eq_self)

lemma unat_small_32: "p < 2 ^ 32 \<Longrightarrow> unat (word_of_nat p :: u32) = p"
  by (simp add: unat_of_nat take_bit_nat_eq_self)

lemma word_of_nat_bits: "p < 2 ^ 31 \<Longrightarrow> bit (word_of_nat p :: u32) k \<Longrightarrow> k < 31"
  by (rule bit_bound [of "word_of_nat p :: u32" k 31]) (simp_all add: unat_small_32)

lemma top_bit: "bit (0x80000000 :: u32) k \<longleftrightarrow> k = 31"
  using bit_exp_iff [of 31 k, where ?'a = u32] by auto

lemma low_bits: "bit (0x7fffffff :: u32) k \<longleftrightarrow> k < 31"
  using bit_mask_iff [of 31 k, where ?'a = u32] by (auto simp: mask_eq_exp_minus_1)

lemma offset_field:
  assumes "p < 2 ^ 31"
  shows "unat (((if f then 0x80000000 else 0) OR (word_of_nat p :: u32)) AND 0x7fffffff) = p"
    "((if f then 0x80000000 else 0) OR (word_of_nat p :: u32)) AND 0x80000000 \<noteq> 0 \<longleftrightarrow> f"
proof -
  define w where "w = (word_of_nat p :: u32)"
  have w: "bit w k \<Longrightarrow> k < 31" for k using word_of_nat_bits [OF assms] by (simp add: w_def)
  have "((if f then 0x80000000 else 0) OR w) AND 0x7fffffff = w"
    by (rule bit_word_eqI, cases f; simp only: if_True if_False or.left_neutral bit_and_iff bit_or_iff top_bit low_bits;
      use w in fastforce)
  then show "unat (((if f then 0x80000000 else 0) OR (word_of_nat p :: u32)) AND 0x7fffffff) = p"
    using assms by (simp add: w_def unat_small_32)
  have "((if f then 0x80000000 else 0) OR w) AND 0x80000000 = (if f then 0x80000000 else 0)"
    by (rule bit_word_eqI, cases f; simp only: if_True if_False or.left_neutral bit_and_iff bit_or_iff top_bit bit_0_eq bot_apply;
      use w in fastforce)
  then show "((if f then 0x80000000 else 0) OR (word_of_nat p :: u32)) AND 0x80000000 \<noteq> 0 \<longleftrightarrow> f"
    by (simp add: w_def)
qed

section \<open>Writing into an empty stream\<close>

lemma write_reliable_message:
  assumes "i < length (clients svs)" "own (clients svs ! i)" "num_backbuf (clients svs ! i) = 0"
    "cursize (msg (clients svs ! i)) \<le> maxsize (msg (clients svs ! i)) - len - 1"
    "f (msg (clients svs ! i)) = Inr b"
  shows "write_reliable f i len svs = Inr (svs\<lparr>clients := (clients svs)[i := set_msg (clients svs ! i) b]\<rparr>)"
proof -
  let ?cl = "clients svs ! i"
  have "ClientReliableCheckBlock ?cl len = Inr ?cl"
    using assms(3,4) by (simp add: ClientReliableCheckBlock_def)
  then have start: "ClientReliable_StartWrite (clients svs) i len = Inr (Message i, clients svs)"
    using assms(1-3) by (simp add: ClientReliable_StartWrite_def on_client_at elem_def own_def)
  have wr: "write_ptr (Message i) f (clients svs) = Inr ((clients svs)[i := set_msg ?cl b])"
    using assms(1,5) by (simp add: write_ptr_def on_client_at on_message_def)
  have fin: "ClientReliable_FinishWrite ((clients svs)[i := set_msg ?cl b]) i = Inr ((clients svs)[i := set_msg ?cl b])"
    using assms(1-3)
    by (simp add: ClientReliable_FinishWrite_def master_def elem_def on_client_at finish_write_def set_msg_def own_def)
  show ?thesis by (simp add: write_reliable_def start wr fin)
qed

text \<open>The bytes of a piece.\<close>

definition blob_bytes :: "nat \<Rightarrow> u8 list \<Rightarrow> nat \<Rightarrow> bool \<Rightarrow> u8 list \<Rightarrow> u8 list" where
  "blob_bytes ctx enckey pos final bs =
     [ucast svcfte_setinfoblob, word_of_nat ctx] @ (enckey @ [0]) @ le32 ((if final then 0x80000000 else 0) OR word_of_nat pos)
     @ enc16 (word_of_nat (length bs)) @ bs"

lemma length_blob_bytes: "length (blob_bytes ctx enckey pos final bs) = 9 + length enckey + length bs"
  by (simp add: blob_bytes_def enc16_def)

text \<open>Several writes are one.\<close>

fun writes :: "u8 list list \<Rightarrow> sizebuf \<Rightarrow> sizebuf res" where
  "writes [] b = Inr b"
| "writes (bs # bss) b = rbind (SZ_Write b bs) (writes bss)"

lemma writes_fit: "sz_fits b (length (concat bss)) \<Longrightarrow> writes bss b = Inr (sz_put b (concat bss))"
proof (induction bss arbitrary: b)
  case Nil
  then show ?case by (simp add: sz_put_Nil)
next
  case (Cons bs bss)
  then have "sz_fits b (length bs)" "sz_fits (sz_put b bs) (length (concat bss))"
    by (auto intro: sz_fits_le sz_put_fits)
  then show ?case by (simp add: SZ_Write_fits Cons.IH sz_put_append)
qed

lemma writes_unfold:
  "writes [x] = (\<lambda>b. SZ_Write b x)"
  "writes (x # y # zs) = (\<lambda>b. rbind (SZ_Write b x) (writes (y # zs)))"
  by (auto simp: fun_eq_iff rbind_def split: sum.splits)

lemma ucast_byte: "(ucast (word_of_nat n :: u32) :: u8) = word_of_nat n"
  by (rule bit_word_eqI) (auto simp: bit_simps)

lemma write_blob_bytes:
  assumes "sz_fits b (9 + length enckey + n)" "n < 2 ^ 31" "pos + n \<le> length mem" "pos < 2 ^ 31"
  shows "write_blob (word_of_nat ctx) enckey (word_of_nat pos) (word_of_nat n) final mem b
    = Inr (sz_put b (blob_bytes ctx enckey pos final (take n (drop pos mem))))"
proof -
  let ?bs = "take n (drop pos mem)"
  have len: "length ?bs = n" using assms(3) by simp
  have "as_int (word_of_nat n) = int n"
    using assms(2) by (simp add: as_int_def ucast_word_of_nat sint_small)
  moreover have "uint (word_of_nat pos :: u64) = int pos"
    using assms(4) word_of_nat_eq_iff_small [of pos] by (simp add: uint_nat)
  ultimately have sl: "slice mem (uint (word_of_nat pos :: u64)) (as_int (word_of_nat n)) = Inr ?bs"
    using assms(3) by (simp add: slice_def)
  have fit: "writes [[ucast svcfte_setinfoblob], [word_of_nat ctx], enckey @ [0],
        le32 ((if final then 0x80000000 else 0) OR word_of_nat pos), enc16 (word_of_nat n), ?bs] b
      = Inr (sz_put b (concat [[ucast svcfte_setinfoblob], [word_of_nat ctx], enckey @ [0],
        le32 ((if final then 0x80000000 else 0) OR word_of_nat pos), enc16 (word_of_nat n), ?bs]))"
    by (rule writes_fit) (use assms(1) len in \<open>simp add: enc16_def add.assoc\<close>)
  show ?thesis
    unfolding write_blob_def sl rbind_Inr write_eqs ucast_word_of_nat [OF assms(4)] ucast_word_of_nat [OF assms(2)] ucast_byte
    using fit unfolding blob_bytes_def writes_unfold len by simp
qed

section \<open>A round of the server\<close>

text \<open>
  A client that can take pieces: a connection of its own, nothing written yet, room for a back buffer in the
  message, a protocol and extensions that ask for pieces; and a key whose long value is at the head of its queue.
\<close>

definition can_take :: "server_static \<Rightarrow> nat \<Rightarrow> bool" where
  "can_take svs i \<longleftrightarrow> i < length (clients svs) \<and> length (client_infos svs) = length (clients svs)
     \<and> own (clients svs ! i) \<and> queue_ok (clients svs ! i) \<and> num_backbuf (clients svs ! i) = 0
     \<and> cursize (msg (clients svs ! i)) = 0 \<and> MAX_BACKBUFLEN + 1 \<le> maxsize (msg (clients svs ! i))
     \<and> protocol (client_infos svs ! i) \<noteq> SCP_QUAKE2
     \<and> fteprotocolextensions2 (client_infos svs ! i) AND PEXT2_INFOBLOBS \<noteq> 0"

definition sends :: "server_static \<Rightarrow> nat \<Rightarrow> synckey \<Rightarrow> u8 list \<Rightarrow> bool" where
  "sends svs ctx item v \<longleftrightarrow> (\<exists>info. context_info svs ctx = Inr info \<and> info_ok info \<and>
     InfoBuf_BlobForKey info (sync_name item) = (Some v, True))
     \<and> length v < 2 ^ 31 \<and> length (info_encode (sync_name item)) \<le> 1190"

text \<open>How many bytes of the value a piece takes.\<close>

definition piece_room :: "u8 list \<Rightarrow> nat" where
  "piece_room key = 1191 - length (info_encode key)"

lemma blob_memory_prefix:
  assumes "info_ok info" "InfoBuf_BlobForKey info key = (Some v, l)"
  shows "length v \<le> length (blob_memory info key) \<and> take (length v) (blob_memory info key) = v"
proof (cases rule: FindKey_cases [of info key])
  case absent
  then show ?thesis using assms(2) by (simp add: InfoBuf_BlobForKey_def)
next
  case (present pre x post)
  then have "key_ok x" using assms(1) by (simp add: info_ok_def)
  moreover have "v = take (key_size x) (key_value x)"
    using assms(2) present by (auto simp: InfoBuf_BlobForKey_def split: if_splits)
  ultimately show ?thesis
    using present by (auto simp: blob_memory_def key_ok_def)
qed

lemma take_drop_prefix: "take k m = v \<Longrightarrow> pos + n \<le> k \<Longrightarrow> take n (drop pos m) = take n (drop pos v)"
  by (auto simp: drop_take min_def)

lemma sync_round:
  assumes c: "can_take svs i" and q: "infosync (client_infos svs ! i) = item # rest"
    and v: "sends svs (sync_context item) item v" and pos: "syncpos item \<le> length v"
    and n: "n = min (piece_room (sync_name item)) (length v - syncpos item)"
    and fin: "final \<longleftrightarrow> length v \<le> syncpos item + n"
    and bytes: "bytes = blob_bytes (sync_context item) (info_encode (sync_name item)) (syncpos item) final
      (take n (drop (syncpos item) v))"
  shows "SV_SyncInfoBuf svs i = Inr (True,
     set_infosync i (if final then rest else item\<lparr>syncpos := syncpos item + n\<rparr> # rest)
       (svs\<lparr>clients := (clients svs)[i := set_msg (clients svs ! i) (sz_put (msg (clients svs ! i)) bytes)]\<rparr>))
    \<and> sz_fits (msg (clients svs ! i)) (length bytes)"
proof -
  let ?cl = "clients svs ! i" and ?key = "sync_name item" and ?pos = "syncpos item"
  let ?enc = "info_encode ?key"
  obtain info where info: "context_info svs (sync_context item) = Inr info" "info_ok info"
      "InfoBuf_BlobForKey info ?key = (Some v, True)" "length v < 2 ^ 31" "length ?enc \<le> 1190"
    using v by (auto simp: sends_def)
  have mem: "length v \<le> length (blob_memory info ?key)" "take (length v) (blob_memory info ?key) = v"
    using blob_memory_prefix [OF info(2,3)] by simp_all
  have i: "i < length (clients svs)" "i < length (client_infos svs)" "own ?cl" "num_backbuf ?cl = 0" "cursize (msg ?cl) = 0"
      "1201 \<le> maxsize (msg ?cl)" "maxsize (msg ?cl) \<le> int (length (data (msg ?cl)))"
    using c by (auto simp: can_take_def MAX_BACKBUFLEN_def queue_ok_def shape_ok_def)
  have n_le: "?pos + n \<le> length v" "n \<le> 1191 - length ?enc" "n < 2 ^ 31"
    using pos n by (auto simp: piece_room_def)
  have sizes: "blob_sizes ?pos (length v) (Some v) 0 ?enc = (word_of_nat ?pos, word_of_nat n, final)"
    using blob_sizes_fit [of ?pos "length v" 0 ?enc n "Some v"] pos info(4,5) n fin by (simp add: piece_room_def)
  have fits: "sz_fits (msg ?cl) (9 + length ?enc + n)"
    using i n_le(2) info(5) by (simp add: sz_fits_def)
  have lenb: "length bytes = 9 + length ?enc + n"
    using n_le(1) by (simp add: bytes length_blob_bytes)
  have wr: "write_blob (word_of_nat (sync_context item)) ?enc (word_of_nat ?pos) (word_of_nat n) final (blob_memory info ?key) (msg ?cl)
      = Inr (sz_put (msg ?cl) bytes)"
    unfolding bytes take_drop_prefix [OF mem(2) n_le(1), symmetric]
    by (rule write_blob_bytes) (use fits n_le mem(1) info(4) pos in simp_all)
  have len: "as_int (word_of_nat (9 + length ?enc) + word_of_nat n) = int (9 + length ?enc + n)"
  proof -
    have "word_of_nat (9 + length ?enc) + word_of_nat n = (word_of_nat (9 + length ?enc + n) :: u64)" by simp
    moreover have "9 + length ?enc + n < 2 ^ 31" using n_le(2) info(5) by simp
    ultimately show ?thesis by (simp only: as_int_def ucast_word_of_nat) (simp add: sint_small del: of_nat_add)
  qed
  have put: "write_reliable (write_blob (word_of_nat (sync_context item)) ?enc (word_of_nat ?pos) (word_of_nat n) final (blob_memory info ?key))
      i (int (9 + length ?enc + n)) svs = Inr (svs\<lparr>clients := (clients svs)[i := set_msg ?cl (sz_put (msg ?cl) bytes)]\<rparr>)"
    by (rule write_reliable_message) (use i wr n_le(2) info(5) in simp_all)
  have blob: "send_blob svs i item info = Inr (True,
     set_infosync i (if final then rest else item\<lparr>syncpos := ?pos + n\<rparr> # rest)
       (svs\<lparr>clients := (clients svs)[i := set_msg ?cl (sz_put (msg ?cl) bytes)]\<rparr>))"
    using info(5) n_le(3) put
    by (cases final) (simp_all add: send_blob_def Let_def info(3) EncodeString_text i(5) sizes len q InfoSync_Remove_def
        delete_at_def advance_head_def word_of_nat_eq_iff_small del: of_nat_add of_nat_Suc)
  have "SV_SyncInfoBuf svs i = send_blob svs i item info"
    using c i q info(1,3) by (simp add: SV_SyncInfoBuf_def elem_def can_take_def MAX_BACKBUFLEN_def)
  then show ?thesis using blob fits lenb by simp
qed

section \<open>A piece at the client\<close>

lemma ucast_u8_u32: "(ucast (ucast (b :: u8) :: u32) :: u8) = b"
  by (rule bit_word_eqI) (auto simp: bit_simps)

lemma MSG_ReadData_at: "reads_at st bs \<Longrightarrow> MSG_ReadData st (length bs) = Inr (bs, advance st (length bs))"
proof (induction bs arbitrary: st)
  case (Cons b bs)
  note r = reads_at_Cons [OF Cons.prems]
  show ?case using MSG_ReadByte_at [OF r(1)] Cons.IH [OF r(2)] by (simp add: ucast_u8_u32)
qed simp

text \<open>The buffer a context names on the client's side, and what its map is.\<close>

definition slot_ok :: "client_state \<Rightarrow> nat \<Rightarrow> bool" where
  "slot_ok cs ctx \<longleftrightarrow> (case ctx of 0 \<Rightarrow> info_ok (serverinfo cs)
     | Suc k \<Rightarrow> k < MAX_CLIENTS \<and> k < length (players cs) \<and> k < length (userinfovalid cs) \<and> info_ok (players cs ! k))"

definition slot_map :: "client_state \<Rightarrow> nat \<Rightarrow> u8 list \<Rightarrow> (bool \<times> u8 list) option" where
  "slot_map cs ctx = info_map (case ctx of 0 \<Rightarrow> serverinfo cs | Suc k \<Rightarrow> players cs ! k)"

lemma slot_byte:
  assumes "slot_ok cs ctx"
  shows "unat (ucast (ucast (word_of_nat ctx :: u8) :: u32) :: u8) = ctx"
proof -
  have "ctx < 256" using assms by (cases ctx) (simp_all add: slot_ok_def MAX_CLIENTS_def)
  then show ?thesis by (simp add: ucast_u8_u32 unat_of_nat take_bit_nat_eq_self)
qed

lemma receive_blob_spec:
  assumes "slot_ok cs ctx" "0 \<notin> set key"
  obtains cs' where "receive_blob ctx key val offset final cs = Inr cs'" "slot_ok cs' ctx"
    "slot_map cs' ctx = receive_chunk (slot_map cs ctx) key val offset final"
proof (cases ctx)
  case 0
  then obtain r info where "InfoBuf_SyncReceive (serverinfo cs) key val offset final = Inr (r, info)" "info_ok info"
      "info_map info = receive_chunk (info_map (serverinfo cs)) key val offset final"
    using SyncReceive_spec [of "serverinfo cs" key val offset final] assms by (auto simp: slot_ok_def)
  then show ?thesis
    using that [of "cs\<lparr>serverinfo := info\<rparr>"] 0 by (simp add: receive_blob_def slot_ok_def slot_map_def)
next
  case (Suc k)
  then have k: "k < MAX_CLIENTS" "k < length (players cs)" "k < length (userinfovalid cs)" "info_ok (players cs ! k)"
    using assms(1) by (simp_all add: slot_ok_def)
  obtain r info where "InfoBuf_SyncReceive (players cs ! k) key val offset final = Inr (r, info)" "info_ok info"
      "info_map info = receive_chunk (info_map (players cs ! k)) key val offset final"
    using SyncReceive_spec [OF k(4) assms(2), of val offset final] by blast
  then show ?thesis
    using that [of "cs\<lparr>players := (players cs)[k := info], userinfovalid := (userinfovalid cs)[k := True]\<rparr>"] Suc k
    by (simp add: receive_blob_def slot_ok_def slot_map_def elem_def put_elem_def)
qed

lemma length_field:
  assumes "n < 2 ^ 15"
  shows "unat (ucast (scast (ucast (word_of_nat n :: u32) :: u16) :: u32) :: u16) = n"
proof -
  have "(ucast (scast (ucast (word_of_nat n :: u32) :: u16) :: u32) :: u16) = ucast (word_of_nat n :: u32)"
    apply (rule bit_word_eqI)
    subgoal for k by (cases "k = 15") (auto simp: bit_simps min_def)
    done
  also have "\<dots> = word_of_nat n" by (rule bit_word_eqI) (auto simp: bit_simps)
  finally show ?thesis using assms by (simp add: unat_of_nat take_bit_nat_eq_self)
qed

lemma parse_blob:
  assumes at: "reads_at st (blob_bytes ctx (info_encode key) pos final bs)"
    and small: "pos < 2 ^ 31" "length bs < 2 ^ 15" "length (info_encode key) \<le> 1190"
    and slot: "slot_ok cs ctx" and key: "0 \<notin> set key"
  shows "MSG_ReadByte st = Inr (svcfte_setinfoblob, advance st 1) \<and>
    CL_ParseSetInfoBlob (advance st 1) cs
     = rbind (receive_blob ctx key bs pos final cs) (\<lambda>cs. Inr (advance st (9 + length (info_encode key) + length bs), cs))"
proof -
  let ?enc = "info_encode key" and ?w = "(if final then 0x80000000 else 0) OR (word_of_nat pos :: u32)"
  have bytes: "blob_bytes ctx ?enc pos final bs
      = ucast svcfte_setinfoblob # word_of_nat ctx # (?enc @ [0]) @ le32 ?w @ enc16 (word_of_nat (length bs)) @ bs"
    by (simp add: blob_bytes_def)
  note r0 = reads_at_Cons [OF at [unfolded bytes]]
  note r1 = reads_at_Cons [OF r0(2)]
  note r2 = reads_at_append [OF r1(2)]
  note r3 = reads_at_append [OF r2(2)]
  note r4 = reads_at_append [OF r3(2)]
  have b0: "MSG_ReadByte st = Inr (svcfte_setinfoblob, advance st 1)"
    using MSG_ReadByte_at [OF r0(1)] by (simp add: svcfte_setinfoblob_def)
  have b1: "MSG_ReadByte (advance st 1) = Inr (ucast (word_of_nat ctx :: u8), advance (advance st 1) 1)"
    using MSG_ReadByte_at [OF r1(1)] .
  have "is_cstring ?enc" using small(3) info_encode_separators [of key] by (auto simp: is_cstring_def)
  then have b2: "MSG_ReadString (advance (advance st 1) 1) = Inr (?enc, advance (advance (advance st 1) 1) (length (?enc @ [0])))"
    by (rule str.rd_enc) (rule r2(1))
  have b3: "MSG_ReadLong (advance (advance (advance st 1) 1) (length (?enc @ [0])))
      = Inr (?w, advance (advance (advance (advance st 1) 1) (length (?enc @ [0]))) 4)"
    by (rule MSG_ReadLong_at) (rule r3(1))
  have b4: "MSG_ReadShort (advance (advance (advance (advance st 1) 1) (length (?enc @ [0]))) 4)
      = Inr (scast (ucast (word_of_nat (length bs) :: u32) :: u16), advance (advance (advance (advance (advance st 1) 1) (length (?enc @ [0]))) 4) 2)"
    by (rule MSG_ReadShort_at) (use r4(1) in simp)
  have b5: "MSG_ReadData (advance (advance (advance (advance (advance st 1) 1) (length (?enc @ [0]))) 4) 2) (length bs)
      = Inr (bs, advance (advance (advance (advance (advance (advance st 1) 1) (length (?enc @ [0]))) 4) 2) (length bs))"
    by (rule MSG_ReadData_at) (use r4(2) in \<open>simp add: enc16_def\<close>)
  have b6: "InfoBuf_DecodeString (?enc @ [0]) 1 = Inr key"
    using DecodeString_encode [of "[0]" key] by simp
  have "CL_ParseSetInfoBlob (advance st 1) cs
     = rbind (receive_blob ctx key bs pos final cs) (\<lambda>cs. Inr (advance (advance (advance (advance (advance (advance st 1) 1) (length (?enc @ [0]))) 4) 2) (length bs), cs))"
    unfolding CL_ParseSetInfoBlob_def b1 b2 b3 b4 rbind_Inr prod.case length_field [OF small(2)] b5 b6
      slot_byte [OF slot] offset_field [OF small(1)] c_string_id [OF key] ..
  then show ?thesis using b0 by (simp add: add.assoc add.commute)
qed

section \<open>Rounds\<close>

text \<open>
  One round: the server writes what is at the head of the queue, the message goes out, and the client reads the command in it.
  \<open>st\<close> stands for what the client's reader has besides the message.
\<close>

definition incoming :: "msgstate \<Rightarrow> u8 list \<Rightarrow> msgstate" where
  "incoming st bs = st\<lparr>net_message := (net_message st)\<lparr>data := bs, cursize := int (length bs), packing := SZ_RAWBYTES\<rparr>,
     msg_readcount := 0, msg_badread := False\<rparr>"

definition read_update :: "msgstate \<Rightarrow> u8 list \<Rightarrow> client_state \<Rightarrow> client_state res" where
  "read_update st bs cs =
     rbind (MSG_ReadByte (incoming st bs)) (\<lambda>(cmd, st).
     if cmd = svcfte_setinfoblob then rbind (CL_ParseSetInfoBlob st cs) (\<lambda>(_, cs). Inr cs) else Inl Host_EndGame)"

definition exchange :: "msgstate \<Rightarrow> nat \<Rightarrow> server_static \<times> client_state \<Rightarrow> (server_static \<times> client_state) res" where
  "exchange st i = (\<lambda>(svs, cs).
     rbind (SV_SyncInfoBuf svs i) (\<lambda>(_, svs).
     rbind (elem (clients svs) i) (\<lambda>cl.
     rbind (send_frame True cl) (\<lambda>(out, cl).
     rbind (read_update st out cs) (\<lambda>cs.
     Inr (svs\<lparr>clients := (clients svs)[i := cl]\<rparr>, cs))))))"

fun exchanges :: "nat \<Rightarrow> msgstate \<Rightarrow> nat \<Rightarrow> server_static \<times> client_state \<Rightarrow> (server_static \<times> client_state) res" where
  "exchanges 0 st i x = Inr x"
| "exchanges (Suc k) st i x = rbind (exchange st i x) (exchanges k st i)"

lemma reads_at_incoming: "reads_at (incoming st bs) bs"
  by (simp add: reads_at_def incoming_def msg_data_def)

lemma context_info_keeps:
  "i < length (client_infos svs) \<Longrightarrow>
   context_info (set_infosync i sync svs\<lparr>clients := cls\<rparr>) ctx = context_info svs ctx"
  by (cases ctx) (auto simp: context_info_def set_infosync_def elem_def nth_list_update)

lemma exchange_piece:
  assumes c: "can_take svs i" and q: "infosync (client_infos svs ! i) = item # rest"
    and v: "sends svs (sync_context item) item v" and pos: "syncpos item < length v"
    and n: "n = min (piece_room (sync_name item)) (length v - syncpos item)"
    and fin: "final \<longleftrightarrow> length v \<le> syncpos item + n"
    and slot: "slot_ok cs (sync_context item)" and key: "0 \<notin> set (sync_name item)"
  obtains svs' cs' where "exchange st i (svs, cs) = Inr (svs', cs')" "can_take svs' i"
    "infosync (client_infos svs' ! i) = (if final then rest else item\<lparr>syncpos := syncpos item + n\<rparr> # rest)"
    "\<And>ctx. context_info svs' ctx = context_info svs ctx"
    "slot_ok cs' (sync_context item)"
    "slot_map cs' (sync_context item) = receive_chunk (slot_map cs (sync_context item)) (sync_name item)
       (take n (drop (syncpos item) v)) (syncpos item) final"
proof -
  let ?cl = "clients svs ! i" and ?key = "sync_name item" and ?bs = "take n (drop (syncpos item) v)"
  define bytes where "bytes = blob_bytes (sync_context item) (info_encode ?key) (syncpos item) final ?bs"
  define sync where "sync = (if final then rest else item\<lparr>syncpos := syncpos item + n\<rparr> # rest)"
  define svs1 where "svs1 = set_infosync i sync (svs\<lparr>clients := (clients svs)[i := set_msg ?cl (sz_put (msg ?cl) bytes)]\<rparr>)"
  have sv: "SV_SyncInfoBuf svs i = Inr (True, svs1)" "sz_fits (msg ?cl) (length bytes)"
    using sync_round [OF c q v _ n fin bytes_def] pos by (simp_all add: svs1_def sync_def)
  have i: "i < length (clients svs)" "i < length (client_infos svs)" "num_backbuf ?cl = 0" "cursize (msg ?cl) = 0"
    using c by (simp_all add: can_take_def)
  have cl1: "clients svs1 = (clients svs)[i := set_msg ?cl (sz_put (msg ?cl) bytes)]"
    by (simp add: svs1_def set_infosync_def)
  have out: "contents (sz_put (msg ?cl) bytes) = bytes"
    using sv(2) i(4) by (simp add: contents_sz_put) (simp add: contents_def)
  define cl2 where "cl2 = set_msg ?cl ((sz_put (msg ?cl) bytes)\<lparr>cursize := 0\<rparr>)"
  have frame: "send_frame True (set_msg ?cl (sz_put (msg ?cl) bytes)) = Inr (bytes, cl2)"
    using i(3) out by (simp add: send_frame_def flush_backbuf_def set_msg_def cl2_def)
  have le: "length (info_encode ?key) \<le> 1190" "length v < 2 ^ 31"
    using v by (auto simp: sends_def)
  have "length ?bs < 2 ^ 15" using n by (simp add: piece_room_def)
  then have parse: "MSG_ReadByte (incoming st bytes) = Inr (svcfte_setinfoblob, advance (incoming st bytes) 1)"
      "CL_ParseSetInfoBlob (advance (incoming st bytes) 1) cs = rbind (receive_blob (sync_context item) ?key ?bs (syncpos item) final cs)
        (\<lambda>cs. Inr (advance (incoming st bytes) (9 + length (info_encode ?key) + length ?bs), cs))"
    using parse_blob [OF reads_at_incoming [of st bytes, unfolded bytes_def] _ _ le(1) slot key] pos le(2)
    by (simp_all add: bytes_def)
  obtain cs' where cs': "receive_blob (sync_context item) ?key ?bs (syncpos item) final cs = Inr cs'" "slot_ok cs' (sync_context item)"
    "slot_map cs' (sync_context item) = receive_chunk (slot_map cs (sync_context item)) ?key ?bs (syncpos item) final"
    using receive_blob_spec [OF slot key] .
  let ?svs' = "svs1\<lparr>clients := (clients svs1)[i := cl2]\<rparr>"
  have "exchange st i (svs, cs) = Inr (?svs', cs')"
    using i(1) by (simp add: exchange_def sv(1) elem_def cl1 frame read_update_def parse cs'(1) del: One_nat_def)
  moreover have "can_take ?svs' i"
    using c sv(2) length_data_sz_put [OF sv(2)]
    by (simp add: can_take_def cl1) (auto simp: svs1_def set_infosync_def cl2_def set_msg_def own_def queue_ok_def shape_ok_def back_max_def)
  moreover have "infosync (client_infos ?svs' ! i) = sync"
    using i(2) by (simp add: svs1_def set_infosync_def)
  moreover have "context_info ?svs' ctx = context_info svs ctx" for ctx
    using context_info_keeps [of i "svs\<lparr>clients := clients svs1\<rparr>"] i(2)
    by (cases ctx) (auto simp: context_info_def svs1_def set_infosync_def elem_def nth_list_update)
  ultimately show ?thesis using that cs'(2,3) by (simp add: sync_def)
qed

text \<open>How many pieces \<open>r\<close> bytes take.\<close>

definition pieces :: "u8 list \<Rightarrow> nat \<Rightarrow> nat" where
  "pieces key r = (r + piece_room key - 1) div piece_room key"

lemma pieces_step:
  assumes "0 < r" "0 < piece_room key"
  shows "pieces key r = Suc (pieces key (r - min (piece_room key) r))"
proof (cases "r \<le> piece_room key")
  case True
  then have "(r + piece_room key - 1) div piece_room key = 1" "(piece_room key - 1) div piece_room key = 0"
    using assms by (auto intro: div_nat_eqI)
  with True show ?thesis by (simp add: pieces_def min_def)
next
  case False
  then have "r + piece_room key - 1 = (r - piece_room key + piece_room key - 1) + piece_room key" by simp
  then have "(r + piece_room key - 1) div piece_room key = Suc ((r - piece_room key + piece_room key - 1) div piece_room key)"
    using assms(2) by (simp only: div_add_self2)
  with False show ?thesis by (simp add: pieces_def)
qed

lemma pieces_0: "0 < piece_room key \<Longrightarrow> pieces key 0 = 0"
  by (simp add: pieces_def)

lemma receive_next_piece:
  assumes "pos < length v" "0 < n" "pos = 0 \<or> m key = Some (False, take pos v)"
  shows "receive_chunk m key (take n (drop pos v)) pos final = m(key \<mapsto> (final, take (pos + n) v))"
  using assms by (auto simp: receive_chunk_def take_add min_def split: option.splits)

lemma transfer_from:
  assumes "can_take svs i" "infosync (client_infos svs ! i) = item # rest" "sends svs (sync_context item) item v"
    "syncpos item < length v" "slot_ok cs (sync_context item)" "0 \<notin> set (sync_name item)"
    "syncpos item = 0 \<or> slot_map cs (sync_context item) (sync_name item) = Some (False, take (syncpos item) v)"
  shows "\<exists>svs' cs'. exchanges (pieces (sync_name item) (length v - syncpos item)) st i (svs, cs) = Inr (svs', cs') \<and>
    can_take svs' i \<and> infosync (client_infos svs' ! i) = rest \<and> (\<forall>ctx. context_info svs' ctx = context_info svs ctx) \<and>
    slot_ok cs' (sync_context item) \<and>
    slot_map cs' (sync_context item) = (slot_map cs (sync_context item))(sync_name item \<mapsto> (True, v))"
  using assms
proof (induction "length v - syncpos item" arbitrary: svs cs item rule: less_induct)
  case less
  let ?key = "sync_name item" and ?ctx = "sync_context item" and ?pos = "syncpos item"
  define n where "n = min (piece_room ?key) (length v - ?pos)"
  define final where "final \<longleftrightarrow> length v \<le> ?pos + n"
  have room: "0 < piece_room ?key" using less.prems(3) by (auto simp: sends_def piece_room_def)
  have n: "0 < n" "?pos + n \<le> length v" using room less.prems(4) by (auto simp: n_def)
  obtain svs1 cs1 where x: "exchange st i (svs, cs) = Inr (svs1, cs1)" "can_take svs1 i"
    "infosync (client_infos svs1 ! i) = (if final then rest else item\<lparr>syncpos := ?pos + n\<rparr> # rest)"
    "\<And>ctx. context_info svs1 ctx = context_info svs ctx" "slot_ok cs1 ?ctx"
    "slot_map cs1 ?ctx = receive_chunk (slot_map cs ?ctx) ?key (take n (drop ?pos v)) ?pos final"
    using exchange_piece [OF less.prems(1-4) n_def final_def less.prems(5,6)] by blast
  have map1: "slot_map cs1 ?ctx = (slot_map cs ?ctx)(?key \<mapsto> (final, take (?pos + n) v))"
    unfolding x(6) using less.prems(4) n(1) less.prems(7) by (rule receive_next_piece)
  have k: "pieces ?key (length v - ?pos) = Suc (pieces ?key (length v - (?pos + n)))"
    using pieces_step [of "length v - ?pos" ?key] room less.prems(4) by (simp add: n_def)
  show ?case
  proof (cases final)
    case True
    then have "length v - (?pos + n) = 0" "take (?pos + n) v = v" by (simp_all add: final_def)
    with True k x map1 room show ?thesis by (simp add: pieces_0)
  next
    case False
    let ?item = "item\<lparr>syncpos := ?pos + n\<rparr>"
    have "sends svs1 (sync_context ?item) ?item v"
      using less.prems(3) x(4) by (simp add: sends_def)
    moreover have "length v - syncpos ?item < length v - ?pos" "syncpos ?item < length v"
      using False n less.prems(4) by (simp_all add: final_def)
    ultimately obtain svs' cs' where "exchanges (pieces ?key (length v - (?pos + n))) st i (svs1, cs1) = Inr (svs', cs')"
        "can_take svs' i" "infosync (client_infos svs' ! i) = rest" "\<forall>ctx. context_info svs' ctx = context_info svs1 ctx"
        "slot_ok cs' ?ctx" "slot_map cs' ?ctx = (slot_map cs1 ?ctx)(?key \<mapsto> (True, v))"
      using less.hyps [of ?item svs1 cs1] x(2,3,5) False map1 less.prems(6) by auto
    then show ?thesis using k x(1,4) map1 by simp
  qed
qed

section \<open>Keys that are too long\<close>

lemma blob_sizes_wrap:
  assumes "0 < k" "k < 2 ^ 31" "0 \<le> used" "used < 600" "1192 \<le> length enckey" "length enckey < 2048"
  shows "blob_sizes 0 k (Some v) used enckey = (0, word_of_nat k, True)"
proof -
  define d where "d = nat (used + int (length enckey) - 1191)"
  have d: "0 < d" "d < 4096" "int d = used + int (length enckey) - 1191" using assms(3-6) by (simp_all add: d_def)
  have "word_of_int (MAX_BACKBUFLEN - used) - word_of_nat (8 + length enckey + 1) = (word_of_int (- int d) :: u64)"
    using d(3) by (simp add: MAX_BACKBUFLEN_def)
  also have "\<dots> = word_of_nat (2 ^ 64 - d)"
    using d(2) by (simp add: of_nat_diff)
  finally have space: "word_of_int (MAX_BACKBUFLEN - used) - word_of_nat (8 + length enckey + 1) = (word_of_nat (2 ^ 64 - d) :: u64)" .
  have "min (word_of_nat (2 ^ 64 - d)) (word_of_nat k) = (word_of_nat (min (2 ^ 64 - d) k) :: u64)"
    by (rule min_word_of_nat) (use d(1) assms(2) in simp_all)
  moreover have "min (2 ^ 64 - d) k = k" using d(2) assms(2) by simp
  ultimately have "min (word_of_nat (2 ^ 64 - d)) (word_of_nat k - 0) = (word_of_nat k :: u64)" by (simp only: diff_zero)
  then show ?thesis
    unfolding blob_sizes_def Let_def space by simp
qed

lemma SZ_Write_long:
  "allowoverflow b \<Longrightarrow> maxsize b \<le> int (length (data b)) \<Longrightarrow> 0 \<le> cursize b \<Longrightarrow> length (data b) < length bs \<Longrightarrow>
   SZ_Write b bs = Inl OutOfBounds"
  by (simp add: SZ_Write_def SZ_GetSpace_def SZ_Clear_def sz_store_def poke_def)

lemma write_blob_long:
  assumes "allowoverflow b" "sz_fits b 2" "length (data b) \<le> length enckey"
  shows "write_blob pl enckey pos n final mem b = Inl OutOfBounds"
proof -
  have one: "sz_fits b 1" "sz_fits (sz_put b [ucast svcfte_setinfoblob]) 1"
    using assms(2) by (auto intro: sz_fits_le sz_put_fits simp: numeral_2_eq_2)
  let ?b2 = "sz_put (sz_put b [ucast svcfte_setinfoblob]) [ucast pl]"
  have "length (data ?b2) = length (data b)" using one by (simp add: length_data_sz_put)
  then have "SZ_Write ?b2 (enckey @ [0]) = Inl OutOfBounds"
    using assms by (intro SZ_Write_long) (simp_all add: sz_fits_def)
  then show ?thesis
    unfolding write_blob_def write_eqs using one by (simp add: SZ_Write_fits)
qed

lemma new_backbuf_buffer:
  "new_backbuf cl = Inr cl' \<Longrightarrow> allowoverflow (backbuf cl') \<and> cursize (backbuf cl') = 0 \<and> maxsize (backbuf cl') = back_max cl
   \<and> backbuf_ptr cl' = num_backbuf cl \<and> num_backbuf cl' = num_backbuf cl + 1 \<and> backbuf_data cl' = backbuf_data cl
   \<and> netchan cl' = netchan cl"
  by (auto simp: new_backbuf_def Let_def rbind_eq_Inr back_max_def)

lemma check_block_long:
  assumes "queue_ok cl" "num_backbuf cl = 0" "cursize (msg cl) > maxsize (msg cl) - len - 1" "back_max cl \<le> len"
  obtains cl2 where "ClientReliableCheckBlock cl len = Inr cl2" "num_backbuf cl2 = 2" "backbuf_ptr cl2 = 1"
    "allowoverflow (backbuf cl2)" "cursize (backbuf cl2) = 0" "maxsize (backbuf cl2) = back_max cl"
    "backbuf_data cl2 = backbuf_data cl"
proof -
  obtain cl1 where cl1: "new_backbuf cl = Inr cl1" "queue_ok cl1"
    using new_backbuf_spec [OF assms(1)] assms(2) by (auto simp: MAX_BACK_BUFFERS_def)
  note b1 = new_backbuf_buffer [OF cl1(1)]
  obtain cl2 where cl2: "new_backbuf cl1 = Inr cl2"
    using new_backbuf_spec [OF cl1(2)] b1 assms(2) by (auto simp: MAX_BACK_BUFFERS_def)
  note b2 = new_backbuf_buffer [OF cl2]
  have "back_max cl1 = back_max cl" using b1 by (simp add: back_max_def)
  moreover have "ClientReliableCheckBlock cl len = Inr cl2"
    using assms(2-4) cl1(1) cl2 b1 by (simp add: ClientReliableCheckBlock_def MAX_BACK_BUFFERS_def)
  ultimately show ?thesis
    using that [of cl2] b1 b2 assms(2) by simp
qed

lemma write_reliable_escapes:
  assumes "i < length (clients svs)" "own (clients svs ! i)" "queue_ok (clients svs ! i)" "num_backbuf (clients svs ! i) = 0"
    "cursize (msg (clients svs ! i)) > maxsize (msg (clients svs ! i)) - len - 1" "back_max (clients svs ! i) \<le> len"
    "2 \<le> back_max (clients svs ! i)" "1200 \<le> length enckey"
  shows "write_reliable (write_blob pl enckey pos n final mem) i len svs = Inl OutOfBounds"
proof -
  let ?cl = "clients svs ! i"
  obtain cl2 where cl2: "ClientReliableCheckBlock ?cl len = Inr cl2" "num_backbuf cl2 = 2" "backbuf_ptr cl2 = 1"
    "allowoverflow (backbuf cl2)" "cursize (backbuf cl2) = 0" "maxsize (backbuf cl2) = back_max ?cl"
    "backbuf_data cl2 = backbuf_data ?cl"
    using check_block_long [OF assms(3-6)] .
  have dat: "1 < length (backbuf_data ?cl)" "length (backbuf_data ?cl ! 1) = 1200"
    using assms(3) by (auto simp: queue_ok_def shape_ok_def MAX_BACK_BUFFERS_def MAX_BACKBUFLEN_def)
  have start: "ClientReliable_StartWrite (clients svs) i len = Inr (Backbuf i, (clients svs)[i := cl2])"
    using assms(1,2) cl2(1,2) by (simp add: ClientReliable_StartWrite_def on_client_at elem_def own_def)
  have "write_blob pl enckey pos n final mem ((backbuf cl2)\<lparr>data := backbuf_data ?cl ! 1\<rparr>) = Inl OutOfBounds"
    using cl2 dat assms(7,8) back_max_le [of ?cl]
    by (intro write_blob_long) (simp_all add: sz_fits_def MAX_BACKBUFLEN_def)
  then have "write_ptr (Backbuf i) (write_blob pl enckey pos n final mem) ((clients svs)[i := cl2]) = Inl OutOfBounds"
    using assms(1) cl2(3,7) dat(1) by (simp add: write_ptr_def on_client_at on_backbuf_def elem_def)
  then show ?thesis by (simp add: write_reliable_def start)
qed

section \<open>Properties\<close>

text \<open>
  C39. A long value reaches the client, whole, in as many messages as it has pieces.  Take a client that can
  take pieces and a key at the head of its queue, not yet begun, whose complete value is longer than the old strings can carry.
  After exactly \<open>pieces\<close> rounds (the length of the value divided by the room the key leaves in 1200 bytes,
  rounded up) of \<open>SV_SyncInfoBuf\<close>, a sent message and \<open>CL_ParseSetInfoBlob\<close>, no round failing, the
  key is off the queue and the client's buffer has the value for it, complete, and is otherwise unchanged, whatever
  it had for the key before.
\<close>

theorem infosync_delivers:
  assumes "can_take svs i" "infosync (client_infos svs ! i) = item # rest" "sends svs (sync_context item) item v"
    "syncpos item = 0" "v \<noteq> []" "slot_ok cs (sync_context item)" "is_cstr (sync_name item)"
  shows "\<exists>svs' cs'. exchanges (pieces (sync_name item) (length v)) st i (svs, cs) = Inr (svs', cs') \<and>
    infosync (client_infos svs' ! i) = rest \<and> can_take svs' i \<and>
    slot_map cs' (sync_context item) = (slot_map cs (sync_context item))(sync_name item \<mapsto> (True, v))"
  using transfer_from [OF assms(1-3) _ assms(6,7), where st = st] assms(4,5) by auto

theorem infosync_delivers_witness:
  "let item = \<lparr>sync_context = 0, sync_name = [0x61], syncpos = 0\<rparr>;
       svs = \<lparr>clients = [new_client ((Netchan_Setup NS_SERVER 7)\<lparr>message := new_buffer True 1450\<rparr>)],
         client_infos = [\<lparr>protocol = SCP_QUAKEWORLD, fteprotocolextensions2 = PEXT2_INFOBLOBS, infosync = [item],
           userinfo = empty_info None\<rparr>],
         svs_info = snd (InfoBuf_SetStarBlobKey (empty_info None) [0x61] (Some [0, 1]))\<rparr>;
       cs = \<lparr>serverinfo = empty_info None, players = [], userinfovalid = []\<rparr> in
   \<forall>st. \<exists>svs' cs'. exchanges (pieces [0x61] (length [0, 1 :: u8])) st 0 (svs, cs) = Inr (svs', cs') \<and>
    slot_map cs' 0 = [[0x61] \<mapsto> (True, [0, 1])]"
proof -
  let ?item = "\<lparr>sync_context = 0, sync_name = [0x61], syncpos = 0\<rparr> :: synckey"
  let ?chan = "(Netchan_Setup NS_SERVER 7)\<lparr>message := new_buffer True 1450\<rparr>"
  let ?info = "snd (InfoBuf_SetStarBlobKey (empty_info None) [0x61] (Some [0, 1]))"
  let ?svs = "\<lparr>clients = [new_client ?chan],
     client_infos = [\<lparr>protocol = SCP_QUAKEWORLD, fteprotocolextensions2 = PEXT2_INFOBLOBS, infosync = [?item],
       userinfo = empty_info None\<rparr>], svs_info = ?info\<rparr>"
  let ?cs = "\<lparr>serverinfo = empty_info None, players = [], userinfovalid = []\<rparr>"
  have "message_ok (message ?chan)" by (simp add: message_ok_def new_buffer_def)
  from new_client_ok [OF this] have take_it: "can_take ?svs 0"
    by (simp add: can_take_def PEXT2_INFOBLOBS_def) (simp add: new_client_def new_buffer_def MAX_BACKBUFLEN_def)
  have info: "info_ok ?info" by (simp add: SetStarBlobKey_ok)
  have "InfoBuf_BlobForKey ?info [0x61] = (Some [0, 1], True)"
    by (simp add: InfoBuf_SetStarBlobKey_def InfoBuf_FindKey_def empty_info_def append_key_def store_value_def
        new_key_def InfoBuf_BlobForKey_def call_ChangeCB_def InfoBuf_IsLarge_def needs_encoding_char_def)
  with info have snd: "sends ?svs 0 ?item [0, 1]"
    by (simp add: sends_def context_info_def info_encode_def needs_encoding_char_def)
  have slot: "slot_ok ?cs 0" "slot_map ?cs 0 = Map.empty" by (simp_all add: slot_ok_def slot_map_def)
  have "\<exists>svs' cs'. exchanges (pieces [0x61] (length [0, 1 :: u8])) st 0 (?svs, ?cs) = Inr (svs', cs') \<and>
      slot_map cs' 0 = [[0x61] \<mapsto> (True, [0, 1])]" for st
    using infosync_delivers [OF take_it, of ?item "[]" "[0, 1]" ?cs st] snd slot by auto
  then show ?thesis unfolding Let_def by blast
qed

text \<open>
  C40. A long key name is written outside the back buffer.  The room for a piece is
  computed without a test, and wraps around when the encoded name is longer than a back buffer: the whole rest of the value is
  announced, and if that does not fit the message a new back buffer is begun, into which the name is
  copied although it is longer than the buffer.  So for a name of 1200 encoded bytes or more (the code
  accepts up to 2047), and a message with too little room for the block, \<open>SV_SyncInfoBuf\<close> leaves the array.
\<close>

theorem infosync_long_key_escapes:
  assumes "i < length (clients svs)" "length (client_infos svs) = length (clients svs)" "own (clients svs ! i)" "queue_ok (clients svs ! i)"
    "num_backbuf (clients svs ! i) = 0" "cursize (msg (clients svs ! i)) < 600"
    "protocol (client_infos svs ! i) \<noteq> SCP_QUAKE2" "fteprotocolextensions2 (client_infos svs ! i) AND PEXT2_INFOBLOBS \<noteq> 0"
    "infosync (client_infos svs ! i) = item # rest" "syncpos item = 0"
    "context_info svs (sync_context item) = Inr info" "InfoBuf_BlobForKey info (sync_name item) = (Some v, True)"
    "v \<noteq> []" "length v < 2 ^ 30" "1200 \<le> length (info_encode (sync_name item))" "length (info_encode (sync_name item)) < 2048"
    "MAX_BACKBUFLEN \<le> maxsize (msg (clients svs ! i))"
    "cursize (msg (clients svs ! i)) + int (9 + length (info_encode (sync_name item)) + length v) \<ge> maxsize (msg (clients svs ! i))"
  shows "SV_SyncInfoBuf svs i = Inl OutOfBounds"
proof -
  let ?cl = "clients svs ! i" and ?enc = "info_encode (sync_name item)"
  have cur: "0 \<le> cursize (msg ?cl)" using assms(4) by (simp add: queue_ok_def shape_ok_def)
  have sizes: "blob_sizes 0 (length v) (Some v) (cursize (msg ?cl)) ?enc = (0, word_of_nat (length v), True)"
    using assms(6,13-16) cur by (intro blob_sizes_wrap) auto
  have len: "as_int (word_of_nat (9 + length ?enc) + word_of_nat (length v)) = int (9 + length ?enc + length v)"
  proof -
    have "word_of_nat (9 + length ?enc) + word_of_nat (length v) = (word_of_nat (9 + length ?enc + length v) :: u64)" by simp
    moreover have "9 + length ?enc + length v < 2 ^ 31" using assms(14,16) by simp
    ultimately show ?thesis by (simp only: as_int_def ucast_word_of_nat) (simp add: sint_small del: of_nat_add)
  qed
  have bm: "back_max ?cl = 1200" using assms(17) by (simp add: back_max_def MAX_BACKBUFLEN_def)
  have "write_reliable (write_blob (word_of_nat (sync_context item)) ?enc 0 (word_of_nat (length v)) True (blob_memory info (sync_name item)))
      i (int (9 + length ?enc + length v)) svs = Inl OutOfBounds"
    by (rule write_reliable_escapes) (use assms bm in simp_all)
  then have "send_blob svs i item info = Inl OutOfBounds"
    using assms(16) len by (simp add: send_blob_def Let_def assms(10,12) EncodeString_text sizes del: of_nat_add of_nat_Suc)
  moreover have "SV_SyncInfoBuf svs i = send_blob svs i item info"
    using assms by (simp add: SV_SyncInfoBuf_def elem_def MAX_BACKBUFLEN_def)
  ultimately show ?thesis by simp
qed

definition long_key :: "u8 list" where
  "long_key = replicate 1200 0x61"

lemma long_key: "length long_key = 1200" "info_encode long_key = long_key" "0 \<notin> set long_key"
  by (auto simp: long_key_def info_encode_def NeedsEncoding_iff needs_encoding_char_def)

theorem infosync_long_key_escapes_witness:
  "SV_SyncInfoBuf
    \<lparr>clients = [new_client ((Netchan_Setup NS_SERVER 7)\<lparr>message := (new_buffer True 1450)\<lparr>cursize := 500\<rparr>\<rparr>)],
     client_infos = [\<lparr>protocol = SCP_QUAKEWORLD, fteprotocolextensions2 = PEXT2_INFOBLOBS,
       infosync = [\<lparr>sync_context = 0, sync_name = long_key, syncpos = 0\<rparr>], userinfo = empty_info None\<rparr>],
     svs_info = snd (InfoBuf_SetStarBlobKey (empty_info None) long_key (Some [0]))\<rparr> 0 = Inl OutOfBounds"
  (is "SV_SyncInfoBuf ?svs 0 = _")
proof -
  let ?chan = "(Netchan_Setup NS_SERVER 7)\<lparr>message := (new_buffer True 1450)\<lparr>cursize := 500\<rparr>\<rparr>"
  let ?item = "\<lparr>sync_context = 0, sync_name = long_key, syncpos = 0\<rparr> :: synckey"
  have "message_ok (message ?chan)" by (simp add: message_ok_def new_buffer_def)
  note ok = new_client_ok [OF this]
  have blob: "InfoBuf_BlobForKey (svs_info ?svs) long_key = (Some [0], True)"
    by (simp add: InfoBuf_SetStarBlobKey_def InfoBuf_FindKey_def empty_info_def append_key_def store_value_def
        new_key_def InfoBuf_BlobForKey_def call_ChangeCB_def InfoBuf_IsLarge_def needs_encoding_char_def long_key)
  have cl: "num_backbuf (new_client ?chan) = 0" "cursize (msg (new_client ?chan)) = 500" "maxsize (msg (new_client ?chan)) = 1450"
    by (simp_all add: new_client_def new_buffer_def)
  show ?thesis
    by (rule infosync_long_key_escapes [where item = ?item and rest = "[]" and info = "svs_info ?svs" and v = "[0]"])
      (use ok blob cl in \<open>simp_all add: long_key PEXT2_INFOBLOBS_def context_info_def MAX_BACKBUFLEN_def\<close>)
qed

end
