(* ===== verification/Hash.thy ===== *)
theory Hash
  imports Prelude
begin

text \<open>
  The chained hash tables of \<open>engine/qclib/hash.c\<close>.  The nodes (\<open>bucket_t\<close>) belong to the caller,
  who passes their addresses: the store is a partial map from addresses to nodes, and every function reads and
  writes it through pointers.  A chain has no bound of its own, and a node that is added twice makes it cyclic: the loops
  run with fuel.  Data pointers are numbers; the null pointer is \<open>None\<close>.
\<close>

section \<open>State\<close>

text \<open>The union \<open>key\<close>; reading the member that was not written is undefined.\<close>

datatype bucket_key = KeyString "u8 list" | KeyValue u32

record bucket_s =
  bucket_data :: nat
  bucket_key :: bucket_key
  bucket_next :: "nat option"

record hashtable =
  numbuckets :: u32
  bucket :: "nat option list"

type_synonym nodes = "nat \<Rightarrow> bucket_s option"

definition bucket_at :: "nodes \<Rightarrow> nat \<Rightarrow> bucket_s res" where
  "bucket_at st a = (case st a of Some b \<Rightarrow> Inr b | None \<Rightarrow> Inl OutOfBounds)"

definition first_node :: "hashtable \<Rightarrow> nat \<Rightarrow> nat option res" where
  "first_node t i = (if i < length (bucket t) then Inr (bucket t ! i) else Inl OutOfBounds)"

definition Hash_InitTable :: "u32 \<Rightarrow> nat option list \<Rightarrow> hashtable" where
  "Hash_InitTable numbucks mem = \<lparr>numbuckets = numbucks, bucket = mem\<rparr>"

section \<open>Hashing and comparing\<close>

fun hash_loop :: "(u8 \<Rightarrow> u32) \<Rightarrow> u8 list \<Rightarrow> u32 \<Rightarrow> u32" where
  "hash_loop f [] key = key"
| "hash_loop f (c # name) key = hash_loop f name (key + (push_bit 3 key + drop_bit 28 key + f c))"

definition modulo :: "u32 \<Rightarrow> u32 \<Rightarrow> nat res" where
  "modulo key modulus = (if modulus = 0 then Inl Undefined else Inr (unat (key mod modulus)))"

definition Hash_Key :: "u8 list \<Rightarrow> u32 \<Rightarrow> nat res" where
  "Hash_Key name modulus = modulo (hash_loop scast name 0) modulus"

definition lower_char :: "u8 \<Rightarrow> u32" where
  "lower_char c = (if 0x41 \<le> c \<and> c \<le> 0x5A then scast c - 0x41 + 0x61 else scast c)"

definition Hash_KeyInsensitive :: "u8 list \<Rightarrow> u32 \<Rightarrow> nat res" where
  "Hash_KeyInsensitive name modulus = modulo (hash_loop lower_char name 0) modulus"

text \<open>\<open>STRCMP\<close> looks at the first characters before it calls \<open>strcmp\<close>.\<close>

definition first_byte :: "u8 list \<Rightarrow> u8" where
  "first_byte s = (case s of [] \<Rightarrow> 0 | c # _ \<Rightarrow> c)"

definition STRCMP :: "u8 list \<Rightarrow> u8 list \<Rightarrow> bool" where
  "STRCMP s1 s2 \<longleftrightarrow> first_byte s1 \<noteq> first_byte s2 \<or> s1 \<noteq> s2"

definition lower :: "u8 \<Rightarrow> u8" where
  "lower c = (if 0x41 \<le> c \<and> c \<le> 0x5A then c + 0x20 else c)"

definition stricmp :: "u8 list \<Rightarrow> u8 list \<Rightarrow> bool" where
  "stricmp s1 s2 \<longleftrightarrow> map lower s1 \<noteq> map lower s2"

definition string_of :: "bucket_s \<Rightarrow> u8 list res" where
  "string_of b = (case bucket_key b of KeyString s \<Rightarrow> Inr s | KeyValue _ \<Rightarrow> Inl Undefined)"

definition value_of :: "bucket_s \<Rightarrow> u32 res" where
  "value_of b = (case bucket_key b of KeyValue v \<Rightarrow> Inr v | KeyString _ \<Rightarrow> Inl Undefined)"

definition is_name :: "u8 list \<Rightarrow> bucket_s \<Rightarrow> bool res" where
  "is_name name b = rbind (string_of b) (\<lambda>s. Inr (\<not> STRCMP name s))"

definition is_name_insensitive :: "u8 list \<Rightarrow> bucket_s \<Rightarrow> bool res" where
  "is_name_insensitive name b = rbind (string_of b) (\<lambda>s. Inr (\<not> stricmp name s))"

definition is_value :: "u32 \<Rightarrow> bucket_s \<Rightarrow> bool res" where
  "is_value key b = rbind (value_of b) (\<lambda>v. Inr (v = key))"

text \<open>\<open>buck->data == data && ...\<close>.\<close>

definition with_data :: "nat \<Rightarrow> (bucket_s \<Rightarrow> bool res) \<Rightarrow> bucket_s \<Rightarrow> bool res" where
  "with_data d p b = (if bucket_data b = d then p b else Inr False)"

section \<open>Looking up\<close>

text \<open>\<open>while (buck) { if (...) return ...; buck = buck->next; }\<close>\<close>

fun find_loop :: "nat \<Rightarrow> nodes \<Rightarrow> (bucket_s \<Rightarrow> bool res) \<Rightarrow> nat option \<Rightarrow> (nat \<times> bucket_s) option res" where
  "find_loop n st p None = Inr None"
| "find_loop 0 st p (Some a) = Inl OutOfFuel"
| "find_loop (Suc n) st p (Some a) =
     rbind (bucket_at st a) (\<lambda>b. rbind (p b) (\<lambda>yes.
     if yes then Inr (Some (a, b)) else find_loop n st p (bucket_next b)))"

definition find_in ::
    "nat \<Rightarrow> hashtable \<Rightarrow> nodes \<Rightarrow> nat res \<Rightarrow> (bucket_s \<Rightarrow> bool res) \<Rightarrow> (nat \<times> bucket_s) option res" where
  "find_in n t st h p = rbind h (\<lambda>i. rbind (first_node t i) (find_loop n st p))"

definition get_data :: "(nat \<times> bucket_s) option res \<Rightarrow> nat option res" where
  "get_data r = rbind r (\<lambda>x. Inr (map_option (bucket_data \<circ> snd) x))"

definition Hash_Get :: "nat \<Rightarrow> hashtable \<Rightarrow> nodes \<Rightarrow> u8 list \<Rightarrow> nat option res" where
  "Hash_Get n t st name = get_data (find_in n t st (Hash_Key name (numbuckets t)) (is_name name))"

definition Hash_GetInsensitive :: "nat \<Rightarrow> hashtable \<Rightarrow> nodes \<Rightarrow> u8 list \<Rightarrow> nat option res" where
  "Hash_GetInsensitive n t st name =
     get_data (find_in n t st (Hash_KeyInsensitive name (numbuckets t)) (is_name_insensitive name))"

definition Hash_GetInsensitiveBucket :: "nat \<Rightarrow> hashtable \<Rightarrow> nodes \<Rightarrow> u8 list \<Rightarrow> nat option res" where
  "Hash_GetInsensitiveBucket n t st name =
     rbind (find_in n t st (Hash_KeyInsensitive name (numbuckets t)) (is_name_insensitive name))
       (\<lambda>x. Inr (map_option fst x))"

definition Hash_GetKey :: "nat \<Rightarrow> hashtable \<Rightarrow> nodes \<Rightarrow> u32 \<Rightarrow> nat option res" where
  "Hash_GetKey n t st key = get_data (find_in n t st (modulo key (numbuckets t)) (is_value key))"

text \<open>After the node whose data is \<open>old\<close>.\<close>

definition next_in ::
    "nat \<Rightarrow> hashtable \<Rightarrow> nodes \<Rightarrow> nat res \<Rightarrow> nat \<Rightarrow> (bucket_s \<Rightarrow> bool res) \<Rightarrow> nat option res" where
  "next_in n t st h old p =
     rbind (find_in n t st h (\<lambda>b. Inr (bucket_data b = old))) (\<lambda>x. case x of None \<Rightarrow> Inr None
     | Some (a, b) \<Rightarrow> get_data (find_loop n st p (bucket_next b)))"

definition Hash_GetNext :: "nat \<Rightarrow> hashtable \<Rightarrow> nodes \<Rightarrow> u8 list \<Rightarrow> nat \<Rightarrow> nat option res" where
  "Hash_GetNext n t st name old = next_in n t st (Hash_Key name (numbuckets t)) old (is_name name)"

definition Hash_GetNextInsensitive :: "nat \<Rightarrow> hashtable \<Rightarrow> nodes \<Rightarrow> u8 list \<Rightarrow> nat \<Rightarrow> nat option res" where
  "Hash_GetNextInsensitive n t st name old =
     next_in n t st (Hash_KeyInsensitive name (numbuckets t)) old (is_name_insensitive name)"

definition Hash_GetNextKey :: "nat \<Rightarrow> hashtable \<Rightarrow> nodes \<Rightarrow> u32 \<Rightarrow> nat \<Rightarrow> nat option res" where
  "Hash_GetNextKey n t st key old = next_in n t st (modulo key (numbuckets t)) old (is_value key)"

text \<open>
  \<open>Hash_GetIdx\<close> counts over all chains.  \<open>Hash_Enumerate\<close> has read \<open>data\<close> and \<open>next\<close> of a node when
  it calls back; the callback may change table and nodes.
\<close>

fun idx_chain :: "nat \<Rightarrow> nodes \<Rightarrow> nat option \<Rightarrow> u32 \<Rightarrow> (nat option \<times> u32) res" where
  "idx_chain n st None idx = Inr (None, idx)"
| "idx_chain 0 st (Some a) idx = Inl OutOfFuel"
| "idx_chain (Suc n) st (Some a) idx =
     rbind (bucket_at st a) (\<lambda>b. if idx = 0 then Inr (Some (bucket_data b), idx - 1) else idx_chain n st (bucket_next b) (idx - 1))"

fun idx_loop :: "nat \<Rightarrow> nodes \<Rightarrow> nat option list \<Rightarrow> u32 \<Rightarrow> nat option res" where
  "idx_loop n st [] idx = Inr None"
| "idx_loop n st (p # ps) idx = rbind (idx_chain n st p idx) (\<lambda>(r, idx).
     case r of Some d \<Rightarrow> Inr (Some d) | None \<Rightarrow> idx_loop n st ps idx)"

definition Hash_GetIdx :: "nat \<Rightarrow> hashtable \<Rightarrow> nodes \<Rightarrow> u32 \<Rightarrow> nat option res" where
  "Hash_GetIdx n t st idx =
     (if unat (numbuckets t) \<le> length (bucket t) then idx_loop n st (take (unat (numbuckets t)) (bucket t)) idx
      else Inl OutOfBounds)"

type_synonym 'c table_state = "hashtable \<times> nodes \<times> 'c"

fun enum_chain :: "nat \<Rightarrow> (nat \<Rightarrow> 'c table_state \<Rightarrow> 'c table_state) \<Rightarrow> nat option \<Rightarrow> 'c table_state \<Rightarrow> 'c table_state res" where
  "enum_chain n cb None s = Inr s"
| "enum_chain 0 cb (Some a) s = Inl OutOfFuel"
| "enum_chain (Suc n) cb (Some a) s =
     rbind (bucket_at (fst (snd s)) a) (\<lambda>b. enum_chain n cb (bucket_next b) (cb (bucket_data b) s))"

fun enum_loop :: "nat \<Rightarrow> nat \<Rightarrow> (nat \<Rightarrow> 'c table_state \<Rightarrow> 'c table_state) \<Rightarrow> nat \<Rightarrow> 'c table_state \<Rightarrow> 'c table_state res" where
  "enum_loop n 0 cb bucknum s = Inl OutOfFuel"
| "enum_loop n (Suc k) cb bucknum s =
     (if bucknum < unat (numbuckets (fst s)) then
        rbind (first_node (fst s) bucknum) (\<lambda>buck.
        rbind (enum_chain n cb buck s) (\<lambda>s. enum_loop n k cb (bucknum + 1) s))
      else Inr s)"

definition Hash_Enumerate ::
    "nat \<Rightarrow> nat \<Rightarrow> (nat \<Rightarrow> 'c table_state \<Rightarrow> 'c table_state) \<Rightarrow> 'c table_state \<Rightarrow> 'c table_state res" where
  "Hash_Enumerate n k cb s = enum_loop n k cb 0 s"

section \<open>Adding\<close>

definition add_at :: "hashtable \<Rightarrow> nodes \<Rightarrow> nat res \<Rightarrow> bucket_key \<Rightarrow> nat \<Rightarrow> nat \<Rightarrow> (hashtable \<times> nodes) res" where
  "add_at t st h key d a =
     rbind h (\<lambda>i. rbind (bucket_at st a) (\<lambda>b. rbind (first_node t i) (\<lambda>p.
     Inr (t\<lparr>bucket := (bucket t)[i := Some a]\<rparr>,
       st(a \<mapsto> b\<lparr>bucket_data := d, bucket_key := key, bucket_next := p\<rparr>)))))"

definition Hash_Add :: "hashtable \<Rightarrow> nodes \<Rightarrow> u8 list \<Rightarrow> nat \<Rightarrow> nat \<Rightarrow> (hashtable \<times> nodes) res" where
  "Hash_Add t st name d a = add_at t st (Hash_Key name (numbuckets t)) (KeyString name) d a"

definition Hash_AddInsensitive :: "hashtable \<Rightarrow> nodes \<Rightarrow> u8 list \<Rightarrow> nat \<Rightarrow> nat \<Rightarrow> (hashtable \<times> nodes) res" where
  "Hash_AddInsensitive t st name d a = add_at t st (Hash_KeyInsensitive name (numbuckets t)) (KeyString name) d a"

definition Hash_AddKey :: "hashtable \<Rightarrow> nodes \<Rightarrow> u32 \<Rightarrow> nat \<Rightarrow> nat \<Rightarrow> (hashtable \<times> nodes) res" where
  "Hash_AddKey t st key d a = add_at t st (modulo key (numbuckets t)) (KeyValue key) d a"

section \<open>Removing\<close>

text \<open>
  \<open>Hash_Remove\<close> and \<open>Hash_RemoveKey\<close> look at the first node before they know that there is one, and then
  one node ahead.
\<close>

fun remove_next :: "nat \<Rightarrow> nodes \<Rightarrow> (bucket_s \<Rightarrow> bool res) \<Rightarrow> nat \<Rightarrow> nodes res" where
  "remove_next 0 st p a = Inl OutOfFuel"
| "remove_next (Suc n) st p a =
     rbind (bucket_at st a) (\<lambda>b. case bucket_next b of None \<Rightarrow> Inr st
     | Some a' \<Rightarrow> rbind (bucket_at st a') (\<lambda>b'. rbind (p b') (\<lambda>yes.
         if yes then Inr (st(a \<mapsto> b\<lparr>bucket_next := bucket_next b'\<rparr>)) else remove_next n st p a')))"

definition remove_first :: "nat \<Rightarrow> hashtable \<Rightarrow> nodes \<Rightarrow> nat res \<Rightarrow> (bucket_s \<Rightarrow> bool res) \<Rightarrow> (hashtable \<times> nodes) res" where
  "remove_first n t st h p =
     rbind h (\<lambda>i. rbind (first_node t i) (\<lambda>buck. case buck of None \<Rightarrow> Inl NullDeref
     | Some a \<Rightarrow> rbind (bucket_at st a) (\<lambda>b. rbind (p b) (\<lambda>yes.
         if yes then Inr (t\<lparr>bucket := (bucket t)[i := bucket_next b]\<rparr>, st)
         else rbind (remove_next n st p a) (\<lambda>st. Inr (t, st))))))"

definition Hash_Remove :: "nat \<Rightarrow> hashtable \<Rightarrow> nodes \<Rightarrow> u8 list \<Rightarrow> (hashtable \<times> nodes) res" where
  "Hash_Remove n t st name = remove_first n t st (Hash_Key name (numbuckets t)) (is_name name)"

definition Hash_RemoveKey :: "nat \<Rightarrow> hashtable \<Rightarrow> nodes \<Rightarrow> u32 \<Rightarrow> (hashtable \<times> nodes) res" where
  "Hash_RemoveKey n t st key = remove_first n t st (modulo key (numbuckets t)) (is_value key)"

text \<open>The others walk with a pointer to the link, which is an entry of the table or the \<open>next\<close> of a node.\<close>

datatype link_ptr = entry_link nat | next_link nat

definition read_link :: "hashtable \<Rightarrow> nodes \<Rightarrow> link_ptr \<Rightarrow> nat option res" where
  "read_link t st l = (case l of entry_link i \<Rightarrow> first_node t i | next_link a \<Rightarrow> rbind (bucket_at st a) (\<lambda>b. Inr (bucket_next b)))"

definition write_link :: "hashtable \<Rightarrow> nodes \<Rightarrow> link_ptr \<Rightarrow> nat option \<Rightarrow> (hashtable \<times> nodes) res" where
  "write_link t st l q =
     (case l of entry_link i \<Rightarrow> rbind (first_node t i) (\<lambda>_. Inr (t\<lparr>bucket := (bucket t)[i := q]\<rparr>, st))
      | next_link a \<Rightarrow> rbind (bucket_at st a) (\<lambda>b. Inr (t, st(a \<mapsto> b\<lparr>bucket_next := q\<rparr>))))"

fun unlink_loop :: "nat \<Rightarrow> hashtable \<Rightarrow> nodes \<Rightarrow> (nat \<Rightarrow> bucket_s \<Rightarrow> bool res) \<Rightarrow> link_ptr \<Rightarrow> (hashtable \<times> nodes) res" where
  "unlink_loop 0 t st p l = Inl OutOfFuel"
| "unlink_loop (Suc n) t st p l =
     rbind (read_link t st l) (\<lambda>q. case q of None \<Rightarrow> Inr (t, st)
     | Some a \<Rightarrow> rbind (bucket_at st a) (\<lambda>b. rbind (p a b) (\<lambda>yes.
         if yes then write_link t st l (bucket_next b) else unlink_loop n t st p (next_link a))))"

definition unlink_in :: "nat \<Rightarrow> hashtable \<Rightarrow> nodes \<Rightarrow> nat res \<Rightarrow> (nat \<Rightarrow> bucket_s \<Rightarrow> bool res) \<Rightarrow> (hashtable \<times> nodes) res" where
  "unlink_in n t st h p = rbind h (\<lambda>i. unlink_loop n t st p (entry_link i))"

definition Hash_RemoveDataInsensitive :: "nat \<Rightarrow> hashtable \<Rightarrow> nodes \<Rightarrow> u8 list \<Rightarrow> nat \<Rightarrow> (hashtable \<times> nodes) res" where
  "Hash_RemoveDataInsensitive n t st name d =
     unlink_in n t st (Hash_KeyInsensitive name (numbuckets t)) (\<lambda>_. with_data d (is_name_insensitive name))"

definition Hash_RemoveData :: "nat \<Rightarrow> hashtable \<Rightarrow> nodes \<Rightarrow> u8 list \<Rightarrow> nat \<Rightarrow> (hashtable \<times> nodes) res" where
  "Hash_RemoveData n t st name d =
     unlink_in n t st (Hash_Key name (numbuckets t)) (\<lambda>_. with_data d (is_name_insensitive name))"

definition Hash_RemoveBucket :: "nat \<Rightarrow> hashtable \<Rightarrow> nodes \<Rightarrow> u8 list \<Rightarrow> nat \<Rightarrow> (hashtable \<times> nodes) res" where
  "Hash_RemoveBucket n t st name buck =
     unlink_in n t st (Hash_Key name (numbuckets t))
       (\<lambda>a b. if a = buck then is_name_insensitive name b else Inr False)"

definition Hash_RemoveDataKey :: "nat \<Rightarrow> hashtable \<Rightarrow> nodes \<Rightarrow> u32 \<Rightarrow> nat \<Rightarrow> (hashtable \<times> nodes) res" where
  "Hash_RemoveDataKey n t st key d = unlink_in n t st (modulo key (numbuckets t)) (\<lambda>_. with_data d (is_value key))"

end
