(* ===== verification/HashSpec.thy ===== *)
theory HashSpec
  imports Hash
begin

text \<open>
  The hash tables as multimaps.  The three kinds of key (names, names without regard to case, numbers) share one
  contract, the locale \<open>hashing\<close>: equal keys hash alike, and the test on a node decides equality of keys.  What the
  functions of the kinds do is proved once in it.
\<close>

section \<open>Chains\<close>

fun chain :: "nodes \<Rightarrow> nat option \<Rightarrow> nat list \<Rightarrow> bool" where
  "chain st p [] \<longleftrightarrow> p = None"
| "chain st p (a # as) \<longleftrightarrow> p = Some a \<and> (\<exists>b. st a = Some b \<and> chain st (bucket_next b) as)"

text \<open>The nodes at some addresses.\<close>

definition at :: "nodes \<Rightarrow> nat list \<Rightarrow> bucket_s list" where
  "at st as = map (the \<circ> st) as"

lemma at_simps [simp]: "at st [] = []" "at st (a # as) = the (st a) # at st as" "length (at st as) = length as"
  by (simp_all add: at_def)

lemma bucket_at_Some [simp]: "st a = Some b \<Longrightarrow> bucket_at st a = Inr b"
  by (simp add: bucket_at_def)

lemma chain_other: "a \<notin> set as \<Longrightarrow> chain (st(a := x)) p as = chain st p as"
  by (induction as arbitrary: p) auto

lemma at_other: "a \<notin> set as \<Longrightarrow> at (st(a := x)) as = at st as"
  by (auto simp: at_def)

lemma chain_allocated: "chain st p as \<Longrightarrow> a \<in> set as \<Longrightarrow> st a \<noteq> None"
  by (induction as arbitrary: p) auto

lemma concat_add:
  "i < length chs \<Longrightarrow> a \<notin> set (concat chs) \<Longrightarrow>
   set (concat (chs[i := a # chs ! i])) = insert a (set (concat chs)) \<and>
   length (concat (chs[i := a # chs ! i])) = Suc (length (concat chs)) \<and>
   (distinct (concat chs) \<longrightarrow> distinct (concat (chs[i := a # chs ! i])))"
proof (induction chs arbitrary: i)
  case (Cons xs chs)
  then show ?case
  proof (cases i)
    case (Suc j)
    then show ?thesis using Cons.prems Cons.IH [of j] by auto
  qed auto
qed simp

lemma concat_remove:
  "i < length chs \<Longrightarrow> chs ! i = xs @ a # ys \<Longrightarrow> distinct (concat chs) \<Longrightarrow>
   set (concat (chs[i := xs @ ys])) = set (concat chs) - {a} \<and> distinct (concat (chs[i := xs @ ys])) \<and>
   length (concat (chs[i := xs @ ys])) \<le> length (concat chs)"
proof (induction chs arbitrary: i)
  case (Cons zs chs)
  then show ?case
  proof (cases i)
    case (Suc j)
    have "chs ! j \<in> set chs" "a \<in> set (chs ! j)" using Cons.prems Suc nth_mem [of j chs] by simp_all
    then have "a \<in> set (concat chs)" by auto
    then show ?thesis using Cons.prems Cons.IH [of j] Suc by auto
  qed auto
qed simp

lemma other_chain:
  assumes "distinct (concat chs)" "i < length chs" "j < length chs" "i \<noteq> j" "a \<in> set (chs ! i)"
  shows "a \<notin> set (chs ! j)"
  using assms
proof (induction chs arbitrary: i j)
  case (Cons xs chs)
  have disj: "set xs \<inter> set (concat chs) = {}" "distinct (concat chs)" using Cons.prems(1) by simp_all
  have mem: "set (chs ! k) \<subseteq> set (concat chs)" if "k < length chs" for k
    using nth_mem [OF that] by auto
  then have apart: "a \<notin> set xs" if "k < length chs" "a \<in> set (chs ! k)" for k
    using that disj(1) by blast
  consider "i = 0" "j = 0" | j' where "i = 0" "j = Suc j'" | i' where "i = Suc i'" "j = 0"
    | i' j' where "i = Suc i'" "j = Suc j'" by (meson not0_implies_Suc)
  then show ?case
  proof cases
    case 1
    then show ?thesis using Cons.prems(4) by simp
  next
    case (2 j')
    then show ?thesis using Cons.prems(3,5) apart [of j'] by auto
  next
    case (3 i')
    then show ?thesis using Cons.prems(2,5) apart [of i'] by auto
  next
    case (4 i' j')
    then show ?thesis using Cons.prems(2-5) Cons.IH [OF disj(2), of i' j'] by simp
  qed
qed simp

section \<open>Taking a node out of a chain\<close>

fun drop_first :: "('a \<Rightarrow> bool) \<Rightarrow> 'a list \<Rightarrow> 'a list" where
  "drop_first q [] = []"
| "drop_first q (x # xs) = (if q x then xs else x # drop_first q xs)"

lemma drop_first_split: "\<forall>x \<in> set xs. \<not> q x \<Longrightarrow> q a \<Longrightarrow> drop_first q (xs @ a # ys) = xs @ ys"
  by (induction xs) auto

lemma drop_first_none: "\<forall>x \<in> set xs. \<not> q x \<Longrightarrow> drop_first q xs = xs"
  by (induction xs) auto

lemma drop_first_data: "map bucket_data (drop_first (\<lambda>b. bucket_data b = d) bs) = remove1 d (map bucket_data bs)"
  by (induction bs) auto

lemma drop_first_tl: "\<forall>x \<in> set xs. q x \<Longrightarrow> drop_first q xs = tl xs"
  by (cases xs) auto

lemma drop_first_cong: "(\<And>x. x \<in> set xs \<Longrightarrow> q x = r x) \<Longrightarrow> drop_first q xs = drop_first r xs"
  by (induction xs) auto

lemma chain_append: "chain st p (xs @ a # ys) \<Longrightarrow> \<exists>b. st a = Some b \<and> chain st (bucket_next b) ys"
  by (induction xs arbitrary: p) auto

lemma chain_cut:
  "chain st p (xs @ x # a # ys) \<Longrightarrow> distinct (xs @ x # a # ys) \<Longrightarrow> st x = Some bx \<Longrightarrow> st a = Some ba \<Longrightarrow>
   chain (st(x \<mapsto> bx\<lparr>bucket_next := bucket_next ba\<rparr>)) p (xs @ x # ys)"
  by (induction xs arbitrary: p) (auto simp: chain_other)

lemma unlink_chain:
  assumes "read_link t st l = Inr p" "chain st p as" "\<And>a b. a \<in> set as \<Longrightarrow> st a = Some b \<Longrightarrow> P a b = Inr (Q b)" "length as < n"
  shows "(\<forall>b \<in> set (at st as). \<not> Q b) \<and> unlink_loop n t st P l = Inr (t, st) \<or>
    (\<exists>xs a ys b. as = xs @ a # ys \<and> st a = Some b \<and> Q b \<and> (\<forall>b \<in> set (at st xs). \<not> Q b) \<and>
      unlink_loop n t st P l = write_link t st (if xs = [] then l else next_link (last xs)) (bucket_next b))"
  using assms
proof (induction as arbitrary: l p n)
  case Nil
  then show ?case by (cases n) simp_all
next
  case (Cons a as)
  then obtain b n' where b: "p = Some a" "st a = Some b" "chain st (bucket_next b) as" "n = Suc n'" "length as < n'"
    by (cases n) auto
  have P: "P a b = Inr (Q b)" using Cons.prems(3) b(2) by simp
  show ?case
  proof (cases "Q b")
    case True
    then have "a # as = [] @ a # as \<and> st a = Some b \<and> Q b \<and> (\<forall>b \<in> set (at st []). \<not> Q b) \<and>
      unlink_loop n t st P l = write_link t st (if [] = [] then l else next_link (last [])) (bucket_next b)"
      using Cons.prems(1) b P by simp
    then show ?thesis by blast
  next
    case False
    have "read_link t st (next_link a) = Inr (bucket_next b)" using b(2) by (simp add: read_link_def)
    from Cons.IH [OF this b(3) _ b(5)] Cons.prems(3)
    have IH: "(\<forall>b \<in> set (at st as). \<not> Q b) \<and> unlink_loop n' t st P (next_link a) = Inr (t, st) \<or>
      (\<exists>xs c ys b'. as = xs @ c # ys \<and> st c = Some b' \<and> Q b' \<and> (\<forall>b \<in> set (at st xs). \<not> Q b) \<and>
        unlink_loop n' t st P (next_link a) = write_link t st (if xs = [] then next_link a else next_link (last xs)) (bucket_next b'))"
      by simp
    have step: "unlink_loop n t st P l = unlink_loop n' t st P (next_link a)"
      using Cons.prems(1) b P False by simp
    from IH show ?thesis
    proof
      assume "(\<forall>b \<in> set (at st as). \<not> Q b) \<and> unlink_loop n' t st P (next_link a) = Inr (t, st)"
      then show ?thesis using step False b(2) by simp
    next
      assume "\<exists>xs c ys b'. as = xs @ c # ys \<and> st c = Some b' \<and> Q b' \<and> (\<forall>b \<in> set (at st xs). \<not> Q b) \<and>
        unlink_loop n' t st P (next_link a) = write_link t st (if xs = [] then next_link a else next_link (last xs)) (bucket_next b')"
      then obtain xs c ys b' where x: "as = xs @ c # ys" "st c = Some b'" "Q b'" "\<forall>b \<in> set (at st xs). \<not> Q b"
        "unlink_loop n' t st P (next_link a) = write_link t st (if xs = [] then next_link a else next_link (last xs)) (bucket_next b')"
        by blast
      then have "a # as = (a # xs) @ c # ys \<and> st c = Some b' \<and> Q b' \<and> (\<forall>b \<in> set (at st (a # xs)). \<not> Q b) \<and>
        unlink_loop n t st P l = write_link t st (if a # xs = [] then l else next_link (last (a # xs))) (bucket_next b')"
        using step False b(2) by simp
      then show ?thesis by blast
    qed
  qed
qed

section \<open>Sequences of operations\<close>

text \<open>
  What a caller does with a table: adds a value with a node of his own, removes a value, removes what was added last.
\<close>

datatype 'k table_op = Put 'k nat nat | Take 'k nat | Pop 'k

fun run_ops ::
    "(hashtable \<Rightarrow> nodes \<Rightarrow> 'k \<Rightarrow> nat \<Rightarrow> nat \<Rightarrow> (hashtable \<times> nodes) res) \<Rightarrow>
     (hashtable \<Rightarrow> nodes \<Rightarrow> 'k \<Rightarrow> nat \<Rightarrow> (hashtable \<times> nodes) res) \<Rightarrow>
     (hashtable \<Rightarrow> nodes \<Rightarrow> 'k \<Rightarrow> (hashtable \<times> nodes) res) \<Rightarrow>
     'k table_op list \<Rightarrow> hashtable \<times> nodes \<Rightarrow> (hashtable \<times> nodes) res" where
  "run_ops add rem pop [] s = Inr s"
| "run_ops add rem pop (Put k d a # ops) s = rbind (add (fst s) (snd s) k d a) (run_ops add rem pop ops)"
| "run_ops add rem pop (Take k d # ops) s = rbind (rem (fst s) (snd s) k d) (run_ops add rem pop ops)"
| "run_ops add rem pop (Pop k # ops) s = rbind (pop (fst s) (snd s) k) (run_ops add rem pop ops)"

text \<open>
  The multimap: every key has the list of its values, the last added first.  \<open>Pop\<close> is for keys that have one.
\<close>

fun multimap :: "('k \<Rightarrow> 'k \<Rightarrow> bool) \<Rightarrow> 'k table_op list \<Rightarrow> ('k \<Rightarrow> nat list) \<Rightarrow> 'k \<Rightarrow> nat list" where
  "multimap same [] m = m"
| "multimap same (Put k d a # ops) m = multimap same ops (\<lambda>k'. if same k' k then d # m k' else m k')"
| "multimap same (Take k d # ops) m = multimap same ops (\<lambda>k'. if same k k' then remove1 d (m k) else m k')"
| "multimap same (Pop k # ops) m = multimap same ops (\<lambda>k'. if same k k' then tl (m k) else m k')"

fun pops_ok :: "('k \<Rightarrow> 'k \<Rightarrow> bool) \<Rightarrow> 'k table_op list \<Rightarrow> ('k \<Rightarrow> nat list) \<Rightarrow> bool" where
  "pops_ok same [] m \<longleftrightarrow> True"
| "pops_ok same (Put k d a # ops) m \<longleftrightarrow> pops_ok same ops (\<lambda>k'. if same k' k then d # m k' else m k')"
| "pops_ok same (Take k d # ops) m \<longleftrightarrow> pops_ok same ops (\<lambda>k'. if same k k' then remove1 d (m k) else m k')"
| "pops_ok same (Pop k # ops) m \<longleftrightarrow> m k \<noteq> [] \<and> pops_ok same ops (\<lambda>k'. if same k k' then tl (m k) else m k')"

fun added :: "'k table_op list \<Rightarrow> nat list" where
  "added [] = []"
| "added (Put k d a # ops) = a # added ops"
| "added (Take k d # ops) = added ops"
| "added (Pop k # ops) = added ops"

definition first_value :: "nat list \<Rightarrow> nat option" where
  "first_value ds = (case ds of [] \<Rightarrow> None | d # _ \<Rightarrow> Some d)"

section \<open>The contract of a kind of key\<close>

locale hashing =
  fixes hash :: "'k \<Rightarrow> u32 \<Rightarrow> nat res"
    and key_of :: "'k \<Rightarrow> bucket_key"
    and same :: "'k \<Rightarrow> 'k \<Rightarrow> bool"
    and test :: "'k \<Rightarrow> bucket_s \<Rightarrow> bool res"
  assumes hash_bound: "n \<noteq> 0 \<Longrightarrow> \<exists>i. hash k n = Inr i \<and> i < unat n"
    and hash_same: "same k k' \<Longrightarrow> hash k n = hash k' n"
    and test_key: "bucket_key b = key_of k' \<Longrightarrow> test k b = Inr (same k k')"
    and same_equiv: "equivp same"
begin

text \<open>What a node is filed under, and a table of which \<open>chs\<close> are the chains.\<close>

definition filed :: "u32 \<Rightarrow> nat \<Rightarrow> bucket_s \<Rightarrow> bool" where
  "filed n i b \<longleftrightarrow> (\<exists>k. bucket_key b = key_of k \<and> hash k n = Inr i)"

definition table_ok :: "hashtable \<Rightarrow> nodes \<Rightarrow> nat list list \<Rightarrow> bool" where
  "table_ok t st chs \<longleftrightarrow> numbuckets t \<noteq> 0 \<and> length (bucket t) = unat (numbuckets t) \<and> length chs = unat (numbuckets t)
     \<and> distinct (concat chs)
     \<and> (\<forall>i < length chs. chain st (bucket t ! i) (chs ! i) \<and> list_all (filed (numbuckets t) i) (at st (chs ! i)))"

text \<open>The values of a key, the one added last first.\<close>

definition matches :: "'k \<Rightarrow> bucket_s \<Rightarrow> bool" where
  "matches k b \<longleftrightarrow> test k b = Inr True"

definition stored :: "hashtable \<Rightarrow> nodes \<Rightarrow> nat list list \<Rightarrow> 'k \<Rightarrow> nat list" where
  "stored t st chs k = (case hash k (numbuckets t) of Inr i \<Rightarrow> map bucket_data (filter (matches k) (at st (chs ! i))) | Inl _ \<Rightarrow> [])"

lemma filed_test: "filed n i b \<Longrightarrow> \<exists>yes. test k b = Inr yes \<and> (yes \<longleftrightarrow> matches k b)"
  using test_key by (fastforce simp: filed_def matches_def)

lemma find_chain:
  assumes "chain st p as" "list_all (filed m i) (at st as)" "length as \<le> n"
  shows "get_data (find_loop n st (test k) p) = Inr (case filter (matches k) (at st as) of [] \<Rightarrow> None | b # _ \<Rightarrow> Some (bucket_data b))"
  using assms
proof (induction as arbitrary: p n)
  case Nil
  then show ?case by (simp add: get_data_def)
next
  case (Cons a as)
  then obtain b n' where b: "p = Some a" "st a = Some b" "chain st (bucket_next b) as" "n = Suc n'"
    by (cases n) auto
  obtain yes where "test k b = Inr yes" "yes \<longleftrightarrow> matches k b"
    using filed_test [of m i b k] Cons.prems(2) b(2) by auto
  with Cons.IH [OF b(3)] Cons.prems b show ?case by (cases yes) (auto simp: get_data_def)
qed

lemma table_index:
  assumes "table_ok t st chs"
  obtains i where "hash k (numbuckets t) = Inr i" "i < length chs" "first_node t i = Inr (bucket t ! i)"
    "chain st (bucket t ! i) (chs ! i)" "list_all (filed (numbuckets t) i) (at st (chs ! i))" "i < length (bucket t)"
proof -
  have n: "numbuckets t \<noteq> 0" "length (bucket t) = unat (numbuckets t)" "length chs = unat (numbuckets t)"
    using assms by (simp_all add: table_ok_def)
  obtain i where "hash k (numbuckets t) = Inr i" "i < unat (numbuckets t)"
    using hash_bound [OF n(1)] by blast
  with n that [of i] assms show ?thesis by (simp add: table_ok_def first_node_def)
qed

lemma find_stored:
  assumes "table_ok t st chs" "length (concat chs) \<le> n"
  shows "get_data (find_in n t st (hash k (numbuckets t)) (test k))
    = Inr (case stored t st chs k of [] \<Rightarrow> None | d # _ \<Rightarrow> Some d)"
proof -
  obtain i where i: "hash k (numbuckets t) = Inr i" "i < length chs" "first_node t i = Inr (bucket t ! i)"
    "chain st (bucket t ! i) (chs ! i)" "list_all (filed (numbuckets t) i) (at st (chs ! i))"
    using table_index [OF assms(1)] by metis
  have "length (chs ! i) \<le> length (concat chs)"
    using i(2) by (simp add: length_concat member_le_sum_list)
  then have "get_data (find_loop n st (test k) (bucket t ! i))
      = Inr (case filter (matches k) (at st (chs ! i)) of [] \<Rightarrow> None | b # _ \<Rightarrow> Some (bucket_data b))"
    using assms(2) by (intro find_chain [OF i(4,5)]) simp
  then show ?thesis
    using i by (simp add: find_in_def stored_def split: list.splits)
qed

text \<open>Putting a changed chain back.\<close>

lemma table_ok_update:
  assumes "table_ok t st chs" "i < length chs" "numbuckets t' = numbuckets t" "length (bucket t') = length (bucket t)"
    "\<And>j. j < length chs \<Longrightarrow> j \<noteq> i \<Longrightarrow> bucket t' ! j = bucket t ! j"
    "\<And>j a. j < length chs \<Longrightarrow> j \<noteq> i \<Longrightarrow> a \<in> set (chs ! j) \<Longrightarrow> st' a = st a"
    "chain st' (bucket t' ! i) as" "list_all (filed (numbuckets t) i) (at st' as)" "distinct (concat (chs[i := as]))"
  shows "table_ok t' st' (chs[i := as])"
proof -
  have same: "chain st' p xs = chain st p xs \<and> at st' xs = at st xs" if "\<And>a. a \<in> set xs \<Longrightarrow> st' a = st a" for p xs
    using that by (induction xs arbitrary: p) auto
  have "chain st' (bucket t' ! j) (chs[i := as] ! j) \<and> list_all (filed (numbuckets t') j) (at st' (chs[i := as] ! j))"
    if "j < length chs" for j
    using that assms same [of "chs ! j" "bucket t ! j"] by (cases "j = i") (auto simp: table_ok_def)
  then show ?thesis using assms(1-4,9) by (simp add: table_ok_def)
qed

lemma stored_update:
  assumes "i < length chs" "numbuckets t' = numbuckets t"
    "\<And>j a. j < length chs \<Longrightarrow> j \<noteq> i \<Longrightarrow> a \<in> set (chs ! j) \<Longrightarrow> st' a = st a" "hash k (numbuckets t) = Inr j" "j < length chs"
  shows "stored t' st' (chs[i := as]) k =
    (if j = i then map bucket_data (filter (matches k) (at st' as)) else stored t st chs k)"
  using assms by (auto simp: stored_def at_def intro!: arg_cong [where f = "map bucket_data"] arg_cong [where f = "filter (matches k)"])

section \<open>Adding\<close>

lemma add_spec:
  assumes ok: "table_ok t st chs" and a: "a \<notin> set (concat chs)" "st a \<noteq> None"
  shows "\<exists>t' st' chs'. add_at t st (hash k (numbuckets t)) (key_of k) d a = Inr (t', st') \<and> table_ok t' st' chs' \<and>
    set (concat chs') = insert a (set (concat chs)) \<and> length (concat chs') = Suc (length (concat chs)) \<and>
    dom st' = dom st \<and>
    (\<forall>k'. stored t' st' chs' k' = (if same k' k then d # stored t st chs k' else stored t st chs k'))"
proof -
  obtain i where i: "hash k (numbuckets t) = Inr i" "i < length chs" "first_node t i = Inr (bucket t ! i)"
    "chain st (bucket t ! i) (chs ! i)" "list_all (filed (numbuckets t) i) (at st (chs ! i))" "i < length (bucket t)"
    using table_index [OF ok] by metis
  obtain b where b: "st a = Some b" using a(2) by auto
  define b' where "b' = b\<lparr>bucket_data := d, bucket_key := key_of k, bucket_next := bucket t ! i\<rparr>"
  define t' where "t' = t\<lparr>bucket := (bucket t)[i := Some a]\<rparr>"
  define st' where "st' = st(a \<mapsto> b')"
  define chs' where "chs' = chs[i := a # chs ! i]"
  have add: "add_at t st (hash k (numbuckets t)) (key_of k) d a = Inr (t', st')"
    by (simp add: add_at_def i b t'_def st'_def b'_def)
  have sets: "set (concat chs') = insert a (set (concat chs))" "length (concat chs') = Suc (length (concat chs))"
    "distinct (concat chs')"
    using concat_add [OF i(2) a(1)] ok by (simp_all add: chs'_def table_ok_def)
  have fresh: "a \<notin> set (chs ! j)" if "j < length chs" for j
    using that a(1) by auto
  have other: "st' x = st x" if "x \<in> set (chs ! j)" "j < length chs" for j x
    using that fresh by (auto simp: st'_def)
  have new: "at st' (a # chs ! i) = b' # at st (chs ! i)"
    using fresh [OF i(2)] by (simp add: st'_def at_other)
  have "filed (numbuckets t) i b'" using i(1) by (auto simp: filed_def b'_def)
  then have files: "list_all (filed (numbuckets t) i) (at st' (a # chs ! i))"
    unfolding new using i(5) by simp
  have "chain st' (bucket t' ! i) (a # chs ! i)"
    using i(4,6) fresh [OF i(2)] by (simp add: t'_def st'_def b'_def chain_other)
  then have table: "table_ok t' st' chs'"
    unfolding chs'_def using sets(3) other files
    by (intro table_ok_update [OF ok i(2)]) (auto simp: t'_def chs'_def)
  have "stored t' st' chs' k' = (if same k' k then d # stored t st chs k' else stored t st chs k')" for k'
  proof -
    obtain j where j: "hash k' (numbuckets t) = Inr j" "j < length chs" using table_index [OF ok] by metis
    have "matches k' b' \<longleftrightarrow> same k' k" using test_key [of b' k k'] by (simp add: matches_def b'_def)
    moreover have "same k' k \<Longrightarrow> j = i" using hash_same [of k' k "numbuckets t"] i(1) j(1) by simp
    moreover have "stored t' st' chs' k' =
        (if j = i then map bucket_data (filter (matches k') (at st' (a # chs ! i))) else stored t st chs k')"
      unfolding chs'_def by (rule stored_update) (use i(2) j other in \<open>auto simp: t'_def\<close>)
    ultimately show ?thesis
      using i(1) j(1) by (auto simp: new stored_def b'_def simp del: at_simps(2))
  qed
  moreover have "dom st' = dom st" using b by (auto simp: st'_def)
  ultimately show ?thesis using add table sets by blast
qed

section \<open>Removing\<close>

lemma matches_class: "filed m i b \<Longrightarrow> same k k' \<Longrightarrow> matches k b \<longleftrightarrow> matches k' b"
  using same_equiv by (auto simp: filed_def matches_def test_key) (metis equivp_def)+

lemma matches_other: "filed m i b \<Longrightarrow> matches k b \<Longrightarrow> matches k' b \<Longrightarrow> same k k'"
  using same_equiv by (auto simp: filed_def matches_def test_key) (metis equivp_def)

text \<open>What is left of the chain \<open>xs @ a # ys\<close> when its node \<open>a\<close> has been unlinked.\<close>

lemma cut_chain:
  assumes ok: "table_ok t st chs" and i: "i < length chs" "chs ! i = xs @ a # ys" and a: "st a = Some b"
    and wr: "write_link t st (if xs = [] then entry_link i else next_link (last xs)) (bucket_next b) = Inr (t', st')"
  shows "table_ok t' st' (chs[i := xs @ ys]) \<and> numbuckets t' = numbuckets t \<and> dom st' = dom st \<and>
    (\<forall>c d. st c = Some d \<longrightarrow> (\<exists>q. st' c = Some (d\<lparr>bucket_next := q\<rparr>))) \<and>
    (\<forall>j c. j < length chs \<longrightarrow> j \<noteq> i \<longrightarrow> c \<in> set (chs ! j) \<longrightarrow> st' c = st c)"
proof -
  have t: "chain st (bucket t ! i) (xs @ a # ys)" "list_all (filed (numbuckets t) i) (at st (xs @ a # ys))"
      "distinct (concat chs)" "i < length (bucket t)"
    using ok i by (simp_all add: table_ok_def) metis+
  have dist: "distinct (xs @ a # ys)"
    using t(3) i nth_mem [OF i(1)] by (metis distinct_concat_iff)
  have keeps: "\<exists>q. st' c = Some (d\<lparr>bucket_next := q\<rparr>)" if "st c = Some d" for c d
    using wr that by (auto simp: write_link_def first_node_def bucket_at_def rbind_eq_Inr split: if_splits option.splits)
      (metis bucket_s.surjective bucket_s.update_convs(3))+
  have dom: "dom st' = dom st" and nb: "numbuckets t' = numbuckets t" and len: "length (bucket t') = length (bucket t)"
    using wr by (auto simp: write_link_def first_node_def bucket_at_def rbind_eq_Inr split: if_splits option.splits)
  have others: "bucket t' ! j = bucket t ! j \<and> (\<forall>c \<in> set (chs ! j). st' c = st c)" if "j < length chs" "j \<noteq> i" for j
  proof (cases "xs = []")
    case True
    then show ?thesis using wr that by (auto simp: write_link_def first_node_def split: if_splits)
  next
    case False
    then have "last xs \<in> set (chs ! i)" by (simp add: i(2))
    then have "last xs \<notin> set (chs ! j)" using other_chain [OF t(3) i(1) that(1)] that(2) by simp
    then show ?thesis using wr False by (auto simp: write_link_def bucket_at_def rbind_eq_Inr split: option.splits)
  qed
  have links: "chain st' (bucket t' ! i) (xs @ ys)"
  proof (cases xs rule: rev_cases)
    case Nil
    then show ?thesis using wr t(1,4) a by (auto simp: write_link_def first_node_def)
  next
    case (snoc zs x)
    then obtain bx where "st x = Some bx" using chain_append [of st _ zs x "a # ys"] t(1) by auto
    then show ?thesis
      using wr snoc a t(1) dist chain_cut [of st "bucket t ! i" zs x a ys bx b]
      by (auto simp: write_link_def)
  qed
  have "filed m j (d\<lparr>bucket_next := q\<rparr>) = filed m j d" for m j d q by (simp add: filed_def)
  moreover have "st c \<noteq> None" if "c \<in> set (xs @ ys)" for c
    using chain_allocated [OF t(1), of c] that by auto
  then have "\<exists>q. the (st' c) = (the (st c))\<lparr>bucket_next := q\<rparr>" if "c \<in> set (xs @ ys)" for c
    using that keeps by fastforce
  ultimately have "filed (numbuckets t) i (the (st' c))" if "c \<in> set (xs @ ys)" for c
    using that t(2) by (fastforce simp: list_all_iff at_def)
  then have files: "list_all (filed (numbuckets t) i) (at st' (xs @ ys))"
    by (auto simp: list_all_iff at_def)
  have "distinct (concat (chs[i := xs @ ys]))" using concat_remove [OF i t(3)] by simp
  then have "table_ok t' st' (chs[i := xs @ ys])"
    using others links files by (intro table_ok_update [OF ok i(1) nb len]) auto
  then show ?thesis using nb dom keeps others by blast
qed

lemma filter_at_next:
  assumes "\<And>c. c \<in> set as \<Longrightarrow> \<exists>d q. st c = Some d \<and> st' c = Some (d\<lparr>bucket_next := q\<rparr>)"
    "list_all (filed m i) (at st as)"
  shows "map bucket_data (filter (matches k) (at st' as)) = map bucket_data (filter (matches k) (at st as))"
  using assms
proof (induction as)
  case (Cons c as)
  obtain d q where d: "st c = Some d" "st' c = Some (d\<lparr>bucket_next := q\<rparr>)" using Cons.prems(1) [of c] by auto
  obtain k' where "bucket_key d = key_of k'" using Cons.prems(2) d(1) by (auto simp: filed_def)
  then have "matches k (d\<lparr>bucket_next := q\<rparr>) = matches k d" by (simp add: matches_def test_key)
  then show ?case using Cons d by simp
qed simp

text \<open>
  Unlinking the first node of the key's chain with \<open>Q\<close>, a condition only nodes of the key meet.
\<close>

lemma unlink_spec:
  assumes ok: "table_ok t st chs" and n: "length (concat chs) < n"
    and P: "\<And>m i a b. filed m i b \<Longrightarrow> P a b = Inr (Q b)" and Q: "\<And>m i b. filed m i b \<Longrightarrow> Q b \<Longrightarrow> matches k b"
    and i: "hash k (numbuckets t) = Inr i"
  shows "\<exists>t' st' chs'. unlink_loop n t st P (entry_link i) = Inr (t', st') \<and> table_ok t' st' chs' \<and>
    set (concat chs') \<subseteq> set (concat chs) \<and> length (concat chs') \<le> length (concat chs) \<and> dom st' = dom st \<and>
    (\<forall>k'. stored t' st' chs' k' = (if same k k' then map bucket_data (drop_first Q (filter (matches k) (at st (chs ! i))))
      else stored t st chs k'))"
proof -
  have i': "i < length chs" "read_link t st (entry_link i) = Inr (bucket t ! i)" "chain st (bucket t ! i) (chs ! i)"
    "list_all (filed (numbuckets t) i) (at st (chs ! i))" "i < length (bucket t)"
    using table_index [OF ok, of k] i by (auto simp: read_link_def)
  have "length (chs ! i) < n" using i'(1) n member_le_sum_list [of "length (chs ! i)" "map length chs"]
    by (simp add: length_concat)
  moreover have "P a b = Inr (Q b)" if "a \<in> set (chs ! i)" "st a = Some b" for a b
    using that i'(4) P by (fastforce simp: list_all_iff at_def)
  ultimately consider
    (none) "\<forall>b \<in> set (at st (chs ! i)). \<not> Q b" "unlink_loop n t st P (entry_link i) = Inr (t, st)"
  | (cut) xs a ys b where "chs ! i = xs @ a # ys" "st a = Some b" "Q b" "\<forall>b \<in> set (at st xs). \<not> Q b"
      "unlink_loop n t st P (entry_link i) = write_link t st (if xs = [] then entry_link i else next_link (last xs)) (bucket_next b)"
    using unlink_chain [OF i'(2,3), of P Q n] by blast
  then show ?thesis
  proof cases
    case none
    have "stored t st chs k' = map bucket_data (filter (matches k) (at st (chs ! i)))" if "same k k'" for k'
      using that hash_same [OF that] i i'(4) matches_class [of "numbuckets t" i _ k k']
      by (auto simp: stored_def list_all_iff intro!: arg_cong [where f = "map bucket_data"] filter_cong)
    moreover have "drop_first Q (filter (matches k) (at st (chs ! i))) = filter (matches k) (at st (chs ! i))"
      using none(1) by (intro drop_first_none) simp
    ultimately show ?thesis using none(2) ok by auto
  next
    case cut
    let ?l = "if xs = [] then entry_link i else next_link (last xs)"
    have "\<exists>t' st'. write_link t st ?l (bucket_next b) = Inr (t', st')"
    proof (cases xs rule: rev_cases)
      case (snoc zs x)
      then obtain bx where "st x = Some bx" using chain_append [of st _ zs x "a # ys"] i'(3) cut(1) by auto
      with snoc show ?thesis by (simp add: write_link_def)
    qed (use i'(5) in \<open>simp add: write_link_def first_node_def\<close>)
    then obtain t' st' where wr: "write_link t st ?l (bucket_next b) = Inr (t', st')" by blast
    note c = cut_chain [OF ok i'(1) cut(1,2) wr]
    define chs' where "chs' = chs[i := xs @ ys]"
    have nodes: "list_all (filed (numbuckets t) i) (at st (xs @ ys))"
      using i'(4) cut(1) by (simp add: at_def)
    have "\<exists>d q. st c = Some d \<and> st' c = Some (d\<lparr>bucket_next := q\<rparr>)" if "c \<in> set (xs @ ys)" for c
      using that c chain_allocated [OF i'(3), of c] cut(1) by fastforce
    note data = filter_at_next [OF this nodes]
    have fb: "filed (numbuckets t) i b" using i'(4) cut(1,2) by (simp add: at_def)
    then have mb: "matches k b" using Q cut(3) by blast
    have old: "at st (chs ! i) = at st xs @ b # at st ys" using cut(1,2) by (simp add: at_def)
    have "stored t' st' chs' k' = (if same k k' then map bucket_data (drop_first Q (filter (matches k) (at st (chs ! i))))
        else stored t st chs k')" for k'
    proof -
      obtain j where j: "hash k' (numbuckets t) = Inr j" "j < length chs" using table_index [OF ok] by metis
      have st: "stored t' st' chs' k' = (if j = i then map bucket_data (filter (matches k') (at st (xs @ ys))) else stored t st chs k')"
      proof -
        have "stored t' st' chs' k' = (if j = i then map bucket_data (filter (matches k') (at st' (xs @ ys))) else stored t st chs k')"
          unfolding chs'_def by (rule stored_update) (use i'(1) j c in auto)
        then show ?thesis by (simp only: data)
      qed
      show ?thesis
      proof (cases "same k k'")
        case True
        have "filter (matches k') (at st (xs @ ys)) = filter (matches k) (at st (xs @ ys))"
          using nodes matches_class [OF _ True] by (auto simp: list_all_iff intro!: filter_cong)
        moreover have "drop_first Q (filter (matches k) (at st (chs ! i))) = filter (matches k) (at st (xs @ ys))"
          unfolding old using cut(3,4) mb by (simp add: at_def, subst drop_first_split) auto
        moreover have "j = i" using hash_same [OF True] i j(1) by simp
        ultimately show ?thesis using st True by simp
      next
        case False
        then have "\<not> matches k' b" using matches_other [OF fb mb] by blast
        then have "filter (matches k') (at st (xs @ ys)) = filter (matches k') (at st (chs ! i))"
          unfolding old by (simp add: at_def)
        then show ?thesis using st False j(1) by (auto simp: stored_def)
      qed
    qed
    moreover have "set (concat chs') \<subseteq> set (concat chs)" "length (concat chs') \<le> length (concat chs)"
      using concat_remove [OF i'(1) cut(1)] ok by (auto simp: chs'_def table_ok_def)
    ultimately show ?thesis using cut(5) wr c by (auto simp: chs'_def [symmetric])
  qed
qed

lemma stored_chain:
  "table_ok t st chs \<Longrightarrow> hash k (numbuckets t) = Inr i \<Longrightarrow>
   stored t st chs k = map bucket_data (filter (matches k) (at st (chs ! i)))"
  by (simp add: stored_def)

text \<open>Removing a value of a key, and removing the last one added.\<close>

lemma remove_data_spec:
  assumes ok: "table_ok t st chs" and n: "length (concat chs) < n"
  shows "\<exists>t' st' chs'. unlink_in n t st (hash k (numbuckets t)) (\<lambda>_. with_data d (test k)) = Inr (t', st') \<and>
    table_ok t' st' chs' \<and> set (concat chs') \<subseteq> set (concat chs) \<and> length (concat chs') \<le> length (concat chs) \<and>
    dom st' = dom st \<and>
    (\<forall>k'. stored t' st' chs' k' = (if same k k' then remove1 d (stored t st chs k) else stored t st chs k'))"
proof -
  obtain i where i: "hash k (numbuckets t) = Inr i" using table_index [OF ok] by metis
  let ?Q = "\<lambda>b. bucket_data b = d \<and> matches k b"
  have left: "map bucket_data (drop_first ?Q bs) = remove1 d (map bucket_data bs)" if "\<forall>b \<in> set bs. matches k b" for bs
    using that drop_first_cong [of bs ?Q "\<lambda>b. bucket_data b = d"] by (simp add: drop_first_data)
  have "with_data d (test k) b = Inr (?Q b)" if "filed m j b" for m j b
    using filed_test [OF that, of k] by (auto simp: with_data_def)
  then obtain t' st' chs' where u: "unlink_loop n t st (\<lambda>_. with_data d (test k)) (entry_link i) = Inr (t', st')"
      "table_ok t' st' chs'" "set (concat chs') \<subseteq> set (concat chs)" "length (concat chs') \<le> length (concat chs)"
      "dom st' = dom st"
      "\<forall>k'. stored t' st' chs' k' = (if same k k' then map bucket_data (drop_first ?Q (filter (matches k) (at st (chs ! i))))
        else stored t st chs k')"
    using unlink_spec [OF ok n, of "\<lambda>_. with_data d (test k)" ?Q k i] i by blast
  have "unlink_in n t st (hash k (numbuckets t)) (\<lambda>_. with_data d (test k)) = Inr (t', st')"
    using u(1) by (simp add: unlink_in_def i)
  moreover have "\<forall>k'. stored t' st' chs' k' = (if same k k' then remove1 d (stored t st chs k) else stored t st chs k')"
    using u(6) left by (simp add: stored_chain [OF ok i])
  ultimately show ?thesis using u(2-5) by blast
qed

lemma remove_first_spec:
  assumes ok: "table_ok t st chs" and n: "length (concat chs) < n" and some: "stored t st chs k \<noteq> []"
  shows "\<exists>t' st' chs'. remove_first n t st (hash k (numbuckets t)) (test k) = Inr (t', st') \<and>
    table_ok t' st' chs' \<and> set (concat chs') \<subseteq> set (concat chs) \<and> length (concat chs') \<le> length (concat chs) \<and>
    dom st' = dom st \<and>
    (\<forall>k'. stored t' st' chs' k' = (if same k k' then tl (stored t st chs k) else stored t st chs k'))"
proof -
  obtain i where i: "hash k (numbuckets t) = Inr i" "first_node t i = Inr (bucket t ! i)" "chain st (bucket t ! i) (chs ! i)"
    using table_index [OF ok] by metis
  obtain a as b where a: "chs ! i = a # as" "bucket t ! i = Some a" "st a = Some b"
    using some i(3) by (cases "chs ! i") (auto simp: stored_chain [OF ok i(1)])
  have nxt: "rbind (remove_next k st (test k') c) (\<lambda>st. Inr (t, st)) = unlink_loop k t st (\<lambda>_. test k') (next_link c)" for k k' c
  proof (induction k arbitrary: c)
    case (Suc k)
    show ?case
    proof (cases "st c")
      case (Some d)
      show ?thesis
      proof (cases "bucket_next d")
        case [simp]: (Some e)
        then show ?thesis
        proof (cases "st e")
          case (Some f)
          show ?thesis
          proof (cases "test k' f")
            case (Inr yes)
            then show ?thesis using \<open>st c = Some d\<close> Some Suc.IH [of e] by (cases yes) (simp_all add: read_link_def write_link_def)
          qed (use \<open>st c = Some d\<close> Some in \<open>simp add: read_link_def\<close>)
        qed (use \<open>st c = Some d\<close> in \<open>simp add: read_link_def bucket_at_def\<close>)
      qed (use Some in \<open>simp add: read_link_def\<close>)
    qed (simp add: read_link_def bucket_at_def)
  qed simp
  obtain n' where n': "n = Suc n'" using n by (cases n) auto
  have lt: "length (concat chs) < Suc n" using n by simp
  have "remove_first n t st (hash k (numbuckets t)) (test k) = unlink_loop (Suc n) t st (\<lambda>_. test k) (entry_link i)"
  proof (cases "test k b")
    case (Inr yes)
    then show ?thesis
      using i a nxt [of n k a] by (cases yes) (simp_all add: remove_first_def read_link_def write_link_def del: unlink_loop.simps(2),
          simp_all add: read_link_def write_link_def)
  qed (use i a in \<open>simp add: remove_first_def read_link_def\<close>)
  moreover have "test k b = Inr (matches k b)" if "filed m j b" for m j b
    using filed_test [OF that, of k] by auto
  ultimately obtain t' st' chs' where u: "remove_first n t st (hash k (numbuckets t)) (test k) = Inr (t', st')"
      "table_ok t' st' chs'" "set (concat chs') \<subseteq> set (concat chs)" "length (concat chs') \<le> length (concat chs)"
      "dom st' = dom st"
      "\<forall>k'. stored t' st' chs' k' = (if same k k' then map bucket_data (drop_first (matches k) (filter (matches k) (at st (chs ! i))))
        else stored t st chs k')"
    using unlink_spec [OF ok lt, of "\<lambda>_. test k" "matches k" k i] i(1) by auto
  have "map bucket_data (drop_first (matches k) (filter (matches k) bs)) = tl (map bucket_data (filter (matches k) bs))" for bs
    using drop_first_tl [of "filter (matches k) bs" "matches k"] by (simp add: map_tl)
  then have "\<forall>k'. stored t' st' chs' k' = (if same k k' then tl (stored t st chs k) else stored t st chs k')"
    using u(6) by (simp add: stored_chain [OF ok i(1)])
  then show ?thesis using u(1-5) by blast
qed

text \<open>A table and the multimap it stands for go through the same operations together.\<close>

definition stands_for :: "nat \<Rightarrow> hashtable \<times> nodes \<Rightarrow> ('k \<Rightarrow> nat list) \<Rightarrow> bool" where
  "stands_for n s m \<longleftrightarrow> (\<exists>chs. table_ok (fst s) (snd s) chs \<and> length (concat chs) \<le> n \<and> stored (fst s) (snd s) chs = m)"

lemma disjoint_mono: "set xs \<inter> B = {} \<Longrightarrow> A \<subseteq> B \<Longrightarrow> set ys \<subseteq> set xs \<Longrightarrow> set ys \<inter> A = {}"
  by blast

lemma run_refines:
  assumes "table_ok t st chs" "set (added ops) \<inter> set (concat chs) = {}" "distinct (added ops)" "set (added ops) \<subseteq> dom st"
    "length (concat chs) + length ops < n" "pops_ok same ops (stored t st chs)"
  shows "\<exists>s. run_ops (\<lambda>t st k. add_at t st (hash k (numbuckets t)) (key_of k))
      (\<lambda>t st k d. unlink_in n t st (hash k (numbuckets t)) (\<lambda>_. with_data d (test k)))
      (\<lambda>t st k. remove_first n t st (hash k (numbuckets t)) (test k)) ops (t, st) = Inr s \<and>
    stands_for n s (multimap same ops (stored t st chs))"
  using assms
proof (induction ops arbitrary: t st chs)
  case Nil
  then show ?case by (auto simp: stands_for_def)
next
  case (Cons c ops)
  show ?case
  proof (cases c)
    case (Put k d a)
    then have "a \<notin> set (concat chs)" "st a \<noteq> None" using Cons.prems(2,4) by auto
    from add_spec [OF Cons.prems(1) this, of k d] obtain t' st' chs' where
      u: "add_at t st (hash k (numbuckets t)) (key_of k) d a = Inr (t', st')" "table_ok t' st' chs'"
        "set (concat chs') = insert a (set (concat chs))" "length (concat chs') = Suc (length (concat chs))" "dom st' = dom st"
        and m: "\<forall>k'. stored t' st' chs' k' = (if same k' k then d # stored t st chs k' else stored t st chs k')"
      by blast
    have "stored t' st' chs' = (\<lambda>k'. if same k' k then d # stored t st chs k' else stored t st chs k')" using m by blast
    then show ?thesis using Cons.IH [OF u(2)] Cons.prems(2-6) u Put by (simp add: u(1))
  next
    case (Take k d)
    have "length (concat chs) < n" using Cons.prems(5) by simp
    from remove_data_spec [OF Cons.prems(1) this, of k d] obtain t' st' chs' where
      u: "unlink_in n t st (hash k (numbuckets t)) (\<lambda>_. with_data d (test k)) = Inr (t', st')" "table_ok t' st' chs'"
        "set (concat chs') \<subseteq> set (concat chs)" "length (concat chs') \<le> length (concat chs)" "dom st' = dom st"
        and m: "\<forall>k'. stored t' st' chs' k' = (if same k k' then remove1 d (stored t st chs k) else stored t st chs k')"
      by blast
    have m': "stored t' st' chs' = (\<lambda>k'. if same k k' then remove1 d (stored t st chs k) else stored t st chs k')" using m by blast
    have "set (added ops) \<inter> set (concat chs') = {}"
      using disjoint_mono [OF Cons.prems(2) u(3), of "added ops"] Take by simp
    then show ?thesis using Cons.IH [OF u(2)] Cons.prems(3-6) u(4,5) Take m' by (simp add: u(1))
  next
    case (Pop k)
    have "length (concat chs) < n" "stored t st chs k \<noteq> []" using Cons.prems(5,6) Pop by simp_all
    from remove_first_spec [OF Cons.prems(1) this] obtain t' st' chs' where
      u: "remove_first n t st (hash k (numbuckets t)) (test k) = Inr (t', st')" "table_ok t' st' chs'"
        "set (concat chs') \<subseteq> set (concat chs)" "length (concat chs') \<le> length (concat chs)" "dom st' = dom st"
        and m: "\<forall>k'. stored t' st' chs' k' = (if same k k' then tl (stored t st chs k) else stored t st chs k')"
      by blast
    have m': "stored t' st' chs' = (\<lambda>k'. if same k k' then tl (stored t st chs k) else stored t st chs k')" using m by blast
    have "set (added ops) \<inter> set (concat chs') = {}"
      using disjoint_mono [OF Cons.prems(2) u(3), of "added ops"] Pop by simp
    then show ?thesis using Cons.IH [OF u(2)] Cons.prems(3-6) u(4,5) Pop m' by (simp add: u(1))
  qed
qed

lemma init_table: "nb \<noteq> 0 \<Longrightarrow> table_ok (Hash_InitTable nb (replicate (unat nb) None)) st (replicate (unat nb) [])"
  by (simp add: table_ok_def Hash_InitTable_def concat_replicate_trivial)

lemma init_stored: "nb \<noteq> 0 \<Longrightarrow> stored (Hash_InitTable nb (replicate (unat nb) None)) st (replicate (unat nb) []) = (\<lambda>_. [])"
proof
  fix k
  assume nb: "nb \<noteq> 0"
  obtain i where "hash k nb = Inr i" "i < unat nb" using hash_bound [OF nb] by blast
  then show "stored (Hash_InitTable nb (replicate (unat nb) None)) st (replicate (unat nb) []) k = []"
    by (simp add: stored_def Hash_InitTable_def)
qed

lemma run_from_init:
  assumes nb: "nb \<noteq> 0" and a: "distinct (added ops)" "set (added ops) \<subseteq> dom st" and n: "length ops < n"
    and pops: "pops_ok same ops (\<lambda>_. [])"
  shows "\<exists>t' st'. run_ops (\<lambda>t st k. add_at t st (hash k (numbuckets t)) (key_of k))
      (\<lambda>t st k d. unlink_in n t st (hash k (numbuckets t)) (\<lambda>_. with_data d (test k)))
      (\<lambda>t st k. remove_first n t st (hash k (numbuckets t)) (test k))
      ops (Hash_InitTable nb (replicate (unat nb) None), st) = Inr (t', st') \<and>
    (\<forall>k. get_data (find_in n t' st' (hash k (numbuckets t')) (test k)) = Inr (first_value (multimap same ops (\<lambda>_. []) k)))"
proof -
  have "length (concat (replicate (unat nb) ([] :: nat list))) = 0" by (simp add: concat_replicate_trivial)
  then obtain s where s: "run_ops (\<lambda>t st k. add_at t st (hash k (numbuckets t)) (key_of k))
      (\<lambda>t st k d. unlink_in n t st (hash k (numbuckets t)) (\<lambda>_. with_data d (test k)))
      (\<lambda>t st k. remove_first n t st (hash k (numbuckets t)) (test k))
      ops (Hash_InitTable nb (replicate (unat nb) None), st) = Inr s" "stands_for n s (multimap same ops (\<lambda>_. []))"
    using run_refines [OF init_table [OF nb], of ops st n] a n pops by (auto simp: init_stored [OF nb] concat_replicate_trivial)
  obtain t' st' where [simp]: "s = (t', st')" by (cases s)
  obtain chs where "table_ok t' st' chs" "length (concat chs) \<le> n" "stored t' st' chs = multimap same ops (\<lambda>_. [])"
    using s(2) by (auto simp: stands_for_def)
  then show ?thesis using s(1) find_stored [of t' st' chs n] by (simp add: first_value_def)
qed

end

section \<open>The three kinds\<close>

lemma modulo_bound: "n \<noteq> 0 \<Longrightarrow> \<exists>i. modulo key n = Inr i \<and> i < unat n"
  by (simp add: modulo_def unat_mod unat_gt_0)

lemma not_STRCMP [simp]: "\<not> STRCMP s1 s2 \<longleftrightarrow> s1 = s2"
  by (auto simp: STRCMP_def)

lemma lower_char_scast: "lower_char c = scast (lower c)"
proof (cases "0x41 \<le> c \<and> c \<le> 0x5A")
  case True
  have "unat c \<in> set [65, 66, 67, 68, 69, 70, 71, 72, 73, 74, 75, 76, 77, 78, 79, 80, 81, 82, 83, 84, 85, 86, 87, 88, 89, 90]"
    using True by (simp add: word_le_nat_alt) arith
  then have "c \<in> word_of_nat ` set [65, 66, 67, 68, 69, 70, 71, 72, 73, 74, 75, 76, 77, 78, 79, 80, 81, 82, 83, 84, 85, 86, 87, 88, 89, 90]"
    by (rule image_eqI [rotated]) simp
  then show ?thesis by (auto simp: lower_char_def lower_def)
qed (auto simp: lower_char_def lower_def)

lemma lower_char_lower: "lower c = lower d \<Longrightarrow> lower_char c = lower_char d"
  by (simp add: lower_char_scast)

lemma hash_loop_lower: "map lower s = map lower s' \<Longrightarrow> hash_loop lower_char s k = hash_loop lower_char s' k"
proof (induction s arbitrary: s' k)
  case (Cons c s)
  then obtain d ds where "s' = d # ds" "lower c = lower d" "map lower s = map lower ds" by (cases s') auto
  then show ?case using Cons.IH lower_char_lower [of c d] by simp
qed simp

lemma equivp_on: "equivp (\<lambda>x y. f x = f y)"
  by (simp add: equivp_def fun_eq_iff) metis

interpretation names: hashing Hash_Key KeyString "(=)" is_name
  by unfold_locales (auto simp: Hash_Key_def modulo_bound is_name_def string_of_def intro: identity_equivp)

interpretation insensitive: hashing Hash_KeyInsensitive KeyString "\<lambda>s s'. map lower s = map lower s'" is_name_insensitive
proof unfold_locales
  fix s s' :: "u8 list" and n
  assume "map lower s = map lower s'"
  from hash_loop_lower [OF this] show "Hash_KeyInsensitive s n = Hash_KeyInsensitive s' n"
    by (simp add: Hash_KeyInsensitive_def)
qed (auto simp: Hash_KeyInsensitive_def modulo_bound is_name_insensitive_def string_of_def stricmp_def intro: equivp_on)

interpretation numbers: hashing modulo KeyValue "(=)" is_value
  by unfold_locales (auto simp: modulo_bound is_value_def value_of_def intro: identity_equivp)

section \<open>Tables of the code\<close>

text \<open>Operations that are not there for a kind of key do not matter to callers that do not use them.\<close>

fun no_pop :: "'k table_op list \<Rightarrow> bool" where
  "no_pop [] \<longleftrightarrow> True"
| "no_pop (Put k d a # ops) \<longleftrightarrow> no_pop ops"
| "no_pop (Take k d # ops) \<longleftrightarrow> no_pop ops"
| "no_pop (Pop k # ops) \<longleftrightarrow> False"

fun no_take :: "'k table_op list \<Rightarrow> bool" where
  "no_take [] \<longleftrightarrow> True"
| "no_take (Put k d a # ops) \<longleftrightarrow> no_take ops"
| "no_take (Take k d # ops) \<longleftrightarrow> False"
| "no_take (Pop k # ops) \<longleftrightarrow> no_take ops"

lemma run_no_pop: "no_pop ops \<Longrightarrow> run_ops add rem pop ops s = run_ops add rem pop' ops s"
  by (induction ops arbitrary: s rule: no_pop.induct) (auto simp: rbind_def split: sum.splits)

lemma run_no_take: "no_take ops \<Longrightarrow> run_ops add rem pop ops s = run_ops add rem' pop ops s"
  by (induction ops arbitrary: s rule: no_take.induct) (auto simp: rbind_def split: sum.splits)

lemma pops_ok_no_pop: "no_pop ops \<Longrightarrow> pops_ok same ops m"
  by (induction ops arbitrary: m rule: no_pop.induct) auto

text \<open>
  C33. A table of numbered entries (Hash_InitTable, Hash_AddKey, Hash_RemoveDataKey, Hash_RemoveKey, Hash_GetKey) behaves as a
  multimap from keys to lists of values: after any sequence of additions, each with a node of its own, removals of a value and
  removals of the value added last, every look-up returns the value of the key that was added last and not removed, whatever the
  collisions; no step faults, and a loop bound above the number of operations is enough for every walk.
\<close>

theorem hash_numbers_refine:
  assumes "nb \<noteq> 0" "distinct (added ops)" "set (added ops) \<subseteq> dom st" "length ops < n" "pops_ok (=) ops (\<lambda>_. [])"
  shows "\<exists>t' st'. run_ops Hash_AddKey (Hash_RemoveDataKey n) (Hash_RemoveKey n) ops
      (Hash_InitTable nb (replicate (unat nb) None), st) = Inr (t', st') \<and>
    (\<forall>k. Hash_GetKey n t' st' k = Inr (first_value (multimap (=) ops (\<lambda>_. []) k)))"
proof -
  have "Hash_AddKey = (\<lambda>t st k. add_at t st (modulo k (numbuckets t)) (KeyValue k))"
    "Hash_RemoveDataKey n = (\<lambda>t st k d. unlink_in n t st (modulo k (numbuckets t)) (\<lambda>_. with_data d (is_value k)))"
    "Hash_RemoveKey n = (\<lambda>t st k. remove_first n t st (modulo k (numbuckets t)) (is_value k))"
    by (simp_all add: fun_eq_iff Hash_AddKey_def Hash_RemoveDataKey_def Hash_RemoveKey_def)
  with numbers.run_from_init [OF assms] show ?thesis by (simp add: Hash_GetKey_def)
qed

theorem hash_numbers_refine_witness:
  "\<forall>b. \<exists>t' st'. run_ops Hash_AddKey (Hash_RemoveDataKey 7) (Hash_RemoveKey 7)
      [Put 1 10 100, Put 3 30 101, Put 1 11 102, Take 1 11, Put 1 12 103, Pop 1]
      (Hash_InitTable 2 (replicate (unat (2 :: u32)) None), \<lambda>a. Some (b :: bucket_s)) = Inr (t', st') \<and>
    (\<forall>k. Hash_GetKey 7 t' st' k = Inr (first_value (multimap (=) [Put 1 10 100, Put 3 30 101, Put 1 11 102, Take 1 11,
      Put 1 12 103, Pop 1] (\<lambda>_. []) k)))"
  by (intro allI, rule hash_numbers_refine) (auto simp: dom_def)

text \<open>
  C32. A table of names without regard to case (Hash_AddInsensitive, Hash_RemoveDataInsensitive, Hash_GetInsensitive), as the
  console's commands and variables and the file system use it, is the same multimap, with keys that are equal when their
  lower-case forms are.  The hash agrees with the comparison: a name is found under every spelling.
\<close>

theorem hash_insensitive_refines:
  assumes "nb \<noteq> 0" "distinct (added ops)" "set (added ops) \<subseteq> dom st" "length ops < n" "no_pop ops"
  shows "\<exists>t' st'. run_ops Hash_AddInsensitive (Hash_RemoveDataInsensitive n) pop ops
      (Hash_InitTable nb (replicate (unat nb) None), st) = Inr (t', st') \<and>
    (\<forall>k. Hash_GetInsensitive n t' st' k
      = Inr (first_value (multimap (\<lambda>s s'. map lower s = map lower s') ops (\<lambda>_. []) k)))"
proof -
  have "Hash_AddInsensitive = (\<lambda>t st k. add_at t st (Hash_KeyInsensitive k (numbuckets t)) (KeyString k))"
    "Hash_RemoveDataInsensitive n
      = (\<lambda>t st k d. unlink_in n t st (Hash_KeyInsensitive k (numbuckets t)) (\<lambda>_. with_data d (is_name_insensitive k)))"
    by (simp_all add: fun_eq_iff Hash_AddInsensitive_def Hash_RemoveDataInsensitive_def)
  with insensitive.run_from_init [OF assms(1-4) pops_ok_no_pop [OF assms(5)]] show ?thesis
    unfolding run_no_pop [OF assms(5), where pop = pop and pop' = "\<lambda>t st k. remove_first n t st (Hash_KeyInsensitive k (numbuckets t))
        (is_name_insensitive k)"]
    by (simp add: Hash_GetInsensitive_def)
qed

theorem hash_insensitive_refines_witness:
  "\<forall>b pop. \<exists>t' st'. run_ops Hash_AddInsensitive (Hash_RemoveDataInsensitive 4) pop
      [Put [0x41, 0x62] 10 100, Put [0x61, 0x42] 11 101, Take [0x61, 0x62] 11]
      (Hash_InitTable 3 (replicate (unat (3 :: u32)) None), \<lambda>a. Some (b :: bucket_s)) = Inr (t', st') \<and>
    (\<forall>k. Hash_GetInsensitive 4 t' st' k = Inr (first_value (multimap (\<lambda>s s'. map lower s = map lower s')
      [Put [0x41, 0x62] 10 100, Put [0x61, 0x42] 11 101, Take [0x61, 0x62] 11] (\<lambda>_. []) k)))"
  by (intro allI, rule hash_insensitive_refines) (auto simp: dom_def)

text \<open>
  A table of names with regard to case, with Hash_Add, Hash_Remove and Hash_Get.  Hash_RemoveData does not belong to this
  kind: it hashes with regard to case and compares without.
\<close>

theorem hash_names_refine:
  assumes "nb \<noteq> 0" "distinct (added ops)" "set (added ops) \<subseteq> dom st" "length ops < n" "no_take ops"
    "pops_ok (=) ops (\<lambda>_. [])"
  shows "\<exists>t' st'. run_ops Hash_Add rem (Hash_Remove n) ops (Hash_InitTable nb (replicate (unat nb) None), st) = Inr (t', st') \<and>
    (\<forall>k. Hash_Get n t' st' k = Inr (first_value (multimap (=) ops (\<lambda>_. []) k)))"
proof -
  have "Hash_Add = (\<lambda>t st k. add_at t st (Hash_Key k (numbuckets t)) (KeyString k))"
    "Hash_Remove n = (\<lambda>t st k. remove_first n t st (Hash_Key k (numbuckets t)) (is_name k))"
    by (simp_all add: fun_eq_iff Hash_Add_def Hash_Remove_def)
  with names.run_from_init [OF assms(1-4,6)] show ?thesis
    unfolding run_no_take [OF assms(5), where rem = rem and rem' = "\<lambda>t st k d. unlink_in n t st (Hash_Key k (numbuckets t)) (\<lambda>_. with_data d
        (is_name k))"]
    by (simp add: Hash_Get_def)
qed

text \<open>Hash_Remove of a name whose chain is empty reads through the null pointer.\<close>

theorem hash_remove_empty_chain:
  "Hash_Key name (numbuckets t) = Inr i \<Longrightarrow> i < length (bucket t) \<Longrightarrow> bucket t ! i = None \<Longrightarrow>
   Hash_Remove n t st name = Inl NullDeref"
  by (simp add: Hash_Remove_def remove_first_def first_node_def)

text \<open>Hash_RemoveData of one spelling takes out the other, where both are filed with the same value.\<close>

theorem hash_remove_data_other_case:
  "\<exists>t1 s1 t2 s2 t3 s3.
    Hash_Add (Hash_InitTable 1 [None]) (\<lambda>a. Some b) [0x41] 7 0 = Inr (t1, s1) \<and> Hash_Add t1 s1 [0x61] 7 1 = Inr (t2, s2) \<and>
    Hash_RemoveData (Suc (Suc (Suc 0))) t2 s2 [0x41] 7 = Inr (t3, s3) \<and> Hash_Get (Suc (Suc (Suc 0))) t3 s3 [0x41] = Inr (Some 7) \<and> Hash_Get (Suc (Suc (Suc 0))) t3 s3 [0x61] = Inr None"
  by (simp add: Hash_InitTable_def Hash_Add_def add_at_def Hash_Key_def modulo_def bucket_at_def first_node_def Hash_RemoveData_def
      unlink_in_def with_data_def is_name_insensitive_def string_of_def stricmp_def lower_def read_link_def write_link_def
      Hash_Get_def find_in_def get_data_def is_name_def)

end
