(* ===== verification/Spec2Isabelle.thy ===== *)
theory Spec2Isabelle
  imports Crc MsgProps NetchanFaults QvmLoad InfoJoin InfoTransfer HashSpec
begin

text \<open>
  A verification development for the networking and data core of the FTE engine (FTEQW).

  The program.  The engine is a client and a server for Quake-family games.  Everything
  that crosses the network goes through a few pieces of shared code: messages are built in and read from byte buffers
  (\<open>sizebuf_t\<close>, \<open>engine/common/common.c\<close>), optionally packed by an adaptive Huffman coder
  (\<open>huff.c\<close>); a network channel (\<open>net_chan.c\<close>) numbers the packets, repeats reliable data until it is
  acknowledged and cuts long messages into fragments; the server queues what it wants to tell a client reliably in
  front of the channel (\<open>sv_nchan.c\<close>, \<open>sv_send.c\<close>); settings of the server and of the players are key/value
  stores (\<open>infobuf_t\<close> and the older info strings) that are sent through that queue and parsed by the
  client (\<open>cl_parse.c\<close>).  Quake 3 game code runs in a bytecode machine (\<open>qvm.c\<close>) that has to confine it, and
  maps and models are identified by a CRC (\<open>crc.c\<close>).  These are the modelled parts; rendering, sound, game physics, file
  systems, compilers, tools and plugins are listed in the manifest with the reasons why they are not.

  Conventions (\<open>Prelude\<close>).  Machine integers are words of the width of the C declaration
  where they can wrap (\<open>u8\<close>, \<open>u16\<close>, \<open>u32\<close>, \<open>u64\<close>; \<open>size_t\<close> has 64 bits), and \<open>int\<close> or \<open>nat\<close> where
  the code keeps them small.  A C object is the list of its bytes; every access is checked, and
  leaving the object is the value \<open>Inl OutOfBounds\<close>, following a null pointer \<open>Inl NullDeref\<close>, undefined
  arithmetic \<open>Inl Undefined\<close>, the fatal exits of the engine \<open>Inl (Sys_Error s)\<close> and \<open>Inl Host_EndGame\<close>.  So a theorem
  that a function returns \<open>Inr\<close> is a theorem of memory safety.  A pointer that only moves forwards is the list of the bytes behind it.
  Structures are records with the names of their C fields, functions keep their names.  What is not under
  version control here (sockets, native libraries, system calls, floating-point clocks, uninitialised locals) is an argument of
  the definitions that use it (\<open>netenv\<close>, \<open>qvmenv\<close>).  A loop without a bound of its own is a function with fuel whose
  exhaustion is \<open>Inl OutOfFuel\<close>, and the theorems say which fuel is enough: every fragmentation of
  a message ends (\<open>NetchanFrag\<close>), \<open>2 ^ 20\<close> rounds for removing keys by prefix (\<open>InfoSafe\<close>), and the length of the program run for the
  bytecode machine, whose programs may loop.

  Theories and code.

  \<^item> \<open>Crc\<close>: \<open>crc.c\<close>.  The table-driven CRC equals bitwise division; single-byte errors are detected.
  \<^item> \<open>Sizebuf\<close>, \<open>MsgRead\<close>, \<open>MsgCodec\<close>, \<open>MsgWide\<close>, \<open>MsgProps\<close>: \<open>sizebuf_t\<close>, the \<open>SZ_\<close>, \<open>MSG_Write\<close> and \<open>MSG_Read\<close>
    functions of \<open>common.c\<close>.  The locale \<open>msg_codec\<close> is the contract between a writer and its reader, with whole messages as its
    clients; every pair of functions interprets it.  \<open>Huff\<close>: the coder of \<open>huff.c\<close> (definitions only, used by the packed readers).
  \<^item> \<open>Netchan\<close>: \<open>net_chan.c\<close>, all of \<open>Netchan_Setup\<close>, \<open>Netchan_Transmit\<close>, \<open>Netchan_Process\<close> and their NetQuake
    variants.  \<open>NetchanSafe\<close>: hostile packets are safe, no packet is accepted twice.  \<open>NetchanProtocol\<close>: the protocol as a step
    relation of two endpoints over a network that loses, repeats and reorders, and its invariant: reliable data arrive in order and
    once.  \<open>NetchanRefine\<close>: the code refines the protocol's endpoint.  \<open>NetchanFrag\<close>, \<open>NetchanFaults\<close>: fragmentation, and the
    faults the model shows.
  \<^item> \<open>BackBuf\<close>, \<open>BackBufOrder\<close>: \<open>sv_nchan.c\<close> and the flushing loop of \<open>sv_send.c\<close>.  The locale \<open>outlet\<close> is a queue of blocks with
    a frame operation; its lemmas give order and delivery, its interpretation is the model's client.
  \<^item> \<open>Base64\<close>, \<open>InfoBuf\<close>, \<open>InfoEncode\<close>, \<open>InfoStore\<close>, \<open>InfoText\<close>: block coders and info buffers of \<open>common.c\<close>.  The
    locale \<open>key_store\<close> is the contract of a store of keys and values; complete info buffers interpret it, and the text readers rest on it.
  \<^item> \<open>InfoString\<close>, \<open>InfoPairs\<close>, \<open>InfoSafe\<close>: the older info strings of \<open>common.c\<close>, edited in place.  \<open>InfoPairs\<close> relates
    them to lists of pairs and interprets \<open>key_store\<close> again; \<open>InfoSafe\<close> takes arbitrary strings.  \<open>InfoJoin\<close>: what the buffers
    write, the older functions read.
  \<^item> \<open>InfoTransfer\<close>: \<open>SV_SyncInfoBuf\<close> of \<open>sv_send.c\<close> and \<open>CL_ParseSetInfoBlob\<close> of \<open>cl_parse.c\<close>, over the reliable stream and the
    message readers: a long value arrives whole, in a known number of messages.
  \<^item> \<open>Qvm\<close>, \<open>QvmSafe\<close>, \<open>QvmExpr\<close>, \<open>QvmLoad\<close>: \<open>qvm.c\<close>, every opcode.  Well-behaved programs stay inside the machine's memory and never
    write code; compiled expressions evaluate to their value; an image loads into the machine it describes; what a hostile image can do.

  \<^item> \<open>Hash\<close>, \<open>HashSpec\<close>: \<open>engine/qclib/hash.c\<close>, tables of nodes chained through pointers.  The locale \<open>hashing\<close> is the
    contract of a kind of key (equal keys hash alike, the test decides equality), interpreted for names, names without regard to case
    and numbers; a table behaves as a multimap.

  The state of a part is one record threaded through its operations (\<open>netchan\<close>, \<open>msgstate\<close>, \<open>qvm\<close>, \<open>client\<close>,
  \<open>infobuf\<close>); parts that share state are composed as in the code: a client contains its channel, the channel its message buffer, and
  the queue of a client's keys points at info buffers by a context number.  Each theory states the invariant of
  its state, that every operation keeps it, and what the operation does to the abstract value of the state (bytes of a
  stream, a finite map, a list of pairs, an endpoint of the protocol); the properties follow from these lemmas.

  Not modelled, in the parts above: coordinates, angles and user commands in messages (floating-point rounding), the
  rate control of the channel (floating-point clocks enter as its results), console output, demo recording, and
  the reactions of the client to a complete setting.
\<close>

end
